(* ===== verification/Codohue_Prelude.thy ===== *)
theory Codohue_Prelude
  imports Main "HOL-Library.Sublist" "HOL-Library.Char_ord" "HOL-Library.List_Lexorder"
    "HOL-Library.Product_Lexorder"
begin

text \<open>
  Shared vocabulary of the development: Go results as sums, the decimal printing and
  parsing that \<^verbatim>\<open>fmt\<close> and \<^verbatim>\<open>strconv\<close> perform, splitting a string at its first
  separator, and the interface of a keyset-paginated read with the facts its clients use.
\<close>

section \<open>Types and collections\<close>

text \<open>
  A fallible Go call returns \<^typ>\<open>'e + 'a\<close>: \<^term>\<open>Inl e\<close> is the error, \<^term>\<open>Inr v\<close> the
  value. Wrapping with \<^verbatim>\<open>%w\<close> keeps the identity that \<^verbatim>\<open>errors.Is\<close> tests, so an error
  is modelled by its sentinel. Timestamps and durations are integers (nanoseconds).
\<close>

type_synonym namespace = string
type_synonym time = int

named_theorems go_defs \<open>definitions of the modelled operations, for unfolding\<close>
named_theorems ledger_simps \<open>field equations of the ledger operations\<close>

text \<open>
  Go's single \<^verbatim>\<open>error\<close> type: the sentinels the modelled packages compare with
  \<^verbatim>\<open>errors.Is\<close>, package by package where two packages name theirs alike, and \<open>Failure\<close> for
  every other error (a failed statement, a lost connection, a formatted message). \<open>PgError\<close> is a
  PostgreSQL error with its SQLSTATE; \<open>ErrContextDone\<close> stands for \<^verbatim>\<open>context.Canceled\<close> and
  \<^verbatim>\<open>context.DeadlineExceeded\<close>, which the code always tests together.
\<close>

datatype ingest_error =
    ErrInvalidPayload
  | ErrInvalidObjectCreatedAt
  | ErrUnknownAction
  | IngestNamespaceNotFound
  | IngestNamespacePaused
  | ErrCatalogItemRejected

datatype catalog_error =
    ErrInvalidRequest
  | ErrEmptyContent
  | ErrContentTooLarge
  | ErrNamespaceNotEnabled
  | CatalogNamespaceNotFound
  | CatalogNamespacePaused
  | ErrUnstorable

datatype embedder_error =
    ErrItemNotFound
  | ErrStaleItem
  | EmbedderNamespaceNotEnabled
  | ErrUnknownStrategy
  | ErrDimensionMismatch
  | ErrZeroNorm
  | ErrInputTooLarge
  | ErrTransient

datatype nsconfig_error =
    ErrInvalidConfig
  | ErrCatalogViaUpsert
  | ErrEmbeddingDimLocked
  | NsconfigNamespaceNotFound
  | ErrProvisionConflict

datatype repair_error =
    ErrRepairRunNotFound
  | ErrRepairRunActive
  | ErrManifestChanged
  | ErrQuarantinedItems
  | ErrSnapshotsRequired

datatype admin_error =
    ErrRunInProgress
  | ErrBatchRunning
  | ErrRetryReembedUnsupported
  | ErrReembedAlreadyRunning
  | ErrNamespacePaused
  | ErrCatalogStrategyPickerUnavailable

datatype go_error =
    ErrNamespaceNotFound
  | ErrNamespaceNotActive
  | ErrSystemResetting
  | ErrLeaseRequired
  | ErrGlobalExclusiveRequired
  | ErrLegacyEnvelopesOpen
  | ErrAdoptionEvidence
  | ErrContextDone
  | ErrRedisNil
  | ErrNoRows
  | IngestError ingest_error
  | CatalogError catalog_error
  | EmbedderError embedder_error
  | NsconfigError nsconfig_error
  | RepairError repair_error
  | AdminError admin_error
  | PgError string
  | Failure string

fun is_ok :: "'e + 'a \<Rightarrow> bool" where
  "is_ok (Inl _) = False"
| "is_ok (Inr _) = True"

lemma is_ok_iff: "is_ok r \<longleftrightarrow> (\<exists>v. r = Inr v)"
  by (cases r) auto

lemma not_is_ok_iff: "\<not> is_ok r \<longleftrightarrow> (\<exists>e. r = Inl e)"
  by (cases r) auto

section \<open>Decimal numbers\<close>

definition digit_char :: "nat \<Rightarrow> char" where
  "digit_char d = char_of (48 + d)"

definition is_digit :: "char \<Rightarrow> bool" where
  "is_digit c \<longleftrightarrow> 48 \<le> (of_char c :: nat) \<and> (of_char c :: nat) \<le> 57"

definition digit_val :: "char \<Rightarrow> nat" where
  "digit_val c = of_char c - 48"

lemma of_char_less_256 [simp]: "(of_char c :: nat) < 256"
  by (metis of_char_mod_256 mod_less_divisor zero_less_numeral)

lemma of_digit_char: "d < 10 \<Longrightarrow> (of_char (digit_char d) :: nat) = 48 + d"
  by (simp add: digit_char_def)

lemma is_digit_digit_char [simp]: "d < 10 \<Longrightarrow> is_digit (digit_char d)"
  by (simp add: is_digit_def of_digit_char)

lemma digit_val_digit_char [simp]: "d < 10 \<Longrightarrow> digit_val (digit_char d) = d"
  by (simp add: digit_val_def of_digit_char)

lemma digit_char_eval [simp]:
  "digit_char 0 = CHR ''0''" "digit_char (Suc 0) = CHR ''1''" "digit_char 1 = CHR ''1''"
  "digit_char 2 = CHR ''2''" "digit_char 3 = CHR ''3''" "digit_char 4 = CHR ''4''"
  "digit_char 5 = CHR ''5''" "digit_char 6 = CHR ''6''" "digit_char 7 = CHR ''7''"
  "digit_char 8 = CHR ''8''" "digit_char 9 = CHR ''9''"
  by code_simp+

text \<open>\<^verbatim>\<open>%d\<close> of a natural number and of an integer.\<close>

fun show_nat :: "nat \<Rightarrow> string" where
  "show_nat n = (if n < 10 then [digit_char n] else show_nat (n div 10) @ [digit_char (n mod 10)])"

declare show_nat.simps [simp del]

definition show_int :: "int \<Rightarrow> string" where
  "show_int i = (if i < 0 then CHR ''-'' # show_nat (nat (- i)) else show_nat (nat i))"

lemma show_nat_not_Nil [simp]: "show_nat n \<noteq> []"
  by (subst show_nat.simps) simp

lemma show_nat_digits: "list_all is_digit (show_nat n)"
proof (induction n rule: show_nat.induct)
  case (1 n)
  then show ?case by (subst show_nat.simps) simp
qed

text \<open>\<^verbatim>\<open>strconv.ParseUint(s, 10, 64)\<close>: decimal digits only, at least one, below \<open>2 ^ 64\<close>.\<close>

fun parse_digits :: "nat \<Rightarrow> string \<Rightarrow> nat option" where
  "parse_digits acc [] = Some acc"
| "parse_digits acc (c # cs) =
     (if is_digit c then parse_digits (acc * 10 + digit_val c) cs else None)"

definition parse_uint64 :: "string \<Rightarrow> nat option" where
  "parse_uint64 s =
     (if s = [] then None
      else case parse_digits 0 s of
             None \<Rightarrow> None
           | Some n \<Rightarrow> if n < 2 ^ 64 then Some n else None)"

lemma parse_digits_append:
  "parse_digits a (s @ t) = Option.bind (parse_digits a s) (\<lambda>b. parse_digits b t)"
  by (induction s arbitrary: a) auto

lemma parse_digits_show_nat: "parse_digits 0 (show_nat n) = Some n"
proof (induction n rule: show_nat.induct)
  case (1 n)
  show ?case
  proof (cases "n < 10")
    case True
    then show ?thesis by (subst show_nat.simps) simp
  next
    case False
    with "1" have "parse_digits 0 (show_nat (n div 10)) = Some (n div 10)" by simp
    with False show ?thesis by (subst show_nat.simps) (simp add: parse_digits_append)
  qed
qed

lemma parse_uint64_show_nat: "n < 2 ^ 64 \<Longrightarrow> parse_uint64 (show_nat n) = Some n"
  by (simp add: parse_uint64_def parse_digits_show_nat)

lemma show_nat_inject [simp]: "show_nat m = show_nat n \<longleftrightarrow> m = n"
  by (metis parse_digits_show_nat option.inject)

lemma show_int_inject_nonneg: "0 \<le> i \<Longrightarrow> 0 \<le> j \<Longrightarrow> show_int i = show_int j \<longleftrightarrow> i = j"
  by (auto simp: show_int_def)

lemma show_int_digits: "0 \<le> i \<Longrightarrow> list_all is_digit (show_int i) \<and> show_int i \<noteq> []"
  by (simp add: show_int_def show_nat_digits)

text \<open>\<^verbatim>\<open>strconv.ParseInt(s, 10, 64)\<close>: an optional sign, then digits, within the signed range.\<close>

definition parse_int64 :: "string \<Rightarrow> int option" where
  "parse_int64 s =
     (let neg = (s \<noteq> [] \<and> hd s = CHR ''-'');
          body = (if s \<noteq> [] \<and> (hd s = CHR ''-'' \<or> hd s = CHR ''+'') then tl s else s)
      in if body = [] then None
         else case parse_digits 0 body of
                None \<Rightarrow> None
              | Some n \<Rightarrow>
                  if neg then (if n \<le> 2 ^ 63 then Some (- int n) else None)
                  else (if n < 2 ^ 63 then Some (int n) else None))"

section \<open>Strings\<close>

text \<open>\<^verbatim>\<open>strings.Cut\<close> at a one-character separator: the parts around its first occurrence.\<close>

fun cut_at :: "char \<Rightarrow> string \<Rightarrow> (string \<times> string) option" where
  "cut_at c [] = None"
| "cut_at c (x # xs) =
     (if x = c then Some ([], xs)
      else map_option (\<lambda>(a, b). (x # a, b)) (cut_at c xs))"

lemma cut_at_append: "c \<notin> set a \<Longrightarrow> cut_at c (a @ c # b) = Some (a, b)"
  by (induction a) auto

lemma cut_at_SomeD: "cut_at c s = Some (a, b) \<Longrightarrow> s = a @ c # b \<and> c \<notin> set a"
  by (induction s arbitrary: a) (auto split: if_splits)

text \<open>\<^verbatim>\<open>strings.Contains\<close>.\<close>

definition str_contains :: "string \<Rightarrow> string \<Rightarrow> bool" where
  "str_contains s sub = list_ex (\<lambda>suf. prefix sub suf) (suffixes s)"

lemma list_all_not_mem: "list_all P xs \<Longrightarrow> \<not> P x \<Longrightarrow> x \<notin> set xs"
  by (auto simp: list_all_iff)

text \<open>
  A tail of characters satisfying \<open>P\<close> after a separator that does not is determined by
  the whole string, so a suffix such as \<^verbatim>\<open>_g12\<close> can be read back uniquely.
\<close>

lemma append_sep_inject:
  fixes c :: char
  assumes "list_all P u" and "list_all P v" and "\<not> P c"
    and "x @ c # u = y @ c # v"
  shows "x = y \<and> u = v"
proof -
  have nu: "c \<notin> set (rev u)" and nv: "c \<notin> set (rev v)"
    using assms(1-3) by (auto simp: list_all_iff)
  have "rev u @ c # rev x = rev v @ c # rev y"
    using arg_cong [OF assms(4), of rev] by simp
  then have "cut_at c (rev u @ c # rev x) = cut_at c (rev v @ c # rev y)" by simp
  with nu nv have "rev u = rev v \<and> rev x = rev y" by (simp add: cut_at_append)
  then show ?thesis by simp
qed

lemma sorted_wrt_concat_map:
  assumes "sorted_wrt (\<lambda>a b. \<forall>x\<in>set (f a). \<forall>y\<in>set (f b). R x y) xs"
    and "\<And>a. a \<in> set xs \<Longrightarrow> sorted_wrt R (f a)"
  shows "sorted_wrt R (concat (map f xs))"
  using assms by (induction xs) (auto simp: sorted_wrt_append)

section \<open>Keyset pagination\<close>

text \<open>
  A keyset read returns the first \<open>n\<close> rows whose key lies strictly after a cursor, in key
  order (\<^verbatim>\<open>WHERE key > cursor ORDER BY key LIMIT n\<close>). The locale is the contract such a
  read offers; the lemmas are what a client that walks it page by page relies on.
\<close>

locale keyset_source =
  fixes valid :: "'s \<Rightarrow> bool"
    and rows :: "'s \<Rightarrow> 'r list"
    and key :: "'r \<Rightarrow> 'k::linorder"
    and fetch :: "'s \<Rightarrow> 'k \<Rightarrow> nat \<Rightarrow> 'r list"
  assumes rows_sorted: "valid s \<Longrightarrow> sorted_wrt (\<lambda>a b. key a < key b) (rows s)"
    and fetch_rows: "valid s \<Longrightarrow> fetch s c n = take n (filter (\<lambda>r. c < key r) (rows s))"
begin

lemma fetch_length: "valid s \<Longrightarrow> length (fetch s c n) \<le> n"
  by (simp add: fetch_rows)

lemma fetch_after: "valid s \<Longrightarrow> r \<in> set (fetch s c n) \<Longrightarrow> r \<in> set (rows s) \<and> c < key r"
  by (auto simp: fetch_rows dest: in_set_takeD)

lemma fetch_sorted: "valid s \<Longrightarrow> sorted_wrt (\<lambda>a b. key a < key b) (fetch s c n)"
  by (simp add: fetch_rows rows_sorted sorted_wrt_filter sorted_wrt_take)

lemma fetch_short:
  "valid s \<Longrightarrow> length (fetch s c n) < n \<Longrightarrow> fetch s c n = filter (\<lambda>r. c < key r) (rows s)"
  by (simp add: fetch_rows)

text \<open>
  Everything after the cursor is the page followed by everything after the page's last key:
  a walk that resumes at that key neither repeats a row nor skips one.
\<close>

lemma fetch_split:
  assumes v: "valid s" and "fetch s c n \<noteq> []"
  shows "filter (\<lambda>r. c < key r) (rows s)
         = fetch s c n @ filter (\<lambda>r. key (last (fetch s c n)) < key r) (rows s)"
proof -
  let ?xs = "filter (\<lambda>r. c < key r) (rows s)"
  let ?p = "fetch s c n"
  let ?k = "key (last ?p)"
  have srt: "sorted_wrt (\<lambda>a b. key a < key b) ?xs"
    by (simp add: rows_sorted v sorted_wrt_filter)
  have split: "?xs = ?p @ drop n ?xs" by (simp add: fetch_rows v)
  have ck: "c < ?k" using assms fetch_after last_in_set by blast
  have upto: "key r \<le> ?k" if "r \<in> set ?p" for r
  proof -
    have "sorted_wrt (\<lambda>a b. key a < key b) (butlast ?p @ [last ?p])"
      using fetch_sorted assms by simp
    moreover have "r \<in> set (butlast ?p @ [last ?p])" using that assms by simp
    ultimately show ?thesis by (fastforce simp: sorted_wrt_append)
  qed
  have beyond: "?k < key r" if "r \<in> set (drop n ?xs)" for r
    using srt that assms(2) last_in_set split
    by (metis sorted_wrt_append)
  have "filter (\<lambda>r. ?k < key r) (rows s) = filter (\<lambda>r. ?k < key r) ?xs"
    using ck by (auto simp: filter_filter intro!: filter_cong)
  also have "\<dots> = filter (\<lambda>r. ?k < key r) ?p @ filter (\<lambda>r. ?k < key r) (drop n ?xs)"
    by (subst split) (simp only: filter_append)
  also have "filter (\<lambda>r. ?k < key r) ?p = []"
    using upto by (auto simp: filter_empty_conv not_less)
  also have "filter (\<lambda>r. ?k < key r) (drop n ?xs) = drop n ?xs"
    using beyond by simp
  finally show ?thesis using split by simp
qed

end

end
