(* ===== verification/Base64_Url.thy ===== *)
theory Base64_Url
  imports Codohue_Prelude
begin

text \<open>
  \<^verbatim>\<open>base64.RawURLEncoding\<close> of the Go standard library, which the recommendation-cache keys
  (\<^verbatim>\<open>nslifecycle/names.go\<close>) and the catalog page cursors (\<^verbatim>\<open>catalog/types.go\<close>) use: the
  URL-safe alphabet, no padding, and a decoder that skips line breaks. The encoder is shown
  to be a right inverse of the decoder, so encoded names never collide.
\<close>

definition b64_alphabet :: string where
  "b64_alphabet = ''ABCDEFGHIJKLMNOPQRSTUVWXYZabcdefghijklmnopqrstuvwxyz0123456789-_''"

definition b64_char :: "nat \<Rightarrow> char" where
  "b64_char n = b64_alphabet ! n"

fun index_of :: "char \<Rightarrow> string \<Rightarrow> nat option" where
  "index_of c [] = None"
| "index_of c (x # xs) = (if c = x then Some 0 else map_option Suc (index_of c xs))"

definition b64_val :: "char \<Rightarrow> nat option" where
  "b64_val c = index_of c b64_alphabet"

fun b64_sextets :: "nat list \<Rightarrow> nat list" where
  "b64_sextets [] = []"
| "b64_sextets [a] = [a div 4, (a mod 4) * 16]"
| "b64_sextets [a, b] = [a div 4, (a mod 4) * 16 + b div 16, (b mod 16) * 4]"
| "b64_sextets (a # b # c # r) =
     [a div 4, (a mod 4) * 16 + b div 16, (b mod 16) * 4 + c div 64, c mod 64] @ b64_sextets r"

fun b64_bytes :: "nat list \<Rightarrow> nat list option" where
  "b64_bytes [] = Some []"
| "b64_bytes [w] = None"
| "b64_bytes [w, x] = Some [w * 4 + x div 16]"
| "b64_bytes [w, x, y] = Some [w * 4 + x div 16, (x mod 16) * 16 + y div 4]"
| "b64_bytes (w # x # y # z # r) =
     map_option (\<lambda>t. [w * 4 + x div 16, (x mod 16) * 16 + y div 4, (y mod 4) * 64 + z] @ t)
       (b64_bytes r)"

definition RawURLEncode :: "string \<Rightarrow> string" where
  "RawURLEncode s = map b64_char (b64_sextets (map of_char s))"

definition RawURLDecode :: "string \<Rightarrow> string option" where
  "RawURLDecode s =
     (case those (map b64_val (filter (\<lambda>c. c \<noteq> CHR 0x0A \<and> c \<noteq> CHR 0x0D) s)) of
        None \<Rightarrow> None
      | Some vs \<Rightarrow> map_option (map char_of) (b64_bytes vs))"

lemma b64_char_props:
  "n < 64 \<Longrightarrow> b64_val (b64_char n) = Some n \<and> b64_char n \<noteq> CHR 0x0A \<and> b64_char n \<noteq> CHR 0x0D"
proof -
  have all: "\<forall>n \<in> set [0..<64]. b64_val (b64_char n) = Some n
               \<and> b64_char n \<noteq> CHR 0x0A \<and> b64_char n \<noteq> CHR 0x0D"
    by code_simp
  assume "n < 64"
  with all show ?thesis by simp
qed

lemma b64_sextets_bound: "\<forall>b \<in> set bs. b < 256 \<Longrightarrow> \<forall>v \<in> set (b64_sextets bs). v < 64"
  by (induction bs rule: b64_sextets.induct) auto

lemma b64_bytes_sextets: "\<forall>b \<in> set bs. b < 256 \<Longrightarrow> b64_bytes (b64_sextets bs) = Some bs"
proof (induction bs rule: b64_sextets.induct)
  case (2 a)
  then show ?case by simp
next
  case (3 a b)
  have "(a mod 4 * 16 + b div 16) div 16 = a mod 4" "(a mod 4 * 16 + b div 16) mod 16 = b div 16"
    using 3 by auto
  then show ?case by simp
next
  case (4 a b c r)
  have "(a mod 4 * 16 + b div 16) div 16 = a mod 4" "(a mod 4 * 16 + b div 16) mod 16 = b div 16"
    "(b mod 16 * 4 + c div 64) div 4 = b mod 16" "(b mod 16 * 4 + c div 64) mod 4 = c div 64"
    using 4 by auto
  with 4 show ?case by simp
qed simp

lemma those_map_b64_val:
  "\<forall>v \<in> set vs. v < 64 \<Longrightarrow> those (map b64_val (map b64_char vs)) = Some vs"
  by (induction vs) (auto simp: b64_char_props)

theorem RawURLDecode_Encode: "RawURLDecode (RawURLEncode s) = Some s"
proof -
  let ?bs = "map of_char s :: nat list"
  let ?vs = "b64_sextets ?bs"
  have b: "\<forall>b \<in> set ?bs. b < 256" by auto
  then have v: "\<forall>v \<in> set ?vs. v < 64" by (rule b64_sextets_bound)
  then have "filter (\<lambda>c. c \<noteq> CHR 0x0A \<and> c \<noteq> CHR 0x0D) (map b64_char ?vs) = map b64_char ?vs"
    using b64_char_props by (auto simp: filter_id_conv)
  with v b have "RawURLDecode (RawURLEncode s) = Some (map char_of ?bs)"
    by (simp add: RawURLDecode_def RawURLEncode_def those_map_b64_val b64_bytes_sextets
        del: map_map)
  then show ?thesis by simp
qed

lemma RawURLEncode_inject [simp]: "RawURLEncode s = RawURLEncode t \<longleftrightarrow> s = t"
  by (metis RawURLDecode_Encode option.inject)

text \<open>The alphabet has no separator and no character special in a Redis pattern.\<close>

lemma RawURLEncode_plain: "list_all (\<lambda>c. c \<notin> set '':*?['' \<and> c \<noteq> CHR 0x5C) (RawURLEncode s)"
proof -
  have all: "\<forall>n \<in> set [0..<64]. b64_char n \<notin> set '':*?['' \<and> b64_char n \<noteq> CHR 0x5C"
    by code_simp
  have "\<forall>v \<in> set (b64_sextets (map of_char s)). v < 64"
    by (rule b64_sextets_bound) auto
  with all show ?thesis by (auto simp: RawURLEncode_def list_all_iff)
qed

end
