(* ===== verification/Lifecycle_Names.thy ===== *)
theory Lifecycle_Names
  imports Base64_Url
begin

text \<open>
  Physical resource names of a namespace generation (\<^verbatim>\<open>internal/core/nslifecycle/names.go\<close>
  and \<^verbatim>\<open>incarnation.go\<close>). Redis keys and Qdrant collections carry the generation from
  generation 2 on; generation 1 keeps the bare names. The lemmas read a generation back from
  a name, which is what keeps the artifacts of two generations of one namespace apart.
\<close>

section \<open>The naming rule\<close>

datatype PhysicalKind =
    KindRecommendationCache
  | KindTrending
  | KindEmbedStream
  | KindSubjects
  | KindObjects
  | KindSubjectsDense
  | KindObjectsDense
  | KindOther string

fun kind_string :: "PhysicalKind \<Rightarrow> string" where
  "kind_string KindRecommendationCache = ''recommendation_cache''"
| "kind_string KindTrending = ''trending''"
| "kind_string KindEmbedStream = ''embed_stream''"
| "kind_string KindSubjects = ''subjects''"
| "kind_string KindObjects = ''objects''"
| "kind_string KindSubjectsDense = ''subjects_dense''"
| "kind_string KindObjectsDense = ''objects_dense''"
| "kind_string (KindOther s) = s"

datatype name_error = NamespaceRequired | GenerationNotPositive | UnknownKind string

definition RedisNamespace :: "namespace \<Rightarrow> int \<Rightarrow> string" where
  "RedisNamespace ns g = (if g < 2 then ns else ns @ '':g'' @ show_int g)"

definition QdrantNamespace :: "namespace \<Rightarrow> int \<Rightarrow> string" where
  "QdrantNamespace ns g = (if g < 2 then ns else ns @ ''_g'' @ show_int g)"

definition PhysicalName :: "PhysicalKind \<Rightarrow> namespace \<Rightarrow> int \<Rightarrow> name_error + string" where
  "PhysicalName kind ns g =
     (if ns = [] then Inl NamespaceRequired
      else if g < 1 then Inl GenerationNotPositive
      else let qualified = RedisNamespace ns g
           in case kind of
                KindRecommendationCache \<Rightarrow> Inr (''rec:v3:'' @ RawURLEncode qualified)
              | KindTrending \<Rightarrow> Inr (''trending:'' @ qualified)
              | KindEmbedStream \<Rightarrow> Inr (''catalog:embed:'' @ qualified)
              | KindSubjects \<Rightarrow> Inr (QdrantNamespace ns g @ ''_'' @ kind_string kind)
              | KindObjects \<Rightarrow> Inr (QdrantNamespace ns g @ ''_'' @ kind_string kind)
              | KindSubjectsDense \<Rightarrow> Inr (QdrantNamespace ns g @ ''_'' @ kind_string kind)
              | KindObjectsDense \<Rightarrow> Inr (QdrantNamespace ns g @ ''_'' @ kind_string kind)
              | KindOther s \<Rightarrow> Inl (UnknownKind s))"

text \<open>
  \<^verbatim>\<open>MustPhysicalName\<close> panics where \<^verbatim>\<open>PhysicalName\<close> fails: \<^term>\<open>None\<close> is the panic.
\<close>

definition MustPhysicalName :: "PhysicalKind \<Rightarrow> namespace \<Rightarrow> int \<Rightarrow> string option" where
  "MustPhysicalName kind ns g =
     (case PhysicalName kind ns g of Inl _ \<Rightarrow> None | Inr name \<Rightarrow> Some name)"

section \<open>Incarnations\<close>

record Incarnation =
  inc_namespace :: namespace
  inc_generation :: int

definition NewIncarnation :: "namespace \<Rightarrow> int \<Rightarrow> Incarnation" where
  "NewIncarnation ns g = \<lparr>inc_namespace = ns, inc_generation = g\<rparr>"

text \<open>The configuration argument is the generation it holds, or nothing when it is nil.\<close>

definition ConfigIncarnation :: "namespace \<Rightarrow> int option \<Rightarrow> Incarnation" where
  "ConfigIncarnation ns cfg_generation =
     (case cfg_generation of
        None \<Rightarrow> \<lparr>inc_namespace = ns, inc_generation = 0\<rparr>
      | Some g \<Rightarrow> \<lparr>inc_namespace = ns, inc_generation = g\<rparr>)"

definition inc_Generation :: "Incarnation \<Rightarrow> int" where
  "inc_Generation i = (if inc_generation i < 1 then 1 else inc_generation i)"

definition inc_PhysicalName :: "Incarnation \<Rightarrow> PhysicalKind \<Rightarrow> name_error + string" where
  "inc_PhysicalName i kind = PhysicalName kind (inc_namespace i) (inc_Generation i)"

definition inc_MustPhysicalName :: "Incarnation \<Rightarrow> PhysicalKind \<Rightarrow> string option" where
  "inc_MustPhysicalName i kind = MustPhysicalName kind (inc_namespace i) (inc_Generation i)"

definition inc_QdrantNamespace :: "Incarnation \<Rightarrow> string" where
  "inc_QdrantNamespace i = QdrantNamespace (inc_namespace i) (inc_Generation i)"

definition inc_RedisNamespace :: "Incarnation \<Rightarrow> string" where
  "inc_RedisNamespace i = RedisNamespace (inc_namespace i) (inc_Generation i)"

section \<open>Reading a generation back\<close>

text \<open>
  \<open>gen_suffixed sep s\<close>: the string ends in \<open>sep\<close>, a \<open>g\<close> and at least one digit, the shape
  that a qualified name has and that a caller's namespace may also have.
\<close>

definition gen_suffixed :: "char \<Rightarrow> string \<Rightarrow> bool" where
  "gen_suffixed sep s \<longleftrightarrow>
     (let body = takeWhile is_digit (rev s); rest = dropWhile is_digit (rev s)
      in body \<noteq> [] \<and> prefix [CHR ''g'', sep] rest)"

lemma gen_suffixed_intro:
  assumes "list_all is_digit ds" and "ds \<noteq> []"
  shows "gen_suffixed sep (x @ sep # CHR ''g'' # ds)"
proof -
  have g: "\<not> is_digit (CHR ''g'')" by (simp add: is_digit_def)
  have "takeWhile is_digit (rev ds @ CHR ''g'' # sep # rev x) = rev ds"
    and "dropWhile is_digit (rev ds @ CHR ''g'' # sep # rev x) = CHR ''g'' # sep # rev x"
    using assms(1) g by (auto simp: takeWhile_append dropWhile_append list_all_iff)
  with assms(2) show ?thesis by (simp add: gen_suffixed_def)
qed

definition qualify :: "char \<Rightarrow> namespace \<Rightarrow> int \<Rightarrow> string" where
  "qualify sep ns g = (if g < 2 then ns else ns @ [sep] @ ''g'' @ show_int g)"

lemma RedisNamespace_qualify: "RedisNamespace = qualify (CHR '':'')"
  by (simp add: fun_eq_iff RedisNamespace_def qualify_def)

lemma QdrantNamespace_qualify: "QdrantNamespace = qualify (CHR ''_'')"
  by (simp add: fun_eq_iff QdrantNamespace_def qualify_def)

lemma qualify_not_Nil: "ns \<noteq> [] \<Longrightarrow> qualify sep ns g \<noteq> []"
  by (simp add: qualify_def)

lemma qualify_inject_ns:
  assumes "1 \<le> g" and "1 \<le> h" and "qualify sep ns g = qualify sep ns h"
  shows "g = h"
  using assms show_int_inject_nonneg [of g h]
  by (auto simp: qualify_def split: if_splits)

lemma qualify_gen_suffixed: "2 \<le> g \<Longrightarrow> gen_suffixed sep (qualify sep ns g)"
  using gen_suffixed_intro [of "show_int g" sep ns] show_int_digits [of g]
  by (simp add: qualify_def)

lemma qualify_inject:
  assumes g: "1 \<le> g" and h: "1 \<le> h"
    and ns: "\<not> gen_suffixed sep ns" and ms: "\<not> gen_suffixed sep ms"
    and eq: "qualify sep ns g = qualify sep ms h"
  shows "ns = ms \<and> g = h"
proof (cases "g < 2 \<or> h < 2")
  case True
  then show ?thesis
    using assms qualify_gen_suffixed [of g sep ns] qualify_gen_suffixed [of h sep ms]
    by (auto simp: qualify_def split: if_splits)
next
  case False
  then have d: "list_all is_digit (show_int g)" "list_all is_digit (show_int h)"
    using show_int_digits [of g] show_int_digits [of h] by auto
  have "(ns @ [sep]) @ CHR ''g'' # show_int g = (ms @ [sep]) @ CHR ''g'' # show_int h"
    using False eq by (simp add: qualify_def)
  then have "ns @ [sep] = ms @ [sep] \<and> show_int g = show_int h"
    by (rule append_sep_inject [OF d, rotated]) (simp add: is_digit_def)
  then show ?thesis using g h show_int_inject_nonneg [of g h] by simp
qed

lemmas RedisNamespace_inject = qualify_inject [where sep = "CHR '':''", folded RedisNamespace_qualify]
lemmas QdrantNamespace_inject = qualify_inject [where sep = "CHR ''_''", folded QdrantNamespace_qualify]

section \<open>Kinds of one store\<close>

fun qdrant_kind :: "PhysicalKind \<Rightarrow> bool" where
  "qdrant_kind KindSubjects = True"
| "qdrant_kind KindObjects = True"
| "qdrant_kind KindSubjectsDense = True"
| "qdrant_kind KindObjectsDense = True"
| "qdrant_kind _ = False"

fun redis_kind :: "PhysicalKind \<Rightarrow> bool" where
  "redis_kind KindRecommendationCache = True"
| "redis_kind KindTrending = True"
| "redis_kind KindEmbedStream = True"
| "redis_kind _ = False"

lemma PhysicalName_qdrant:
  "qdrant_kind k \<Longrightarrow> PhysicalName k ns g = Inr n \<Longrightarrow>
     ns \<noteq> [] \<and> 1 \<le> g \<and> n = QdrantNamespace ns g @ ''_'' @ kind_string k"
  by (cases k) (auto simp: PhysicalName_def Let_def split: if_splits)

lemma PhysicalName_guards:
  "PhysicalName k ns g = Inr n \<Longrightarrow> ns \<noteq> [] \<and> 1 \<le> g"
  by (auto simp: PhysicalName_def split: if_splits)

text \<open>
  The collection suffix names the kind: no suffix of one kind ends another.
\<close>

lemma kind_suffix_inject:
  assumes "qdrant_kind k" and "qdrant_kind l"
    and "x @ ''_'' @ kind_string k = y @ ''_'' @ kind_string l"
  shows "k = l \<and> x = y"
proof -
  have at: "rev (x @ ''_'' @ kind_string k) ! i = rev (y @ ''_'' @ kind_string l) ! i" for i
    using assms(3) by simp
  have "k = l"
    using assms(1,2) at [of 0] at [of 6] at [of 12] by (cases k; cases l) simp_all
  with assms(3) show ?thesis by simp
qed

lemma same_name:
  assumes "PhysicalName k ns g = Inr n" and "PhysicalName l ms h = Inr n"
    and "qdrant_kind k \<and> qdrant_kind l \<or> redis_kind k \<and> redis_kind l"
  shows "k = l \<and> 1 \<le> g \<and> 1 \<le> h \<and>
    (QdrantNamespace ns g = QdrantNamespace ms h \<or> RedisNamespace ns g = RedisNamespace ms h)"
proof -
  have pos: "1 \<le> g" "1 \<le> h"
    using assms(1,2) by (auto dest: PhysicalName_guards)
  from assms(3) show ?thesis
  proof
    assume q: "qdrant_kind k \<and> qdrant_kind l"
    then have "QdrantNamespace ns g @ ''_'' @ kind_string k
             = QdrantNamespace ms h @ ''_'' @ kind_string l"
      using assms(1,2) by (metis PhysicalName_qdrant)
    then show ?thesis using q pos kind_suffix_inject by blast
  next
    assume "redis_kind k \<and> redis_kind l"
    with pos show ?thesis
      using assms(1,2) by (cases k; cases l) (auto simp: PhysicalName_def Let_def split: if_splits)
  qed
qed

lemma suffix_twin:
  "qdrant_kind k \<Longrightarrow> ns \<noteq> [] \<Longrightarrow> 2 \<le> g \<Longrightarrow> PhysicalName k ns g = PhysicalName k (QdrantNamespace ns g) 1"
  by (cases k) (auto simp: PhysicalName_def QdrantNamespace_def Let_def)

definition plain_namespace :: "namespace \<Rightarrow> bool" where
  "plain_namespace ns \<longleftrightarrow> \<not> gen_suffixed (CHR ''_'') ns \<and> \<not> gen_suffixed (CHR '':'') ns"

lemma PhysicalName_inject:
  assumes "PhysicalName k ns g = Inr n" and "PhysicalName l ms h = Inr n"
    and "qdrant_kind k \<and> qdrant_kind l \<or> redis_kind k \<and> redis_kind l"
    and "plain_namespace ns" and "plain_namespace ms"
  shows "k = l \<and> ns = ms \<and> g = h"
  using same_name [OF assms(1-3)] assms(4,5) QdrantNamespace_inject [of g h ns ms]
    RedisNamespace_inject [of g h ns ms] by (auto simp: plain_namespace_def)

section \<open>Properties\<close>

text \<open>C1: Two resources of one namespace that live in the same store (Redis or Qdrant) have the
  same physical name only when they are the same kind at the same generation, so a delayed
  writer of an old generation can never address an artifact of the current one.\<close>

theorem generations_never_share_a_name:
  assumes "PhysicalName k ns g = Inr n" and "PhysicalName l ns h = Inr n"
    and "qdrant_kind k \<and> qdrant_kind l \<or> redis_kind k \<and> redis_kind l"
  shows "k = l \<and> g = h"
  using same_name [OF assms] qualify_inject_ns [of g h]
  by (auto simp: QdrantNamespace_qualify RedisNamespace_qualify)

theorem generations_never_share_a_name_witness:
  "PhysicalName KindTrending ''shop'' 12 = Inr ''trending:shop:g12'' \<and>
   KindTrending = KindTrending \<and> (12 :: int) = 12"
  using generations_never_share_a_name [of KindTrending "''shop''" 12 "''trending:shop:g12''" KindTrending 12]
  by (simp add: PhysicalName_def RedisNamespace_def show_int_def show_nat.simps)

text \<open>Among namespaces whose own name does not end in a generation suffix, the physical name
  determines kind, namespace and generation: no two tenants share a collection or key.\<close>

lemma physical_names_injective:
  assumes "PhysicalName k ns g = Inr n" and "PhysicalName l ms h = Inr n"
    and "qdrant_kind k \<and> qdrant_kind l \<or> redis_kind k \<and> redis_kind l"
    and "plain_namespace ns" and "plain_namespace ms"
  shows "k = l \<and> ns = ms \<and> g = h"
  by (rule PhysicalName_inject [OF assms])

text \<open>The restriction is needed. Nothing in the source constrains namespace names, and for every
  generation from 2 on the collections of a namespace are exactly the generation-1 collections of
  the namespace whose name carries the suffix: two tenants share one store.\<close>

lemma generation_suffix_collides:
  assumes "qdrant_kind k" and "ns \<noteq> []" and "2 \<le> g"
  shows "PhysicalName k ns g = PhysicalName k (QdrantNamespace ns g) 1
         \<and> QdrantNamespace ns g \<noteq> ns \<and> is_ok (PhysicalName k ns g)"
  using suffix_twin [OF assms] assms
  by (cases k) (auto simp: PhysicalName_def QdrantNamespace_def Let_def)

end
