(* ===== verification/Sql_Table.thy ===== *)
theory Sql_Table
  imports Codohue_Prelude
begin

text \<open>
  The SQL the repositories issue, read on tables that are lists of rows. A statement's
  \<^verbatim>\<open>WHERE\<close> clause is a predicate on rows and its \<^verbatim>\<open>SET\<close> clause a function on rows;
  \<^verbatim>\<open>RowsAffected\<close> counts the rows that satisfied the predicate. A table is keyed when its
  primary key has no duplicates; the lemmas say what a lookup sees after each statement.
\<close>

definition lookup_row :: "('r \<Rightarrow> 'k) \<Rightarrow> 'r list \<Rightarrow> 'k \<Rightarrow> 'r option" where
  "lookup_row key t k = find (\<lambda>r. key r = k) t"

definition update_where :: "('r \<Rightarrow> bool) \<Rightarrow> ('r \<Rightarrow> 'r) \<Rightarrow> 'r list \<Rightarrow> 'r list" where
  "update_where P f t = map (\<lambda>r. if P r then f r else r) t"

definition delete_where :: "('r \<Rightarrow> bool) \<Rightarrow> 'r list \<Rightarrow> 'r list" where
  "delete_where P t = filter (\<lambda>r. \<not> P r) t"

definition rows_affected :: "('r \<Rightarrow> bool) \<Rightarrow> 'r list \<Rightarrow> nat" where
  "rows_affected P t = length (filter P t)"

definition keyed :: "('r \<Rightarrow> 'k) \<Rightarrow> 'r list \<Rightarrow> bool" where
  "keyed key t = distinct (map key t)"

lemma lookup_row_Nil [simp]: "lookup_row key [] k = None"
  by (simp add: lookup_row_def)

lemma lookup_row_Cons [simp]:
  "lookup_row key (r # t) k = (if key r = k then Some r else lookup_row key t k)"
  by (simp add: lookup_row_def)

lemma lookup_row_SomeD: "lookup_row key t k = Some r \<Longrightarrow> r \<in> set t \<and> key r = k"
  by (induction t) (auto split: if_splits)

lemma lookup_row_key: "lookup_row key t k = Some r \<Longrightarrow> key r = k"
  by (rule lookup_row_SomeD [THEN conjunct2])

lemma lookup_row_None_iff: "lookup_row key t k = None \<longleftrightarrow> k \<notin> key ` set t"
  by (induction t) auto

lemma lookup_row_mem: "keyed key t \<Longrightarrow> r \<in> set t \<Longrightarrow> lookup_row key t (key r) = Some r"
  by (induction t) (auto simp: keyed_def)

lemma lookup_row_update [simp]:
  assumes "\<And>r. key (f r) = key r"
  shows "lookup_row key (update_where P f t) k
         = map_option (\<lambda>r. if P r then f r else r) (lookup_row key t k)"
  using assms by (induction t) (auto simp: update_where_def)

lemma lookup_row_update_key:
  assumes "\<And>r. key (f r) = key r"
  shows "lookup_row key (update_where (\<lambda>x. key x = k) f t) k'
         = (if k' = k then map_option f (lookup_row key t k) else lookup_row key t k')"
  using assms by (induction t) (auto simp: update_where_def)

lemma lookup_row_snoc:
  "lookup_row key (t @ [r]) k
   = (case lookup_row key t k of Some x \<Rightarrow> Some x | None \<Rightarrow> if key r = k then Some r else None)"
  by (induction t) auto

lemma lookup_row_delete:
  assumes "keyed key t"
  shows "lookup_row key (delete_where P t) k
         = (case lookup_row key t k of Some r \<Rightarrow> if P r then None else Some r | None \<Rightarrow> None)"
  using assms
proof (induction t)
  case (Cons r t)
  then have "lookup_row key t (key r) = None"
    by (simp add: keyed_def lookup_row_None_iff)
  with Cons show ?case by (auto simp: delete_where_def keyed_def)
qed (simp add: delete_where_def)

lemma keyed_update [simp]:
  assumes "\<And>r. key (f r) = key r"
  shows "keyed key (update_where P f t) = keyed key t"
proof -
  have "map key (update_where P f t) = map key t"
    using assms by (simp add: update_where_def)
  then show ?thesis by (simp add: keyed_def)
qed

lemma keyed_snoc: "keyed key t \<Longrightarrow> lookup_row key t (key r) = None \<Longrightarrow> keyed key (t @ [r])"
  by (auto simp: keyed_def lookup_row_None_iff)

lemma keyed_delete [simp]: "keyed key t \<Longrightarrow> keyed key (delete_where P t)"
  by (simp add: keyed_def delete_where_def distinct_map_filter)

lemma rows_affected_key:
  assumes "keyed key t"
  shows "rows_affected (\<lambda>r. key r = k \<and> Q r) t
         = (case lookup_row key t k of Some r \<Rightarrow> if Q r then 1 else 0 | None \<Rightarrow> 0)"
  using assms
proof (induction t)
  case (Cons r t)
  then have "lookup_row key t (key r) = None"
    by (simp add: keyed_def lookup_row_None_iff)
  with Cons show ?case by (auto simp: rows_affected_def keyed_def)
qed (simp add: rows_affected_def)

lemma find_key:
  assumes "keyed key t"
  shows "find (\<lambda>r. key r = k \<and> Q r) t
         = (case lookup_row key t k of Some r \<Rightarrow> if Q r then Some r else None | None \<Rightarrow> None)"
  using assms
proof (induction t)
  case (Cons r t)
  then have "lookup_row key t (key r) = None"
    by (simp add: keyed_def lookup_row_None_iff)
  with Cons show ?case by (auto simp: keyed_def)
qed simp

lemma list_all_update:
  "list_all Q t \<Longrightarrow> (\<And>r. r \<in> set t \<Longrightarrow> Q r \<Longrightarrow> P r \<Longrightarrow> Q (f r)) \<Longrightarrow> list_all Q (update_where P f t)"
  by (auto simp: list_all_iff update_where_def)

lemma update_where_mem:
  "r' \<in> set (update_where P f t) \<longleftrightarrow> (\<exists>r\<in>set t. r' = (if P r then f r else r))"
  by (auto simp: update_where_def)

end
