(* ===== verification/Lifecycle_Store.thy ===== *)
theory Lifecycle_Store
  imports Lifecycle_Names Sql_Table
begin

text \<open>
  The durable lifecycle ledger (\<^verbatim>\<open>internal/core/nslifecycle/types.go\<close> and
  \<^verbatim>\<open>repository.go\<close>): the tables \<^verbatim>\<open>namespace_lifecycles\<close> and \<^verbatim>\<open>system_lifecycle\<close> of
  migration 024, one definition per \<^verbatim>\<open>Store\<close> method with its SQL statement. Every method
  takes the failure its statement may return (a failed statement has no effect) and the
  database clock. The second half is what the ledger promises: a name walks through
  active, deleting and deleted at one generation and is recreated only at the next, so that
  a generation once left is never active again.
\<close>

section \<open>Tables and values\<close>

datatype NamespaceState = StateActive | StateDeleting | StateDeleted

datatype SystemState = SystemActive | SystemResetting

record lifecycle_row =
  row_namespace :: namespace
  row_generation :: int
  row_state :: NamespaceState
  row_activated_at :: time
  row_legacy_messages_allowed :: bool
  row_last_error :: "string option"
  row_updated_at :: time

record system_row =
  sys_state :: SystemState
  sys_legacy_envelopes_disabled_at :: "time option"
  sys_legacy_adoption_evidence :: "string option"
  sys_last_error :: "string option"
  sys_updated_at :: time

record ledger =
  namespace_lifecycles :: "lifecycle_row list"
  system_lifecycle :: system_row

record NamespaceLifecycle =
  lc_Namespace :: namespace
  lc_Generation :: int
  lc_State :: NamespaceState
  lc_ActivatedAt :: time
  lc_LegacyMessagesAllowed :: bool
  lc_LastError :: string
  lc_UpdatedAt :: time

record SystemLifecycle =
  sl_State :: SystemState
  sl_LegacyEnvelopesDisabledAt :: "time option"
  sl_LegacyAdoptionEvidence :: string
  sl_LastError :: string
  sl_UpdatedAt :: time

record CleanupCandidate =
  cand_Namespace :: namespace
  cand_Generation :: int

text \<open>The state migration 024 creates, with a generation 1 row per configured namespace.\<close>

definition seed_row :: "namespace \<times> time \<times> time \<Rightarrow> lifecycle_row" where
  "seed_row = (\<lambda>(ns, created, updated).
     \<lparr>row_namespace = ns, row_generation = 1, row_state = StateActive, row_activated_at = created,
      row_legacy_messages_allowed = True, row_last_error = None, row_updated_at = updated\<rparr>)"

definition migrate_024 :: "time \<Rightarrow> (namespace \<times> time \<times> time) list \<Rightarrow> ledger" where
  "migrate_024 now configs =
     \<lparr>namespace_lifecycles = map seed_row configs,
      system_lifecycle = \<lparr>sys_state = SystemActive, sys_legacy_envelopes_disabled_at = None,
        sys_legacy_adoption_evidence = None, sys_last_error = None, sys_updated_at = now\<rparr>\<rparr>"

section \<open>The store's methods\<close>

definition null_string :: "string option \<Rightarrow> string" where
  "null_string v = (case v of None \<Rightarrow> [] | Some s \<Rightarrow> s)"

definition scanNamespace :: "lifecycle_row option \<Rightarrow> go_error + NamespaceLifecycle" where
  "scanNamespace row =
     (case row of
        None \<Rightarrow> Inl ErrNamespaceNotFound
      | Some r \<Rightarrow> Inr \<lparr>lc_Namespace = row_namespace r, lc_Generation = row_generation r,
          lc_State = row_state r, lc_ActivatedAt = row_activated_at r,
          lc_LegacyMessagesAllowed = row_legacy_messages_allowed r,
          lc_LastError = null_string (row_last_error r), lc_UpdatedAt = row_updated_at r\<rparr>)"

abbreviation row_of :: "ledger \<Rightarrow> namespace \<Rightarrow> lifecycle_row option" where
  "row_of L ns \<equiv> lookup_row row_namespace (namespace_lifecycles L) ns"

text \<open>The upsert of \<^verbatim>\<open>Activate\<close>: the row a conflict leaves, and the row an insert adds.\<close>

definition activate_conflict :: "time \<Rightarrow> lifecycle_row \<Rightarrow> lifecycle_row" where
  "activate_conflict now r =
     (let del = (row_state r = StateDeleted)
      in r\<lparr>row_generation := (if del then row_generation r + 1 else row_generation r),
           row_state := StateActive,
           row_activated_at := (if del then now else row_activated_at r),
           row_legacy_messages_allowed := (if del then False else row_legacy_messages_allowed r),
           row_last_error := (if del then None else row_last_error r),
           row_updated_at := (if del then now else row_updated_at r)\<rparr>)"

definition activate_insert :: "time \<Rightarrow> system_row \<Rightarrow> namespace \<Rightarrow> lifecycle_row" where
  "activate_insert now sys ns =
     \<lparr>row_namespace = ns, row_generation = 1, row_state = StateActive, row_activated_at = now,
      row_legacy_messages_allowed = (sys_legacy_envelopes_disabled_at sys = None),
      row_last_error = None, row_updated_at = now\<rparr>"

definition Activate ::
  "go_error option \<Rightarrow> time \<Rightarrow> namespace \<Rightarrow> ledger \<Rightarrow> (go_error + NamespaceLifecycle) \<times> ledger" where
  "Activate fault now ns L =
     (case fault of
        Some e \<Rightarrow> (Inl e, L)
      | None \<Rightarrow>
          (case row_of L ns of
             None \<Rightarrow>
               let r = activate_insert now (system_lifecycle L) ns
               in (scanNamespace (Some r),
                   L\<lparr>namespace_lifecycles := namespace_lifecycles L @ [r]\<rparr>)
           | Some r \<Rightarrow>
               if row_state r = StateActive \<or> row_state r = StateDeleted
               then (scanNamespace (Some (activate_conflict now r)),
                     L\<lparr>namespace_lifecycles := update_where (\<lambda>x. row_namespace x = ns)
                         (activate_conflict now) (namespace_lifecycles L)\<rparr>)
               else (case scanNamespace None of
                       Inl ErrNamespaceNotFound \<Rightarrow> (Inl ErrNamespaceNotActive, L)
                     | other \<Rightarrow> (other, L))))"

definition GetNamespace :: "go_error option \<Rightarrow> namespace \<Rightarrow> ledger \<Rightarrow> go_error + NamespaceLifecycle" where
  "GetNamespace fault ns L =
     (case fault of Some e \<Rightarrow> Inl e | None \<Rightarrow> scanNamespace (row_of L ns))"

definition StartDelete ::
  "go_error option \<Rightarrow> time \<Rightarrow> namespace \<Rightarrow> ledger \<Rightarrow> (go_error + NamespaceLifecycle) \<times> ledger" where
  "StartDelete fault now ns L =
     (case fault of
        Some e \<Rightarrow> (Inl e, L)
      | None \<Rightarrow>
          let P = (\<lambda>r. row_namespace r = ns
                       \<and> (row_state r = StateActive \<or> row_state r = StateDeleting));
              f = (\<lambda>r. r\<lparr>row_state := StateDeleting, row_last_error := None, row_updated_at := now\<rparr>);
              hit = find P (namespace_lifecycles L)
          in (scanNamespace (map_option f hit),
              L\<lparr>namespace_lifecycles := update_where P f (namespace_lifecycles L)\<rparr>))"

definition CompleteDelete ::
  "go_error option \<Rightarrow> time \<Rightarrow> namespace \<Rightarrow> int \<Rightarrow> ledger \<Rightarrow> (go_error + unit) \<times> ledger" where
  "CompleteDelete fault now ns g L =
     (case fault of
        Some e \<Rightarrow> (Inl e, L)
      | None \<Rightarrow>
          let P = (\<lambda>r. row_namespace r = ns
                       \<and> (row_generation r = g \<and> row_state r = StateDeleting));
              f = (\<lambda>r. r\<lparr>row_state := StateDeleted, row_last_error := None, row_updated_at := now\<rparr>);
              n = rows_affected P (namespace_lifecycles L);
              L' = L\<lparr>namespace_lifecycles := update_where P f (namespace_lifecycles L)\<rparr>
          in if n \<noteq> 1 then (Inl ErrNamespaceNotActive, L') else (Inr (), L'))"

definition RecordNamespaceError ::
  "go_error option \<Rightarrow> time \<Rightarrow> namespace \<Rightarrow> int \<Rightarrow> string \<Rightarrow> ledger \<Rightarrow> (go_error + unit) \<times> ledger" where
  "RecordNamespaceError fault now ns g msg L =
     (case fault of
        Some e \<Rightarrow> (Inl e, L)
      | None \<Rightarrow>
          (Inr (), L\<lparr>namespace_lifecycles := update_where
             (\<lambda>r. row_namespace r = ns \<and> (row_generation r = g \<and> row_state r = StateDeleting))
             (\<lambda>r. r\<lparr>row_last_error := Some msg, row_updated_at := now\<rparr>)
             (namespace_lifecycles L)\<rparr>))"

definition GetSystem :: "go_error option \<Rightarrow> ledger \<Rightarrow> go_error + SystemLifecycle" where
  "GetSystem fault L =
     (case fault of
        Some e \<Rightarrow> Inl e
      | None \<Rightarrow>
          let s = system_lifecycle L
          in Inr \<lparr>sl_State = sys_state s,
               sl_LegacyEnvelopesDisabledAt = sys_legacy_envelopes_disabled_at s,
               sl_LegacyAdoptionEvidence = null_string (sys_legacy_adoption_evidence s),
               sl_LastError = null_string (sys_last_error s), sl_UpdatedAt = sys_updated_at s\<rparr>)"

definition StartReset :: "go_error option \<Rightarrow> time \<Rightarrow> ledger \<Rightarrow> (go_error + unit) \<times> ledger" where
  "StartReset fault now L =
     (case fault of
        Some e \<Rightarrow> (Inl e, L)
      | None \<Rightarrow>
          (Inr (), L\<lparr>system_lifecycle := (system_lifecycle L)\<lparr>sys_state := SystemResetting,
             sys_last_error := None, sys_updated_at := now\<rparr>\<rparr>))"

definition CompleteReset :: "go_error option \<Rightarrow> time \<Rightarrow> ledger \<Rightarrow> (go_error + unit) \<times> ledger" where
  "CompleteReset fault now L =
     (case fault of
        Some e \<Rightarrow> (Inl e, L)
      | None \<Rightarrow>
          (Inr (), if sys_state (system_lifecycle L) = SystemResetting
                   then L\<lparr>system_lifecycle := (system_lifecycle L)\<lparr>sys_state := SystemActive,
                          sys_last_error := None, sys_updated_at := now\<rparr>\<rparr>
                   else L))"

definition RecordResetError ::
  "go_error option \<Rightarrow> time \<Rightarrow> string \<Rightarrow> ledger \<Rightarrow> (go_error + unit) \<times> ledger" where
  "RecordResetError fault now msg L =
     (case fault of
        Some e \<Rightarrow> (Inl e, L)
      | None \<Rightarrow>
          (Inr (), if sys_state (system_lifecycle L) = SystemResetting
                   then L\<lparr>system_lifecycle := (system_lifecycle L)\<lparr>sys_last_error := Some msg,
                          sys_updated_at := now\<rparr>\<rparr>
                   else L))"

text \<open>
  The transaction of \<^verbatim>\<open>DisableLegacy\<close>: a failure of either statement rolls both back.
\<close>

definition DisableLegacy ::
  "go_error option \<Rightarrow> time \<Rightarrow> string \<Rightarrow> time \<Rightarrow> ledger \<Rightarrow> (go_error + bool) \<times> ledger" where
  "DisableLegacy fault now evidence at L =
     (if evidence = [] then (Inl ErrAdoptionEvidence, L)
      else case fault of
             Some e \<Rightarrow> (Inl e, L)
           | None \<Rightarrow>
               let s = system_lifecycle L
               in if sys_legacy_envelopes_disabled_at s \<noteq> None then (Inr False, L)
                  else (Inr True,
                    L\<lparr>system_lifecycle := s\<lparr>sys_legacy_envelopes_disabled_at := Some at,
                        sys_legacy_adoption_evidence := Some evidence, sys_updated_at := now\<rparr>,
                      namespace_lifecycles := update_where row_legacy_messages_allowed
                        (\<lambda>r. r\<lparr>row_legacy_messages_allowed := False, row_updated_at := now\<rparr>)
                        (namespace_lifecycles L)\<rparr>))"

text \<open>
  The lateral join of \<^verbatim>\<open>ListCleanupCandidates\<close>: every generation of a name below its
  current one, and the current one too when the name is deleted.
\<close>

definition row_candidates :: "lifecycle_row \<Rightarrow> CleanupCandidate list" where
  "row_candidates r =
     map (\<lambda>g. \<lparr>cand_Namespace = row_namespace r, cand_Generation = g\<rparr>)
       [1..(if row_state r = StateDeleted then row_generation r else row_generation r - 1)]"

definition cand_key :: "CleanupCandidate \<Rightarrow> namespace \<times> int" where
  "cand_key c = (cand_Namespace c, cand_Generation c)"

definition cleanup_rows :: "ledger \<Rightarrow> CleanupCandidate list" where
  "cleanup_rows L =
     concat (map row_candidates (sort_key row_namespace (namespace_lifecycles L)))"

definition ListCleanupCandidates ::
  "go_error option \<Rightarrow> CleanupCandidate \<Rightarrow> int \<Rightarrow> ledger \<Rightarrow> go_error + CleanupCandidate list" where
  "ListCleanupCandidates fault after limit L =
     (if limit \<le> 0 then Inr []
      else case fault of
             Some e \<Rightarrow> Inl e
           | None \<Rightarrow> Inr (take (nat limit)
               (filter (\<lambda>c. cand_key after < cand_key c) (cleanup_rows L))))"

definition ListNonDeleted :: "go_error option \<Rightarrow> ledger \<Rightarrow> go_error + NamespaceLifecycle list" where
  "ListNonDeleted fault L =
     (case fault of
        Some e \<Rightarrow> Inl e
      | None \<Rightarrow>
          Inr (map (\<lambda>r. projr (scanNamespace (Some r)))
            (filter (\<lambda>r. row_state r \<noteq> StateDeleted)
              (sort_key row_namespace (namespace_lifecycles L)))))"

section \<open>The phase of a name\<close>

text \<open>
  The abstract ledger: a name is absent or stands in one phase at one generation. The
  specification of each method is a function on that phase, the identity on every other name.
\<close>

datatype name_phase = Absent | ActiveAt int | DeletingAt int | DeletedAt int

definition phase :: "ledger \<Rightarrow> namespace \<Rightarrow> name_phase" where
  "phase L ns =
     (case row_of L ns of
        None \<Rightarrow> Absent
      | Some r \<Rightarrow> (case row_state r of
                      StateActive \<Rightarrow> ActiveAt (row_generation r)
                    | StateDeleting \<Rightarrow> DeletingAt (row_generation r)
                    | StateDeleted \<Rightarrow> DeletedAt (row_generation r)))"

fun spec_Activate :: "name_phase \<Rightarrow> name_phase" where
  "spec_Activate Absent = ActiveAt 1"
| "spec_Activate (DeletedAt g) = ActiveAt (g + 1)"
| "spec_Activate p = p"

fun spec_StartDelete :: "name_phase \<Rightarrow> name_phase" where
  "spec_StartDelete (ActiveAt g) = DeletingAt g"
| "spec_StartDelete p = p"

fun spec_CompleteDelete :: "int \<Rightarrow> name_phase \<Rightarrow> name_phase" where
  "spec_CompleteDelete g (DeletingAt h) = (if g = h then DeletedAt h else DeletingAt h)"
| "spec_CompleteDelete g p = p"

text \<open>One call of a mutating method with the failure and the clock it meets.\<close>

datatype store_call =
    CallActivate "go_error option" time namespace
  | CallStartDelete "go_error option" time namespace
  | CallCompleteDelete "go_error option" time namespace int
  | CallRecordNamespaceError "go_error option" time namespace int string
  | CallStartReset "go_error option" time
  | CallCompleteReset "go_error option" time
  | CallRecordResetError "go_error option" time string
  | CallDisableLegacy "go_error option" time string time

fun apply_call :: "store_call \<Rightarrow> ledger \<Rightarrow> ledger" where
  "apply_call (CallActivate f now ns) L = snd (Activate f now ns L)"
| "apply_call (CallStartDelete f now ns) L = snd (StartDelete f now ns L)"
| "apply_call (CallCompleteDelete f now ns g) L = snd (CompleteDelete f now ns g L)"
| "apply_call (CallRecordNamespaceError f now ns g m) L = snd (RecordNamespaceError f now ns g m L)"
| "apply_call (CallStartReset f now) L = snd (StartReset f now L)"
| "apply_call (CallCompleteReset f now) L = snd (CompleteReset f now L)"
| "apply_call (CallRecordResetError f now m) L = snd (RecordResetError f now m L)"
| "apply_call (CallDisableLegacy f now ev at) L = snd (DisableLegacy f now ev at L)"

fun spec_call :: "store_call \<Rightarrow> namespace \<Rightarrow> name_phase \<Rightarrow> name_phase" where
  "spec_call (CallActivate None now ms) ns p = (if ms = ns then spec_Activate p else p)"
| "spec_call (CallStartDelete None now ms) ns p = (if ms = ns then spec_StartDelete p else p)"
| "spec_call (CallCompleteDelete None now ms g) ns p = (if ms = ns then spec_CompleteDelete g p else p)"
| "spec_call c ns p = p"

text \<open>The well-formedness the migration's constraints and the methods maintain.\<close>

definition row_ok :: "bool \<Rightarrow> lifecycle_row \<Rightarrow> bool" where
  "row_ok gate_open r \<longleftrightarrow>
     1 \<le> row_generation r \<and> (row_legacy_messages_allowed r \<longrightarrow> row_generation r = 1 \<and> gate_open)"

definition gate_open :: "ledger \<Rightarrow> bool" where
  "gate_open L \<longleftrightarrow> sys_legacy_envelopes_disabled_at (system_lifecycle L) = None"

definition ledger_wf :: "ledger \<Rightarrow> bool" where
  "ledger_wf L \<longleftrightarrow>
     keyed row_namespace (namespace_lifecycles L)
     \<and> list_all (row_ok (gate_open L)) (namespace_lifecycles L)
     \<and> (gate_open L \<longleftrightarrow> sys_legacy_adoption_evidence (system_lifecycle L) = None)"

definition superseded :: "ledger \<Rightarrow> CleanupCandidate \<Rightarrow> bool" where
  "superseded L c \<longleftrightarrow>
     1 \<le> cand_Generation c \<and>
     (case phase L (cand_Namespace c) of
        Absent \<Rightarrow> False
      | ActiveAt h \<Rightarrow> cand_Generation c < h
      | DeletingAt h \<Rightarrow> cand_Generation c < h
      | DeletedAt h \<Rightarrow> cand_Generation c \<le> h)"

text \<open>
  The interface other components rely on: however the store is driven, a name moves only
  along the four edges of the phase machine. \<open>phase_rank\<close> orders the phases, so a
  generation that was left is behind every later phase.
\<close>

fun phase_edge :: "name_phase \<Rightarrow> name_phase \<Rightarrow> bool" where
  "phase_edge Absent (ActiveAt h) = (h = 1)"
| "phase_edge (ActiveAt g) (DeletingAt h) = (h = g)"
| "phase_edge (DeletingAt g) (DeletedAt h) = (h = g)"
| "phase_edge (DeletedAt g) (ActiveAt h) = (h = g + 1)"
| "phase_edge _ _ = False"

fun phase_rank :: "name_phase \<Rightarrow> int" where
  "phase_rank Absent = 0"
| "phase_rank (ActiveAt g) = 3 * g"
| "phase_rank (DeletingAt g) = 3 * g + 1"
| "phase_rank (DeletedAt g) = 3 * g + 2"

lemma phase_edge_rank: "phase_edge p q \<Longrightarrow> phase_rank p < phase_rank q"
  by (cases "(p, q)" rule: phase_edge.cases) auto

locale generation_store =
  fixes phase_of :: "'s \<Rightarrow> namespace \<Rightarrow> name_phase"
    and step :: "'c \<Rightarrow> 's \<Rightarrow> 's"
  assumes step_edge: "phase_of (step c s) ns \<noteq> phase_of s ns
                      \<Longrightarrow> phase_edge (phase_of s ns) (phase_of (step c s) ns)"
begin

lemma run_rank:
  "phase_of (fold step cs s) ns = phase_of s ns
   \<or> phase_rank (phase_of s ns) < phase_rank (phase_of (fold step cs s) ns)"
proof (induction cs arbitrary: s)
  case (Cons c cs)
  have "phase_of (step c s) ns = phase_of s ns
        \<or> phase_rank (phase_of s ns) < phase_rank (phase_of (step c s) ns)"
    using step_edge phase_edge_rank by blast
  with Cons [of "step c s"] show ?case by auto
qed simp

lemma run_rank_mono: "phase_rank (phase_of s ns) \<le> phase_rank (phase_of (fold step cs s) ns)"
  using run_rank [of cs s ns] by auto

lemma run_present: "phase_of s ns \<noteq> Absent \<Longrightarrow> phase_of (fold step cs s) ns \<noteq> Absent"
proof (induction cs arbitrary: s)
  case (Cons c cs)
  have "phase_of (step c s) ns \<noteq> Absent"
    using step_edge [of c s ns] Cons.prems by (cases "phase_of s ns") auto
  with Cons.IH show ?case by simp
qed simp

lemma left_phase_stays_left:
  assumes "phase_of (fold step cs s) ns \<noteq> phase_of s ns"
  shows "phase_of (fold step (cs @ ds) s) ns \<noteq> phase_of s ns"
proof -
  have "phase_rank (phase_of s ns) < phase_rank (phase_of (fold step cs s) ns)"
    using assms run_rank [of cs s ns] by blast
  also have "\<dots> \<le> phase_rank (phase_of (fold step (cs @ ds) s) ns)"
    using run_rank_mono [of "fold step cs s" ns ds] by simp
  finally show ?thesis by auto
qed

end

section \<open>What each method does\<close>

lemmas store_defs = Activate_def StartDelete_def CompleteDelete_def RecordNamespaceError_def
  StartReset_def CompleteReset_def RecordResetError_def DisableLegacy_def

lemma activate_conflict_namespace [simp]: "row_namespace (activate_conflict now r) = row_namespace r"
  by (simp add: activate_conflict_def Let_def)

lemma apply_call_phase: "phase (apply_call c L) ns = spec_call c ns (phase L ns)"
proof (cases c)
  case (CallActivate f now ms)
  then show ?thesis
    by (cases f) (auto simp: Activate_def phase_def lookup_row_snoc activate_insert_def
        activate_conflict_def scanNamespace_def Let_def dest: lookup_row_key
        split: option.splits NamespaceState.splits if_splits)
next
  case (CallStartDelete f now ms)
  then show ?thesis
    by (cases f) (auto simp: StartDelete_def phase_def Let_def dest: lookup_row_key
        split: option.splits NamespaceState.splits)
next
  case (CallCompleteDelete f now ms g)
  then show ?thesis
    by (cases f) (auto simp: CompleteDelete_def phase_def Let_def dest: lookup_row_key
        split: option.splits NamespaceState.splits)
next
  case (CallRecordNamespaceError f now ms g m)
  then show ?thesis
    by (cases f) (auto simp: RecordNamespaceError_def phase_def split: option.splits NamespaceState.splits)
next
  case (CallDisableLegacy f now ev at)
  then show ?thesis
    by (cases f) (auto simp: DisableLegacy_def phase_def Let_def split: option.splits NamespaceState.splits)
qed (auto simp: store_defs phase_def split: option.splits)

lemma spec_call_edge: "spec_call c ns p \<noteq> p \<Longrightarrow> phase_edge p (spec_call c ns p)"
  by (cases "(c, ns, p)" rule: spec_call.cases; cases p) (auto split: if_splits)

interpretation gens: generation_store phase apply_call
  by unfold_locales (metis apply_call_phase spec_call_edge)

lemma apply_call_keyed:
  "keyed row_namespace (namespace_lifecycles L)
   \<Longrightarrow> keyed row_namespace (namespace_lifecycles (apply_call c L))"
  by (cases c) (auto simp: store_defs Let_def scanNamespace_def activate_insert_def keyed_snoc
      split: option.splits)

lemma apply_call_gate: "gate_open (apply_call c L) \<Longrightarrow> gate_open L"
  by (cases c) (auto simp: store_defs gate_open_def Let_def scanNamespace_def
      split: option.splits if_splits)

lemma row_ok_conflict: "row_ok b r \<Longrightarrow> row_ok b (activate_conflict now r)"
  by (auto simp: row_ok_def activate_conflict_def Let_def)

lemma row_ok_insert: "row_ok (sys_legacy_envelopes_disabled_at sys = None) (activate_insert now sys ns)"
  by (simp add: row_ok_def activate_insert_def)

lemma apply_call_rows_ok:
  assumes "list_all (row_ok (gate_open L)) (namespace_lifecycles L)"
  shows "list_all (row_ok (gate_open (apply_call c L))) (namespace_lifecycles (apply_call c L))"
proof (cases c)
  case (CallActivate f now ms)
  with assms show ?thesis
    by (auto simp: Activate_def gate_open_def scanNamespace_def row_ok_conflict
        row_ok_insert
        Let_def intro!: list_all_update split: option.splits)
next
  case (CallDisableLegacy f now ev at)
  with assms show ?thesis
    by (auto simp: DisableLegacy_def gate_open_def row_ok_def list_all_iff update_where_def Let_def
        split: option.splits)
qed (use assms in \<open>auto simp: store_defs gate_open_def row_ok_def list_all_iff update_where_def Let_def
        split: option.splits\<close>)

lemma apply_call_wf: "ledger_wf L \<Longrightarrow> ledger_wf (apply_call c L)"
proof -
  assume wf: "ledger_wf L"
  have "gate_open (apply_call c L)
        = (sys_legacy_adoption_evidence (system_lifecycle (apply_call c L)) = None)"
    using wf by (cases c) (auto simp: ledger_wf_def store_defs gate_open_def Let_def scanNamespace_def
        split: option.splits)
  moreover have "list_all (row_ok (gate_open (apply_call c L))) (namespace_lifecycles (apply_call c L))"
    using wf unfolding ledger_wf_def by (blast intro: apply_call_rows_ok)
  moreover have "keyed row_namespace (namespace_lifecycles (apply_call c L))"
    using wf unfolding ledger_wf_def by (blast intro: apply_call_keyed)
  ultimately show ?thesis by (simp only: ledger_wf_def)
qed

lemma run_calls_wf: "ledger_wf L \<Longrightarrow> ledger_wf (fold apply_call cs L)"
  by (induction cs arbitrary: L) (simp_all add: apply_call_wf)

lemma migrate_024_wf: "distinct (map fst configs) \<Longrightarrow> ledger_wf (migrate_024 now configs)"
proof -
  have "row_namespace \<circ> seed_row = fst"
    by (simp add: fun_eq_iff seed_row_def split: prod.split)
  moreover assume "distinct (map fst configs)"
  ultimately show ?thesis
    by (auto simp: migrate_024_def ledger_wf_def gate_open_def keyed_def row_ok_def list_all_iff
        seed_row_def)
qed

text \<open>The results of the two deletion steps on a name in the right phase.\<close>

lemma StartDelete_ok:
  assumes "ledger_wf L" and "phase L ns = ActiveAt g \<or> phase L ns = DeletingAt g"
  shows "\<exists>lc. StartDelete None now ns L = (Inr lc, apply_call (CallStartDelete None now ns) L)
              \<and> lc_Generation lc = g \<and> lc_Namespace lc = ns"
proof -
  obtain r where r: "row_of L ns = Some r" "row_generation r = g"
      "row_state r = StateActive \<or> row_state r = StateDeleting"
    using assms(2) by (auto simp: phase_def split: option.splits NamespaceState.splits)
  moreover have "keyed row_namespace (namespace_lifecycles L)"
    using assms(1) by (simp add: ledger_wf_def)
  ultimately show ?thesis
    using lookup_row_key [OF r(1)]
    by (simp add: StartDelete_def find_key scanNamespace_def Let_def)
qed

lemma CompleteDelete_ok:
  assumes "ledger_wf L" and "phase L ns = DeletingAt g"
  shows "CompleteDelete None now ns g L = (Inr (), apply_call (CallCompleteDelete None now ns g) L)"
proof -
  obtain r where "row_of L ns = Some r" "row_generation r = g" "row_state r = StateDeleting"
    using assms(2) by (auto simp: phase_def split: option.splits NamespaceState.splits)
  moreover have "keyed row_namespace (namespace_lifecycles L)"
    using assms(1) by (simp add: ledger_wf_def)
  ultimately show ?thesis
    by (simp add: CompleteDelete_def rows_affected_key Let_def)
qed

section \<open>Cleanup candidates\<close>

lemma row_candidates_mem:
  "c \<in> set (row_candidates r) \<longleftrightarrow>
     cand_Namespace c = row_namespace r \<and> 1 \<le> cand_Generation c \<and>
     (if row_state r = StateDeleted then cand_Generation c \<le> row_generation r
      else cand_Generation c < row_generation r)"
  by (cases c) (auto simp: row_candidates_def)

lemma cleanup_rows_superseded:
  assumes "ledger_wf L"
  shows "c \<in> set (cleanup_rows L) \<longleftrightarrow> superseded L c"
proof
  assume "c \<in> set (cleanup_rows L)"
  then obtain r where "r \<in> set (namespace_lifecycles L)" "c \<in> set (row_candidates r)"
    by (auto simp: cleanup_rows_def)
  moreover from this assms have "row_of L (cand_Namespace c) = Some r"
    by (metis ledger_wf_def lookup_row_mem row_candidates_mem)
  ultimately show "superseded L c"
    by (auto simp: superseded_def phase_def row_candidates_mem split: NamespaceState.splits if_splits)
next
  assume s: "superseded L c"
  then obtain r where r: "row_of L (cand_Namespace c) = Some r"
    by (auto simp: superseded_def phase_def split: option.splits)
  with s have "c \<in> set (row_candidates r)"
    by (auto simp: superseded_def phase_def row_candidates_mem dest: lookup_row_key
        split: NamespaceState.splits)
  with lookup_row_SomeD [OF r] show "c \<in> set (cleanup_rows L)"
    by (auto simp: cleanup_rows_def)
qed

lemma upto_sorted: "sorted_wrt (<) [i..j :: int]"
  by (simp add: strict_sorted_iff)

lemma row_candidates_sorted: "sorted_wrt (\<lambda>a b. cand_key a < cand_key b) (row_candidates r)"
  using upto_sorted by (simp add: row_candidates_def sorted_wrt_map cand_key_def)

lemma cleanup_rows_sorted:
  assumes "ledger_wf L"
  shows "sorted_wrt (\<lambda>a b. cand_key a < cand_key b) (cleanup_rows L)"
proof -
  let ?t = "sort_key row_namespace (namespace_lifecycles L)"
  have "distinct (map row_namespace ?t)"
    using assms by (simp add: ledger_wf_def keyed_def distinct_map)
  then have "sorted_wrt (\<lambda>a b. row_namespace a < row_namespace b) ?t"
    using sorted_sort_key [of row_namespace "namespace_lifecycles L"]
    by (simp add: strict_sorted_iff flip: sorted_wrt_map)
  then have "sorted_wrt (\<lambda>a b. \<forall>x\<in>set (row_candidates a). \<forall>y\<in>set (row_candidates b).
      cand_key x < cand_key y) ?t"
    by (rule sorted_wrt_mono_rel [rotated]) (auto simp: cand_key_def row_candidates_mem)
  then show ?thesis
    unfolding cleanup_rows_def
    by (rule sorted_wrt_concat_map) (rule row_candidates_sorted)
qed

lemma ListCleanupCandidates_eq:
  "0 < limit \<Longrightarrow> ListCleanupCandidates None after limit L
     = Inr (take (nat limit) (filter (\<lambda>c. cand_key after < cand_key c) (cleanup_rows L)))"
  by (simp add: ListCleanupCandidates_def)

interpretation cand: keyset_source ledger_wf cleanup_rows cand_key
  "\<lambda>L (ns, g) n. projr (ListCleanupCandidates None \<lparr>cand_Namespace = ns, cand_Generation = g\<rparr> (int n) L)"
  by (unfold_locales, rule cleanup_rows_sorted, assumption)
    (auto simp: ListCleanupCandidates_def cand_key_def split: prod.splits)

section \<open>Properties\<close>

text \<open>C2: Every mutating method of the store, whatever failure and clock it meets, implements the
  phase machine (absent, active, deleting, deleted, active again one generation later) on the name
  it is called for, is the identity on every other name, and keeps the ledger well-formed: one row
  per name, generations from 1, the legacy allowance only at generation 1 under an open gate.\<close>

theorem store_refines_phase_machine:
  assumes "ledger_wf L"
  shows "phase (apply_call c L) ns = spec_call c ns (phase L ns) \<and> ledger_wf (apply_call c L)"
  using assms by (simp add: apply_call_phase apply_call_wf)

theorem store_refines_phase_machine_witness:
  "let L = migrate_024 0 [(''shop'', 5, 5)];
       c = CallStartDelete None 9 ''shop''
   in phase L ''shop'' = ActiveAt 1 \<and> phase (apply_call c L) ''shop'' = DeletingAt 1
      \<and> ledger_wf (apply_call c L)"
  using store_refines_phase_machine
      [OF migrate_024_wf, of "[(''shop'', 5, 5)]" "CallStartDelete None 9 ''shop''" 0 "''shop''"]
  by (simp add: Let_def phase_def migrate_024_def seed_row_def)

text \<open>C3: A generation that has once stopped being active is never active again, however the
  store is driven afterwards: recreating the name always moves to a larger generation, and a name
  never loses its tombstone.\<close>

theorem generation_never_active_again:
  assumes "phase L ns = ActiveAt g" and "phase (fold apply_call cs L) ns \<noteq> ActiveAt g"
  shows "phase (fold apply_call (cs @ ds) L) ns \<noteq> Absent
         \<and> (\<forall>h. phase (fold apply_call (cs @ ds) L) ns = ActiveAt h \<longrightarrow> g < h)"
proof (intro conjI allI impI)
  show "phase (fold apply_call (cs @ ds) L) ns \<noteq> Absent"
    using gens.run_present [of L ns "cs @ ds"] assms(1) by simp
next
  fix h
  assume h: "phase (fold apply_call (cs @ ds) L) ns = ActiveAt h"
  then have "h \<noteq> g"
    using gens.left_phase_stays_left [of cs L ns ds] assms by metis
  moreover have "3 * g \<le> 3 * h"
    using gens.run_rank_mono [of L ns "cs @ ds"] assms(1) h by simp
  ultimately show "g < h" by simp
qed

theorem generation_never_active_again_witness:
  "let L = migrate_024 0 [(''shop'', 5, 5)];
       cs = [CallStartDelete None 9 ''shop''];
       ds = [CallCompleteDelete None 10 ''shop'' 1, CallActivate None 11 ''shop'']
   in phase (fold apply_call (cs @ ds) L) ''shop'' = ActiveAt 2 \<and> (1 :: int) < 2"
proof -
  let ?L = "migrate_024 0 [(''shop'', 5, 5)]"
  let ?cs = "[CallStartDelete None 9 ''shop'']"
  let ?ds = "[CallCompleteDelete None 10 ''shop'' 1, CallActivate None 11 ''shop'']"
  have start: "phase ?L ''shop'' = ActiveAt 1"
    by (simp add: phase_def migrate_024_def seed_row_def)
  have "phase (fold apply_call ?cs ?L) ''shop'' \<noteq> ActiveAt 1"
    by (simp add: apply_call_phase start del: apply_call.simps)
  from generation_never_active_again [OF start this, of ?ds]
  show ?thesis by (simp add: Let_def apply_call_phase start del: apply_call.simps)
qed

text \<open>C4: Once the legacy gate is closed it stays closed: after a successful \<^verbatim>\<open>DisableLegacy\<close> no
  later sequence of store calls, including the creation of new names, leaves a row that accepts
  generation-less envelopes.\<close>

theorem legacy_gate_closes_forever:
  assumes "ledger_wf L" and "DisableLegacy None now ev at L = (Inr True, L')"
  shows "\<not> gate_open (fold apply_call cs L')
         \<and> list_all (\<lambda>r. \<not> row_legacy_messages_allowed r) (namespace_lifecycles (fold apply_call cs L'))"
proof -
  have L': "L' = apply_call (CallDisableLegacy None now ev at) L"
    using assms(2) by simp
  have closed: "\<not> gate_open L'"
    using assms(2) by (auto simp: DisableLegacy_def gate_open_def Let_def split: if_splits)
  have "\<not> gate_open (fold apply_call cs M)" if "\<not> gate_open M" for M
    using that by (induction cs arbitrary: M) (auto dest: apply_call_gate)
  with closed have cl: "\<not> gate_open (fold apply_call cs L')" by blast
  moreover have "ledger_wf (fold apply_call cs L')"
    using assms(1) unfolding L' by (intro run_calls_wf apply_call_wf)
  ultimately show ?thesis
    by (auto simp: ledger_wf_def row_ok_def list_all_iff)
qed

theorem legacy_gate_closes_forever_witness:
  "let L = migrate_024 0 [(''shop'', 5, 5)];
       L' = snd (DisableLegacy None 7 ''ticket'' 7 L)
   in gate_open L \<and> \<not> gate_open (fold apply_call [CallActivate None 8 ''new''] L')"
  using legacy_gate_closes_forever
      [OF migrate_024_wf, of "[(''shop'', 5, 5)]" 7 "''ticket''" 7 0
          "snd (DisableLegacy None 7 ''ticket'' 7 (migrate_024 0 [(''shop'', 5, 5)]))"
          "[CallActivate None 8 ''new'']"]
  by (simp add: Let_def gate_open_def migrate_024_def DisableLegacy_def)

text \<open>C5: The cleanup listing returns exactly superseded generations, strictly after the cursor, in
  strictly increasing order and at most \<open>limit\<close> of them, and a page followed by the listing from
  the page's last entry is everything that was left: walking the pages misses no superseded
  generation and lists none twice.\<close>

theorem cleanup_listing_walks_superseded:
  assumes "ledger_wf L" and "0 < limit"
  shows "\<exists>page. ListCleanupCandidates None after limit L = Inr page
           \<and> length page \<le> nat limit
           \<and> sorted_wrt (\<lambda>a b. cand_key a < cand_key b) page
           \<and> (\<forall>c. c \<in> set page \<longrightarrow> superseded L c \<and> cand_key after < cand_key c)
           \<and> (\<forall>c. superseded L c \<and> cand_key after < cand_key c
                \<longrightarrow> c \<in> set page \<or> (page \<noteq> [] \<and> cand_key (last page) < cand_key c))"
proof -
  let ?f = "\<lambda>L (ns, g) n. projr (ListCleanupCandidates None
      \<lparr>cand_Namespace = ns, cand_Generation = g\<rparr> (int n) L)"
  let ?page = "?f L (cand_key after) (nat limit)"
  have eq: "ListCleanupCandidates None after limit L = Inr ?page"
    using assms(2) by (cases after) (simp add: ListCleanupCandidates_def cand_key_def)
  have "c \<in> set ?page \<or> (?page \<noteq> [] \<and> cand_key (last ?page) < cand_key c)"
    if "superseded L c" "cand_key after < cand_key c" for c
  proof -
    have mem: "c \<in> set (filter (\<lambda>c. cand_key after < cand_key c) (cleanup_rows L))"
      using that cleanup_rows_superseded [OF assms(1)] by simp
    show ?thesis
    proof (cases "?page = []")
      case True
      with assms have False
        using mem cand.fetch_short [OF assms(1), of "cand_key after" "nat limit"] by simp
      then show ?thesis ..
    next
      case False
      then show ?thesis
        using mem unfolding cand.fetch_split [OF assms(1) False] set_append set_filter by blast
    qed
  qed
  with eq show ?thesis
    using cand.fetch_length [OF assms(1)] cand.fetch_sorted [OF assms(1)]
      cand.fetch_after [OF assms(1)] cleanup_rows_superseded [OF assms(1)]
    by blast
qed

theorem cleanup_listing_walks_superseded_witness:
  "ListCleanupCandidates None \<lparr>cand_Namespace = [], cand_Generation = 0\<rparr> 5
     (fold apply_call [CallStartDelete None 6 ''shop'', CallCompleteDelete None 7 ''shop'' 1]
        (migrate_024 0 [(''shop'', 5, 5)]))
   = Inr [\<lparr>cand_Namespace = ''shop'', cand_Generation = 1\<rparr>]"
proof -
  let ?L = "fold apply_call [CallStartDelete None 6 ''shop'', CallCompleteDelete None 7 ''shop'' 1]
        (migrate_024 0 [(''shop'', 5, 5)])"
  have "ledger_wf ?L" by (intro run_calls_wf migrate_024_wf) simp
  from cleanup_listing_walks_superseded [OF this, of 5 "\<lparr>cand_Namespace = [], cand_Generation = 0\<rparr>"]
  show ?thesis
    by (simp add: ListCleanupCandidates_def cleanup_rows_def row_candidates_def cand_key_def
        migrate_024_def seed_row_def StartDelete_def CompleteDelete_def update_where_def Let_def
        rows_affected_def)
qed

end
