(* ===== verification/Lifecycle_Service.thy ===== *)
theory Lifecycle_Service
  imports Lifecycle_Store "HOL-Library.Word"
begin

unbundle bit_operations_syntax

text \<open>
  Lease and lock coordination (\<^verbatim>\<open>internal/core/nslifecycle/service.go\<close>): the advisory-lock
  sessions with what they do to the pooled connection, the lease a context carries, and the
  service operations that read the durable gates under the locks. Lock operations return the
  events they perform on the session, so that a leaked lock or connection is visible.
\<close>

section \<open>Lock sessions\<close>

datatype LockMode = LockShared | LockExclusive | LockGlobalExclusive

record heldKey =
  hk_key :: "64 word"
  hk_mode :: LockMode

datatype lock_event =
    ConnAcquired
  | LockTaken heldKey
  | LockDropped heldKey
  | ConnReleased

text \<open>\<^verbatim>\<open>once\<close> is whether the \<^verbatim>\<open>sync.Once\<close> has run; joined errors are kept as a list.\<close>

record postgresLock =
  lk_held :: "heldKey list"
  lk_once :: bool
  lk_err :: "go_error list"

text \<open>The failures a session can meet: borrowing the connection, taking a key, dropping a key.\<close>

record lock_faults =
  lf_conn :: "go_error option"
  lf_lock :: "heldKey \<Rightarrow> go_error option"
  lf_unlock :: "heldKey \<Rightarrow> go_error option"

definition fnv64a_offset :: "64 word" where
  "fnv64a_offset = 14695981039346656037"

definition fnv64a_step :: "64 word \<Rightarrow> char \<Rightarrow> 64 word" where
  "fnv64a_step h c = (h XOR of_char c) * 1099511628211"

definition lockKey :: "string \<Rightarrow> 64 word" where
  "lockKey name = foldl fnv64a_step fnv64a_offset (''codohue:nslifecycle:'' @ name)"

text \<open>
  The unlock statements in the order the loop runs them: a failed one leaves its key held and
  its error joined, and does not stop the rest.
\<close>

fun unlock_all :: "(heldKey \<Rightarrow> go_error option) \<Rightarrow> heldKey list \<Rightarrow> go_error list \<times> lock_event list" where
  "unlock_all unlock [] = ([], [])"
| "unlock_all unlock (k # ks) =
     (let (errs, evs) = unlock_all unlock ks
      in case unlock k of
           Some e \<Rightarrow> (e # errs, evs)
         | None \<Rightarrow> (errs, LockDropped k # evs))"

definition Release ::
  "(heldKey \<Rightarrow> go_error option) \<Rightarrow> postgresLock \<Rightarrow> postgresLock \<times> lock_event list" where
  "Release unlock l =
     (if lk_once l then (l, [])
      else let (errs, evs) = unlock_all unlock (rev (lk_held l))
           in (l\<lparr>lk_once := True, lk_err := errs\<rparr>, evs @ [ConnReleased]))"

definition Acquire :: "lock_faults \<Rightarrow> string \<Rightarrow> LockMode \<Rightarrow> (go_error + postgresLock) \<times> lock_event list" where
  "Acquire flt name mode =
     (case lf_conn flt of
        Some e \<Rightarrow> (Inl e, [])
      | None \<Rightarrow>
          let want = \<lparr>hk_key = lockKey name, hk_mode = mode\<rparr>
          in case lf_lock flt want of
               Some e \<Rightarrow> (Inl e, [ConnAcquired, ConnReleased])
             | None \<Rightarrow> (Inr \<lparr>lk_held = [want], lk_once = False, lk_err = []\<rparr>,
                        [ConnAcquired, LockTaken want]))"

fun take_keys ::
  "lock_faults \<Rightarrow> postgresLock \<Rightarrow> heldKey list \<Rightarrow> (go_error + postgresLock) \<times> lock_event list" where
  "take_keys flt held [] = (Inr held, [])"
| "take_keys flt held (want # wants) =
     (case lf_lock flt want of
        Some e \<Rightarrow> (Inl e, snd (Release (lf_unlock flt) held))
      | None \<Rightarrow>
          let (r, evs) = take_keys flt (held\<lparr>lk_held := lk_held held @ [want]\<rparr>) wants
          in (r, LockTaken want # evs))"

definition AcquirePair :: "lock_faults \<Rightarrow> namespace \<Rightarrow> LockMode \<Rightarrow> (go_error + postgresLock) \<times> lock_event list" where
  "AcquirePair flt ns mode =
     (case lf_conn flt of
        Some e \<Rightarrow> (Inl e, [])
      | None \<Rightarrow>
          let (r, evs) = take_keys flt \<lparr>lk_held = [], lk_once = False, lk_err = []\<rparr>
                [\<lparr>hk_key = lockKey ''global'', hk_mode = LockShared\<rparr>,
                 \<lparr>hk_key = lockKey (''namespace:'' @ ns), hk_mode = mode\<rparr>]
          in (r, ConnAcquired # evs))"

text \<open>
  The service's pair of locks: one paired session when the locker can (\<^verbatim>\<open>PostgresLocker\<close>),
  two sessions when it cannot. \<open>paired\<close> is that type assertion.
\<close>

datatype Lock = noopLock | PgLock postgresLock

definition acquirePair ::
  "bool \<Rightarrow> lock_faults \<Rightarrow> namespace \<Rightarrow> LockMode \<Rightarrow> (go_error + Lock \<times> Lock) \<times> lock_event list" where
  "acquirePair paired flt ns mode =
     (if paired then
        (case AcquirePair flt ns mode of
           (Inl e, evs) \<Rightarrow> (Inl e, evs)
         | (Inr both, evs) \<Rightarrow> (Inr (noopLock, PgLock both), evs))
      else
        (case Acquire flt ''global'' LockShared of
           (Inl e, evs) \<Rightarrow> (Inl e, evs)
         | (Inr g, evs) \<Rightarrow>
             (case Acquire flt (''namespace:'' @ ns) mode of
                (Inl e, evs') \<Rightarrow> (Inl e, evs @ evs' @ snd (Release (lf_unlock flt) g))
              | (Inr n, evs') \<Rightarrow> (Inr (PgLock g, PgLock n), evs @ evs'))))"

fun lock_release :: "(heldKey \<Rightarrow> go_error option) \<Rightarrow> Lock \<Rightarrow> go_error list \<times> lock_event list" where
  "lock_release unlock noopLock = ([], [])"
| "lock_release unlock (PgLock l) = (let (l', evs) = Release unlock l in (lk_err l', evs))"

definition releasePair ::
  "(heldKey \<Rightarrow> go_error option) \<Rightarrow> Lock \<Rightarrow> Lock \<Rightarrow> go_error list \<times> lock_event list" where
  "releasePair unlock namespaceLock global =
     (let (e1, v1) = lock_release unlock namespaceLock; (e2, v2) = lock_release unlock global
      in (e1 @ e2, v1 @ v2))"

section \<open>Leases\<close>

record leaseValue =
  lease_Namespace :: namespace
  lease_Generation :: int
  lease_Mode :: LockMode

text \<open>The two values a context carries: the lease and the global-exclusive marker.\<close>

record lctx =
  ctx_lease :: "leaseValue option"
  ctx_global_exclusive :: bool

definition background :: lctx where
  "background = \<lparr>ctx_lease = None, ctx_global_exclusive = False\<rparr>"

definition RequireNamespaceLease :: "lctx \<Rightarrow> namespace \<Rightarrow> go_error + unit" where
  "RequireNamespaceLease ctx ns =
     (case ctx_lease ctx of
        None \<Rightarrow> Inl ErrLeaseRequired
      | Some l \<Rightarrow> if lease_Namespace l \<noteq> ns \<or> lease_Generation l < 1 then Inl ErrLeaseRequired
                 else Inr ())"

definition LeaseGeneration :: "lctx \<Rightarrow> namespace \<Rightarrow> int \<times> bool" where
  "LeaseGeneration ctx ns =
     (case ctx_lease ctx of
        None \<Rightarrow> (0, False)
      | Some l \<Rightarrow> if lease_Namespace l \<noteq> ns \<or> lease_Generation l < 1 then (0, False)
                 else (lease_Generation l, True))"

definition LeaseIncarnation :: "lctx \<Rightarrow> namespace \<Rightarrow> Incarnation \<times> bool" where
  "LeaseIncarnation ctx ns =
     (case LeaseGeneration ctx ns of
        (g, False) \<Rightarrow> (\<lparr>inc_namespace = [], inc_generation = 0\<rparr>, False)
      | (g, True) \<Rightarrow> (\<lparr>inc_namespace = ns, inc_generation = g\<rparr>, True))"

definition with_lease :: "lctx \<Rightarrow> namespace \<Rightarrow> int \<Rightarrow> LockMode \<Rightarrow> lctx" where
  "with_lease ctx ns g mode =
     ctx\<lparr>ctx_lease := Some \<lparr>lease_Namespace = ns, lease_Generation = g, lease_Mode = mode\<rparr>\<rparr>"

definition LeaseFromGlobalExclusive :: "lctx \<Rightarrow> namespace \<Rightarrow> int \<Rightarrow> go_error + lctx" where
  "LeaseFromGlobalExclusive ctx ns g =
     (if \<not> ctx_global_exclusive ctx then Inl ErrGlobalExclusiveRequired
      else Inr (with_lease ctx ns g LockGlobalExclusive))"

section \<open>The service\<close>

text \<open>
  What a call meets: the kind of locker, its session failures and the failures of the two gate
  reads. A callback maps a state to its result and the new state; \<open>led\<close> finds the ledger in it.
\<close>

record svc_env =
  se_pairwise :: bool
  se_locks :: lock_faults
  se_system :: "go_error option"
  se_namespace :: "go_error option"

definition healthy :: svc_env where
  "healthy = \<lparr>se_pairwise = True,
     se_locks = \<lparr>lf_conn = None, lf_lock = (\<lambda>_. None), lf_unlock = (\<lambda>_. None)\<rparr>,
     se_system = None, se_namespace = None\<rparr>"

text \<open>\<^verbatim>\<open>errors.Join\<close> of a result's error with release errors: the first one that is not nil.\<close>

fun join_err :: "go_error + 'a \<Rightarrow> go_error list \<Rightarrow> go_error + 'a" where
  "join_err (Inl e) errs = Inl e"
| "join_err (Inr v) [] = Inr v"
| "join_err (Inr v) (e # errs) = Inl e"

text \<open>The lifecycle value a reentrant writer hands on: only name, generation and state are set.\<close>

definition reentrant_lifecycle :: "namespace \<Rightarrow> int \<Rightarrow> NamespaceLifecycle" where
  "reentrant_lifecycle ns g =
     \<lparr>lc_Namespace = ns, lc_Generation = g, lc_State = StateActive, lc_ActivatedAt = 0,
      lc_LegacyMessagesAllowed = False, lc_LastError = [], lc_UpdatedAt = 0\<rparr>"

definition writer_locked ::
  "svc_env \<Rightarrow> ('s \<Rightarrow> ledger) \<Rightarrow> lctx \<Rightarrow> namespace
   \<Rightarrow> (lctx \<Rightarrow> NamespaceLifecycle \<Rightarrow> 's \<Rightarrow> (go_error + 'a) \<times> 's) \<Rightarrow> 's \<Rightarrow> (go_error + 'a) \<times> 's" where
  "writer_locked env led ctx ns fn s =
     (case GetSystem (se_system env) (led s) of
        Inl e \<Rightarrow> (Inl e, s)
      | Inr system \<Rightarrow>
          if sl_State system \<noteq> SystemActive then (Inl ErrSystemResetting, s)
          else case GetNamespace (se_namespace env) ns (led s) of
                 Inl e \<Rightarrow> (Inl e, s)
               | Inr lifecycle \<Rightarrow>
                   if lc_State lifecycle \<noteq> StateActive then (Inl ErrNamespaceNotActive, s)
                   else fn (with_lease ctx ns (lc_Generation lifecycle) LockShared) lifecycle s)"

definition WithWriter ::
  "svc_env \<Rightarrow> ('s \<Rightarrow> ledger) \<Rightarrow> lctx \<Rightarrow> namespace
   \<Rightarrow> (lctx \<Rightarrow> NamespaceLifecycle \<Rightarrow> 's \<Rightarrow> (go_error + 'a) \<times> 's) \<Rightarrow> 's
   \<Rightarrow> ((go_error + 'a) \<times> 's) \<times> lock_event list" where
  "WithWriter env led ctx ns fn s =
     (case Option.bind (ctx_lease ctx) (\<lambda>l. if lease_Namespace l = ns then Some l else None) of
        Some existing \<Rightarrow> (fn ctx (reentrant_lifecycle ns (lease_Generation existing)) s, [])
      | None \<Rightarrow>
          (case acquirePair (se_pairwise env) (se_locks env) ns LockShared of
             (Inl e, evs) \<Rightarrow> ((Inl e, s), evs)
           | (Inr (global, namespaceLock), evs) \<Rightarrow>
               (writer_locked env led ctx ns fn s,
                evs @ snd (releasePair (lf_unlock (se_locks env)) namespaceLock global))))"

definition WithNamespaceExclusive ::
  "svc_env \<Rightarrow> ('s \<Rightarrow> ledger) \<Rightarrow> lctx \<Rightarrow> namespace
   \<Rightarrow> (lctx \<Rightarrow> NamespaceLifecycle \<Rightarrow> 's \<Rightarrow> (go_error + 'a) \<times> 's) \<Rightarrow> 's
   \<Rightarrow> ((go_error + 'a) \<times> 's) \<times> lock_event list" where
  "WithNamespaceExclusive env led ctx ns fn s =
     (case acquirePair (se_pairwise env) (se_locks env) ns LockExclusive of
        (Inl e, evs) \<Rightarrow> ((Inl e, s), evs)
      | (Inr (global, namespaceLock), evs) \<Rightarrow>
          let (errs, revs) = releasePair (lf_unlock (se_locks env)) namespaceLock global;
              (r, s') =
                (case GetSystem (se_system env) (led s) of
                   Inl e \<Rightarrow> (Inl e, s)
                 | Inr system \<Rightarrow>
                     if sl_State system \<noteq> SystemActive then (Inl ErrSystemResetting, s)
                     else case GetNamespace (se_namespace env) ns (led s) of
                            Inl e \<Rightarrow> (Inl e, s)
                          | Inr lifecycle \<Rightarrow>
                              fn (with_lease ctx ns (lc_Generation lifecycle) LockExclusive) lifecycle s)
          in ((join_err r errs, s'), evs @ revs))"

definition Service_Activate ::
  "svc_env \<Rightarrow> go_error option \<Rightarrow> time \<Rightarrow> namespace \<Rightarrow> ledger
   \<Rightarrow> ((go_error + NamespaceLifecycle) \<times> ledger) \<times> lock_event list" where
  "Service_Activate env fault now ns L =
     (case acquirePair (se_pairwise env) (se_locks env) ns LockExclusive of
        (Inl e, evs) \<Rightarrow> ((Inl e, L), evs)
      | (Inr (global, namespaceLock), evs) \<Rightarrow>
          let (errs, revs) = releasePair (lf_unlock (se_locks env)) namespaceLock global;
              (r, L') =
                (case GetSystem (se_system env) L of
                   Inl e \<Rightarrow> (Inl e, L)
                 | Inr system \<Rightarrow>
                     if sl_State system \<noteq> SystemActive then (Inl ErrSystemResetting, L)
                     else Activate fault now ns L)
          in ((join_err r errs, L'), evs @ revs))"

definition WithGlobalExclusive ::
  "svc_env \<Rightarrow> ('s \<Rightarrow> ledger) \<Rightarrow> lctx \<Rightarrow> (lctx \<Rightarrow> SystemLifecycle \<Rightarrow> 's \<Rightarrow> (go_error + 'a) \<times> 's) \<Rightarrow> 's
   \<Rightarrow> ((go_error + 'a) \<times> 's) \<times> lock_event list" where
  "WithGlobalExclusive env led ctx fn s =
     (case Acquire (se_locks env) ''global'' LockExclusive of
        (Inl e, evs) \<Rightarrow> ((Inl e, s), evs)
      | (Inr lock, evs) \<Rightarrow>
          let (lock', revs) = Release (lf_unlock (se_locks env)) lock;
              (r, s') =
                (case GetSystem (se_system env) (led s) of
                   Inl e \<Rightarrow> (Inl e, s)
                 | Inr system \<Rightarrow> fn (ctx\<lparr>ctx_global_exclusive := True\<rparr>) system s)
          in ((join_err r (lk_err lock'), s'), evs @ revs))"

definition DisableLegacyEnvelopes ::
  "svc_env \<Rightarrow> go_error option \<Rightarrow> time \<Rightarrow> time \<Rightarrow> lctx \<Rightarrow> string \<Rightarrow> ledger
   \<Rightarrow> ((go_error + bool) \<times> ledger) \<times> lock_event list" where
  "DisableLegacyEnvelopes env fault now at ctx evidence L =
     (if evidence = [] then ((Inl ErrAdoptionEvidence, L), [])
      else WithGlobalExclusive env (\<lambda>L. L) ctx (\<lambda>_ _ L. DisableLegacy fault now evidence at L) L)"

datatype EnvelopeDisposition = EnvelopeProcess | EnvelopeStale

definition EvaluateEnvelope ::
  "go_error option \<Rightarrow> ledger \<Rightarrow> namespace \<Rightarrow> int option \<Rightarrow> go_error + EnvelopeDisposition" where
  "EvaluateEnvelope fault L ns generation =
     (case GetNamespace fault ns L of
        Inl e \<Rightarrow> Inl e
      | Inr lifecycle \<Rightarrow>
          if lc_State lifecycle \<noteq> StateActive then Inr EnvelopeStale
          else if generation = None \<or> generation = Some 0
               then (if lc_Generation lifecycle = 1 \<and> lc_LegacyMessagesAllowed lifecycle
                     then Inr EnvelopeProcess else Inr EnvelopeStale)
               else if the generation \<noteq> lc_Generation lifecycle then Inr EnvelopeStale
               else Inr EnvelopeProcess)"

text \<open>
  The admin command \<^verbatim>\<open>lifecycle disable-legacy-envelopes\<close> after flag parsing: \<open>args\<close> is the
  word list, the parsed flags are the values of \<^verbatim>\<open>--all\<close> and \<^verbatim>\<open>--adoption-evidence\<close> and the
  number of positional arguments left, or nothing when parsing fails.
\<close>

definition runLifecycleCommand ::
  "string list \<Rightarrow> (bool \<times> string \<times> nat) option \<Rightarrow> (string \<Rightarrow> ledger \<Rightarrow> (go_error + bool) \<times> ledger)
   \<Rightarrow> ledger \<Rightarrow> (go_error + bool) \<times> ledger" where
  "runLifecycleCommand args flags disable L =
     (if args = [] \<or> hd args \<noteq> ''disable-legacy-envelopes'' then (Inl (Failure ''usage''), L)
      else case flags of
             None \<Rightarrow> (Inl (Failure ''parse''), L)
           | Some (all, evidence, narg) \<Rightarrow>
               if narg \<noteq> 0 \<or> \<not> all \<or> evidence = [] then (Inl (Failure ''usage''), L)
               else disable evidence L)"

section \<open>No session leaks\<close>

lemma join_err_Nil [simp]: "join_err r [] = r"
  by (cases r) auto

text \<open>
  A trace is clean when every borrowed connection is returned and, if no unlock statement
  fails, every key taken is dropped again.
\<close>

definition trace_clean :: "(heldKey \<Rightarrow> go_error option) \<Rightarrow> lock_event list \<Rightarrow> bool" where
  "trace_clean unlock evs \<longleftrightarrow>
     count_list evs ConnAcquired = count_list evs ConnReleased \<and>
     ((\<forall>k. unlock k = None)
        \<longrightarrow> (\<forall>k. count_list evs (LockTaken k) = count_list evs (LockDropped k)))"

lemma unlock_all_conn [simp]:
  "count_list (snd (unlock_all u ks)) ConnAcquired = 0"
  "count_list (snd (unlock_all u ks)) ConnReleased = 0"
  "count_list (snd (unlock_all u ks)) (LockTaken k) = 0"
  by (induction ks) (auto simp: split_beta split: option.splits)

lemma unlock_all_drops:
  "(\<forall>k. u k = None) \<Longrightarrow> count_list (snd (unlock_all u ks)) (LockDropped k) = count_list ks k"
  by (induction ks) (auto simp: split_beta)

lemma count_list_rev [simp]: "count_list (rev xs) x = count_list xs x"
  by (induction xs) auto

lemma Release_counts:
  assumes "\<not> lk_once l"
  shows "count_list (snd (Release u l)) ConnAcquired = 0"
    and "count_list (snd (Release u l)) ConnReleased = 1"
    and "count_list (snd (Release u l)) (LockTaken k) = 0"
    and "(\<forall>k. u k = None) \<Longrightarrow> count_list (snd (Release u l)) (LockDropped k) = count_list (lk_held l) k"
  using assms by (simp_all add: Release_def split_beta unlock_all_drops)

lemma Release_twice: "Release u (fst (Release u l)) = (fst (Release u l), [])"
  by (simp add: Release_def split_beta)

text \<open>
  What a successful acquisition has done and a failed one has undone; \<open>held\<close> counts the keys
  of the session it returns.
\<close>

lemma take_keys_counts:
  assumes "\<not> lk_once l" and "take_keys flt l ws = (r, evs)"
  shows "case r of
           Inr l' \<Rightarrow> \<not> lk_once l' \<and> count_list evs ConnAcquired = 0 \<and> count_list evs ConnReleased = 0
                     \<and> lk_held l' = lk_held l @ ws \<and> evs = map LockTaken ws
         | Inl e \<Rightarrow> count_list evs ConnAcquired = 0 \<and> count_list evs ConnReleased = 1
                    \<and> ((\<forall>k. lf_unlock flt k = None) \<longrightarrow>
                        (\<forall>k. count_list evs (LockDropped k)
                              = count_list evs (LockTaken k) + count_list (lk_held l) k))"
  using assms
proof (induction flt l ws arbitrary: r evs rule: take_keys.induct)
  case (2 flt l w ws)
  show ?case
  proof (cases "lf_lock flt w")
    case (Some e)
    with "2.prems" show ?thesis by (auto simp: Release_counts)
  next
    case None
    obtain r' evs' where t: "take_keys flt (l\<lparr>lk_held := lk_held l @ [w]\<rparr>) ws = (r', evs')"
      by fastforce
    with None "2.prems" have "r = r'" and "evs = LockTaken w # evs'" by auto
    with "2.IH" [OF None _ t] "2.prems"(1) show ?thesis by (auto split: sum.splits)
  qed
qed auto

fun lock_keys :: "Lock \<Rightarrow> heldKey list" where
  "lock_keys noopLock = []"
| "lock_keys (PgLock l) = lk_held l"

fun lock_conns :: "Lock \<Rightarrow> nat" where
  "lock_conns noopLock = 0"
| "lock_conns (PgLock l) = (if lk_once l then 0 else 1)"

fun lock_fresh :: "Lock \<Rightarrow> bool" where
  "lock_fresh noopLock = True"
| "lock_fresh (PgLock l) = (\<not> lk_once l)"

text \<open>A trace after which the session still owes the given keys and connections.\<close>

definition trace_owes ::
  "(heldKey \<Rightarrow> go_error option) \<Rightarrow> lock_event list \<Rightarrow> heldKey list \<Rightarrow> nat \<Rightarrow> bool" where
  "trace_owes u evs ks n \<longleftrightarrow>
     count_list evs ConnAcquired = count_list evs ConnReleased + n \<and>
     ((\<forall>k. u k = None)
        \<longrightarrow> (\<forall>k. count_list evs (LockTaken k) = count_list evs (LockDropped k) + count_list ks k))"

lemma trace_clean_owes: "trace_clean u evs = trace_owes u evs [] 0"
  by (simp add: trace_clean_def trace_owes_def)

lemma count_map_inj [simp]:
  "count_list (map LockTaken ws) (LockTaken k) = count_list ws k"
  "count_list (map LockTaken ws) (LockDropped k) = 0"
  by (induction ws) auto

lemma lock_release_counts:
  assumes "lock_fresh l"
  shows "count_list (snd (lock_release u l)) ConnAcquired = 0"
    and "count_list (snd (lock_release u l)) ConnReleased = lock_conns l"
    and "count_list (snd (lock_release u l)) (LockTaken k) = 0"
    and "(\<forall>k. u k = None) \<Longrightarrow> count_list (snd (lock_release u l)) (LockDropped k) = count_list (lock_keys l) k"
  using assms by (cases l; simp add: split_beta Release_counts)+

lemma releasePair_pays:
  assumes "lock_fresh g" and "lock_fresh n"
    and "trace_owes u evs (lock_keys g @ lock_keys n) (lock_conns g + lock_conns n)"
  shows "trace_clean u (evs @ snd (releasePair u n g))"
  using assms by (simp add: trace_clean_def trace_owes_def releasePair_def split_beta lock_release_counts)

lemma Acquire_outcome:
  assumes "Acquire flt name m = (r, evs)"
  shows "case r of
           Inl e \<Rightarrow> trace_clean (lf_unlock flt) evs
         | Inr l \<Rightarrow> \<not> lk_once l \<and> lk_held l = [\<lparr>hk_key = lockKey name, hk_mode = m\<rparr>]
                   \<and> trace_owes (lf_unlock flt) evs (lk_held l) 1"
  using assms by (auto simp: Acquire_def trace_clean_def trace_owes_def Let_def split: option.splits)

lemma AcquirePair_outcome:
  assumes "AcquirePair flt ns m = (r, evs)"
  shows "case r of
           Inl e \<Rightarrow> trace_clean (lf_unlock flt) evs
         | Inr l \<Rightarrow> \<not> lk_once l
                   \<and> lk_held l = [\<lparr>hk_key = lockKey ''global'', hk_mode = LockShared\<rparr>,
                                  \<lparr>hk_key = lockKey (''namespace:'' @ ns), hk_mode = m\<rparr>]
                   \<and> trace_owes (lf_unlock flt) evs (lk_held l) 1"
proof (cases "lf_conn flt")
  case (Some e)
  with assms show ?thesis by (auto simp: AcquirePair_def trace_clean_def)
next
  case None
  let ?ws = "[\<lparr>hk_key = lockKey ''global'', hk_mode = LockShared\<rparr>,
    \<lparr>hk_key = lockKey (''namespace:'' @ ns), hk_mode = m\<rparr>]"
  let ?l = "\<lparr>lk_held = [], lk_once = False, lk_err = []\<rparr>"
  obtain r' evs' where t: "take_keys flt ?l ?ws = (r', evs')" by fastforce
  with None assms have "r = r'" and "evs = ConnAcquired # evs'"
    by (auto simp: AcquirePair_def simp del: take_keys.simps)
  with take_keys_counts [OF _ t] show ?thesis
    by (auto simp: trace_clean_def trace_owes_def split: sum.splits)
qed

lemma trace_owes_append:
  "trace_owes u xs ks m \<Longrightarrow> trace_owes u ys js n \<Longrightarrow> trace_owes u (xs @ ys) (ks @ js) (m + n)"
  by (auto simp: trace_owes_def)

lemma acquirePair_outcome:
  assumes "acquirePair p flt ns m = (r, evs)"
  shows "case r of
           Inl e \<Rightarrow> trace_clean (lf_unlock flt) evs
         | Inr (g, n) \<Rightarrow> trace_clean (lf_unlock flt) (evs @ snd (releasePair (lf_unlock flt) n g))"
proof (cases p)
  case True
  obtain r' evs' where a: "AcquirePair flt ns m = (r', evs')" by fastforce
  with True assms have "evs = evs'" and "r = map_sum id (\<lambda>b. (noopLock, PgLock b)) r'"
    by (auto simp: acquirePair_def split: sum.splits)
  with AcquirePair_outcome [OF a] show ?thesis
    by (auto split: sum.splits intro!: releasePair_pays)
next
  case False
  obtain r1 v1 where g: "Acquire flt ''global'' LockShared = (r1, v1)" by fastforce
  obtain r2 v2 where n: "Acquire flt (''namespace:'' @ ns) m = (r2, v2)" by fastforce
  note o1 = Acquire_outcome [OF g] and o2 = Acquire_outcome [OF n]
  show ?thesis
  proof (cases r1)
    case (Inl e)
    with False assms g o1 show ?thesis by (auto simp: acquirePair_def)
  next
    case G: (Inr lg)
    show ?thesis
    proof (cases r2)
      case (Inl e)
      with False assms g n G have "r = Inl e" "evs = v1 @ v2 @ snd (Release (lf_unlock flt) lg)"
        by (auto simp: acquirePair_def)
      with G Inl o1 o2 show ?thesis
        by (auto simp: trace_clean_def trace_owes_def Release_counts)
    next
      case (Inr ln)
      with False assms g n G have "r = Inr (PgLock lg, PgLock ln)" "evs = v1 @ v2"
        by (auto simp: acquirePair_def)
      moreover have owes: "trace_owes (lf_unlock flt) v1 (lk_held lg) 1"
          "trace_owes (lf_unlock flt) v2 (lk_held ln) 1"
        and "\<not> lk_once lg" "\<not> lk_once ln"
        using G Inr o1 o2 by auto
      ultimately show ?thesis
        using releasePair_pays [of "PgLock lg" "PgLock ln" "lf_unlock flt" "v1 @ v2"]
          trace_owes_append [OF owes] by simp
    qed
  qed
qed

lemma WithGlobalExclusive_trace:
  "trace_clean (lf_unlock (se_locks env)) (snd (WithGlobalExclusive env led ctx fn s))"
proof -
  obtain r evs where a: "Acquire (se_locks env) ''global'' LockExclusive = (r, evs)" by fastforce
  from Acquire_outcome [OF a] show ?thesis
    using releasePair_pays [of noopLock "PgLock (projr r)" "lf_unlock (se_locks env)" evs]
    by (auto simp: WithGlobalExclusive_def a split_beta releasePair_def Let_def split: sum.splits)
qed

section \<open>What a writer's callback can rely on\<close>

definition leased :: "lctx \<Rightarrow> namespace \<Rightarrow> int \<Rightarrow> bool" where
  "leased ctx ns g \<longleftrightarrow> (\<exists>l. ctx_lease ctx = Some l \<and> lease_Namespace l = ns \<and> lease_Generation l = g)"

lemma phase_of_get:
  "GetNamespace None ns L = Inr lc \<Longrightarrow>
     lc_Namespace lc = ns \<and>
     phase L ns = (case lc_State lc of StateActive \<Rightarrow> ActiveAt (lc_Generation lc)
                     | StateDeleting \<Rightarrow> DeletingAt (lc_Generation lc)
                     | StateDeleted \<Rightarrow> DeletedAt (lc_Generation lc))"
  by (auto simp: GetNamespace_def scanNamespace_def phase_def dest: lookup_row_key
      split: option.splits NamespaceState.splits)

lemma GetNamespace_fault: "GetNamespace fault ns L = Inr lc \<Longrightarrow> fault = None"
  by (auto simp: GetNamespace_def split: option.splits)

lemma get_active_phase:
  "GetNamespace fault ns L = Inr lc \<Longrightarrow> lc_State lc = StateActive \<Longrightarrow> phase L ns = ActiveAt (lc_Generation lc)"
  using GetNamespace_fault phase_of_get by fastforce

lemma GetSystem_state: "GetSystem fault L = Inr sys \<Longrightarrow> fault = None \<and> sl_State sys = sys_state (system_lifecycle L)"
  by (auto simp: GetSystem_def Let_def split: option.splits)

text \<open>
  The contract of a writer fence, as its clients see it: the callback runs under a lease for the
  generation it is told, either one the caller already holds or one for the generation the
  ledger has active while the system is not resetting; otherwise an error is returned and the
  state is untouched.
\<close>

locale lease_fence =
  fixes with_writer :: "('s \<Rightarrow> ledger) \<Rightarrow> lctx \<Rightarrow> namespace
      \<Rightarrow> (lctx \<Rightarrow> NamespaceLifecycle \<Rightarrow> 's \<Rightarrow> (go_error + 'a) \<times> 's) \<Rightarrow> 's \<Rightarrow> (go_error + 'a) \<times> 's"
  assumes runs_or_blocks:
    "(\<exists>e. with_writer led ctx ns fn s = (Inl e, s)) \<or>
     (\<exists>ctx' lc. with_writer led ctx ns fn s = fn ctx' lc s \<and> leased ctx' ns (lc_Generation lc)
        \<and> (leased ctx ns (lc_Generation lc)
            \<or> phase (led s) ns = ActiveAt (lc_Generation lc)
              \<and> sys_state (system_lifecycle (led s)) = SystemActive))"
begin

text \<open>An invariant every leased run of the callback keeps is kept by the fenced call.\<close>

lemma keeps:
  assumes "I s" and "\<And>ctx' lc. leased ctx' ns (lc_Generation lc) \<Longrightarrow> I (snd (fn ctx' lc s))"
  shows "I (snd (with_writer led ctx ns fn s))"
proof -
  consider (blocked) e where "with_writer led ctx ns fn s = (Inl e, s)"
    | (runs) ctx' lc where "with_writer led ctx ns fn s = fn ctx' lc s" "leased ctx' ns (lc_Generation lc)"
    using runs_or_blocks [of led ctx ns fn s] by blast
  then show ?thesis using assms by cases auto
qed

text \<open>Without a lease of its own, a fenced call that has an effect found the name active.\<close>

lemma effect_needs_active:
  assumes "ctx_lease ctx = None" and "snd (with_writer led ctx ns fn s) \<noteq> s"
  shows "\<exists>g. phase (led s) ns = ActiveAt g \<and> sys_state (system_lifecycle (led s)) = SystemActive"
  using runs_or_blocks [of led ctx ns fn s] assms by (auto simp: leased_def)

lemma success_needs_active:
  assumes "ctx_lease ctx = None" and "is_ok (fst (with_writer led ctx ns fn s))"
  shows "\<exists>g. phase (led s) ns = ActiveAt g \<and> sys_state (system_lifecycle (led s)) = SystemActive"
  using runs_or_blocks [of led ctx ns fn s] assms by (auto simp: leased_def)

end

lemma writer_locked_runs:
  "(\<exists>e. writer_locked env led ctx ns fn s = (Inl e, s)) \<or>
   (\<exists>lc. writer_locked env led ctx ns fn s = fn (with_lease ctx ns (lc_Generation lc) LockShared) lc s
      \<and> phase (led s) ns = ActiveAt (lc_Generation lc)
      \<and> sys_state (system_lifecycle (led s)) = SystemActive)"
  unfolding writer_locked_def
  by (auto dest!: GetSystem_state dest: get_active_phase split: sum.split)

interpretation fence: lease_fence "\<lambda>led ctx ns fn s. fst (WithWriter env led ctx ns fn s)" for env
proof
  fix led :: "'a \<Rightarrow> ledger" and ctx ns and fn :: "lctx \<Rightarrow> NamespaceLifecycle \<Rightarrow> 'a \<Rightarrow> (go_error + 'b) \<times> 'a" and s
  show "(\<exists>e. fst (WithWriter env led ctx ns fn s) = (Inl e, s)) \<or>
     (\<exists>ctx' lc. fst (WithWriter env led ctx ns fn s) = fn ctx' lc s \<and> leased ctx' ns (lc_Generation lc)
        \<and> (leased ctx ns (lc_Generation lc)
            \<or> phase (led s) ns = ActiveAt (lc_Generation lc)
              \<and> sys_state (system_lifecycle (led s)) = SystemActive))"
  proof (cases "\<exists>g. leased ctx ns g")
    case True
    then obtain l where "ctx_lease ctx = Some l" "lease_Namespace l = ns"
      by (auto simp: leased_def)
    then have "fst (WithWriter env led ctx ns fn s)
               = fn ctx (reentrant_lifecycle ns (lease_Generation l)) s"
      and "leased ctx ns (lc_Generation (reentrant_lifecycle ns (lease_Generation l)))"
      by (auto simp: WithWriter_def leased_def reentrant_lifecycle_def)
    then show ?thesis by blast
  next
    case False
    then have "fst (WithWriter env led ctx ns fn s) =
        (case acquirePair (se_pairwise env) (se_locks env) ns LockShared of
           (Inl e, evs) \<Rightarrow> (Inl e, s) | (Inr _, evs) \<Rightarrow> writer_locked env led ctx ns fn s)"
      by (auto simp: WithWriter_def leased_def split: option.splits prod.splits sum.splits bind_splits)
    moreover have "leased (with_lease ctx ns g LockShared) ns g" for g
      by (simp add: leased_def with_lease_def)
    ultimately show ?thesis
      using writer_locked_runs [of env led ctx ns fn s] by (fastforce split: prod.splits sum.splits)
  qed
qed

text \<open>Without failures, a writer of an active namespace runs under a lease for its generation.\<close>

lemma writer_healthy:
  assumes "ctx_lease ctx = None" and "sys_state (system_lifecycle (led s)) = SystemActive"
    and "GetNamespace None ns (led s) = Inr lc" and "lc_State lc = StateActive"
  shows "fst (WithWriter healthy led ctx ns fn s) = fn (with_lease ctx ns (lc_Generation lc) LockShared) lc s"
  using assms by (simp add: WithWriter_def healthy_def acquirePair_def AcquirePair_def writer_locked_def
      GetSystem_def Let_def)

text \<open>A ledger with one namespace at its first generation, for concrete instances.\<close>

definition shop_ledger :: ledger where
  "shop_ledger = migrate_024 0 [(''shop'', 5, 5)]"

definition shop_lifecycle :: NamespaceLifecycle where
  "shop_lifecycle =
     \<lparr>lc_Namespace = ''shop'', lc_Generation = 1, lc_State = StateActive, lc_ActivatedAt = 5,
      lc_LegacyMessagesAllowed = True, lc_LastError = [], lc_UpdatedAt = 5\<rparr>"

lemma shop_ledger_get:
  "GetNamespace None ''shop'' shop_ledger = Inr shop_lifecycle"
  "sys_state (system_lifecycle shop_ledger) = SystemActive"
  by (simp_all add: GetNamespace_def scanNamespace_def shop_ledger_def shop_lifecycle_def migrate_024_def
      seed_row_def null_string_def)

lemma shop_writer:
  "led s = shop_ledger \<Longrightarrow> ctx_lease ctx = None \<Longrightarrow>
     fst (WithWriter healthy led ctx ''shop'' fn s) = fn (with_lease ctx ''shop'' 1 LockShared) shop_lifecycle s"
  using writer_healthy [of ctx led s "''shop''" shop_lifecycle fn]
  by (simp add: shop_ledger_get) (simp add: shop_lifecycle_def)

section \<open>Envelopes\<close>

lemma EvaluateEnvelope_row:
  "EvaluateEnvelope None L ns gen =
     (case row_of L ns of
        None \<Rightarrow> Inl ErrNamespaceNotFound
      | Some r \<Rightarrow>
          if row_state r = StateActive \<and>
             (if gen = None \<or> gen = Some 0
              then row_generation r = 1 \<and> row_legacy_messages_allowed r
              else gen = Some (row_generation r))
          then Inr EnvelopeProcess else Inr EnvelopeStale)"
  by (auto simp: EvaluateEnvelope_def GetNamespace_def scanNamespace_def split: option.splits)

lemma phase_ActiveAt_iff:
  "phase L ns = ActiveAt g \<longleftrightarrow> (\<exists>r. row_of L ns = Some r \<and> row_state r = StateActive \<and> row_generation r = g)"
  by (auto simp: phase_def split: option.splits NamespaceState.splits)

lemma phase_Absent_iff: "phase L ns = Absent \<longleftrightarrow> row_of L ns = None"
  by (auto simp: phase_def split: option.splits NamespaceState.splits)

lemma legacy_off_step:
  assumes "row_of L ns = Some r" and "\<not> row_legacy_messages_allowed r"
  shows "\<exists>r'. row_of (apply_call c L) ns = Some r' \<and> \<not> row_legacy_messages_allowed r'"
proof (cases c)
  case (CallActivate f now ms)
  with assms show ?thesis
    by (auto simp: Activate_def lookup_row_snoc scanNamespace_def activate_conflict_def Let_def
        split: option.splits)
qed (use assms in \<open>auto simp: store_defs Let_def split: option.splits\<close>)

lemma legacy_off_run:
  "row_of L ns = Some r \<Longrightarrow> \<not> row_legacy_messages_allowed r \<Longrightarrow>
   \<exists>r'. row_of (fold apply_call cs L) ns = Some r' \<and> \<not> row_legacy_messages_allowed r'"
proof (induction cs arbitrary: L r)
  case (Cons c cs)
  with legacy_off_step [of L ns r c] show ?case by fastforce
qed simp

section \<open>Properties\<close>


text \<open>C7: A caller without a lease gets an effect or a success out of \<^verbatim>\<open>WithWriter\<close> only when, after
  the locks were taken, the system was not resetting and the ledger had the namespace active; the
  result is then that of the callback, run under a lease for exactly the active generation.\<close>

theorem writer_runs_only_under_active_generation:
  assumes "ctx_lease ctx = None"
    and "snd (fst (WithWriter env led ctx ns fn s)) \<noteq> s \<or> is_ok (fst (fst (WithWriter env led ctx ns fn s)))"
  shows "\<exists>ctx' lc. fst (WithWriter env led ctx ns fn s) = fn ctx' lc s
           \<and> leased ctx' ns (lc_Generation lc)
           \<and> phase (led s) ns = ActiveAt (lc_Generation lc)
           \<and> sys_state (system_lifecycle (led s)) = SystemActive"
  using fence.runs_or_blocks [of env led ctx ns fn s] assms by (auto simp: leased_def)

theorem writer_runs_only_under_active_generation_witness:
  "let L = migrate_024 0 [(''shop'', 5, 5)];
       fn = (\<lambda>ctx lc s. (Inr (fst (LeaseGeneration ctx ''shop'')), s))
   in fst (WithWriter healthy (\<lambda>L. L) background ''shop'' fn L) = (Inr 1, L)
      \<and> phase L ''shop'' = ActiveAt 1"
proof -
  let ?L = "migrate_024 0 [(''shop'', 5, 5)]"
  let ?fn = "\<lambda>ctx lc s. (Inr (fst (LeaseGeneration ctx ''shop'')), s) :: (go_error + int) \<times> ledger"
  have run: "fst (WithWriter healthy (\<lambda>L. L) background ''shop'' ?fn ?L) = (Inr 1, ?L)"
    by (simp add: WithWriter_def healthy_def background_def acquirePair_def AcquirePair_def
        writer_locked_def GetSystem_def GetNamespace_def scanNamespace_def migrate_024_def
        seed_row_def LeaseGeneration_def with_lease_def Let_def)
  moreover have "ctx_lease background = None" by (simp add: background_def)
  ultimately have "sys_state (system_lifecycle ?L) = SystemActive"
    using writer_runs_only_under_active_generation
        [of background healthy "\<lambda>L. L" "''shop''" ?fn ?L] by auto
  with run show ?thesis by (simp add: phase_def migrate_024_def seed_row_def)
qed

text \<open>A queued envelope is processed exactly when its namespace is active at the generation it
  names, or names none and the namespace is still at generation 1 with legacy messages allowed;
  a store failure is reported as a failure and never as stale work.\<close>

lemma envelope_processed_iff:
  "EvaluateEnvelope fault L ns gen = Inr EnvelopeProcess \<longleftrightarrow>
     fault = None \<and>
     (\<exists>g. phase L ns = ActiveAt g \<and>
        (if gen = None \<or> gen = Some 0
         then g = 1 \<and> (\<exists>r. row_of L ns = Some r \<and> row_legacy_messages_allowed r)
         else gen = Some g))"
  by (cases fault)
    (auto simp: EvaluateEnvelope_row phase_ActiveAt_iff split: option.splits,
     simp_all add: EvaluateEnvelope_def GetNamespace_def)

text \<open>Stale is final. An envelope judged stale, whose generation (if it names one) is not ahead
  of the ledger, is judged stale after every later sequence of store calls, so acknowledging and
  dropping it loses nothing that a retry could have processed.\<close>

lemma stale_envelope_stays_stale:
  assumes "ledger_wf L"
    and "EvaluateEnvelope None L ns gen = Inr EnvelopeStale"
    and "row_of L ns = Some r" and "\<And>g. gen = Some g \<Longrightarrow> g \<le> row_generation r"
  shows "EvaluateEnvelope None (fold apply_call cs L) ns gen = Inr EnvelopeStale"
proof (rule ccontr)
  let ?M = "fold apply_call cs L"
  assume n: "EvaluateEnvelope None ?M ns gen \<noteq> Inr EnvelopeStale"
  have "phase L ns \<noteq> Absent" by (simp add: phase_Absent_iff assms(3))
  then obtain r' where r': "row_of ?M ns = Some r'"
    using gens.run_present [of L ns cs] by (auto simp: phase_Absent_iff)
  let ?g = "if gen = None \<or> gen = Some 0 then 1 else the gen"
  from n r' have act: "phase ?M ns = ActiveAt ?g"
    by (auto simp: EvaluateEnvelope_row phase_ActiveAt_iff split: if_splits)
  have pos: "1 \<le> row_generation r"
    using assms(1,3) lookup_row_SomeD [OF assms(3)] by (auto simp: ledger_wf_def row_ok_def list_all_iff)
  then have "3 * ?g \<le> phase_rank (phase L ns)"
    using assms(3,4) by (auto simp: phase_def split: NamespaceState.splits)
  moreover have "phase_rank (phase L ns) \<le> 3 * ?g"
    using gens.run_rank_mono [of L ns cs] act by simp
  ultimately have same: "phase L ns = phase ?M ns"
    using gens.run_rank [of cs L ns] act by auto
  with act have "phase L ns = ActiveAt ?g" by (simp only:)
  then have here: "row_state r = StateActive" "row_generation r = ?g"
    unfolding phase_ActiveAt_iff using assms(3) by auto
  show False
  proof (cases "gen = None \<or> gen = Some 0")
    case True
    with assms(2,3) here have "\<not> row_legacy_messages_allowed r"
      by (auto simp: EvaluateEnvelope_row split: if_splits)
    from legacy_off_run [OF assms(3) this, of cs] r' have "\<not> row_legacy_messages_allowed r'" by simp
    with n r' True show False by (auto simp: EvaluateEnvelope_row)
  next
    case False
    with assms(2,3) here show False by (auto simp: EvaluateEnvelope_row split: if_splits)
  qed
qed

end
