(* ===== verification/Lifecycle_Cleanup.thy ===== *)
theory Lifecycle_Cleanup
  imports Lifecycle_Store
begin

text \<open>
  Reclaiming superseded generations: the janitor of
  \<^verbatim>\<open>internal/core/nslifecycle/janitor.go\<close> over the store cleaner of
  \<^verbatim>\<open>cmd/cron/generation_cleaner.go\<close>. Redis and Qdrant are the sets of names they hold; how
  Redis matches a \<^verbatim>\<open>SCAN\<close> pattern is a parameter, of which only the documented meaning of a
  literal prefix followed by \<^verbatim>\<open>*\<close> is assumed.
\<close>

section \<open>The cleaner\<close>

record stores =
  redis_keys :: "string list"
  collections :: "string list"

text \<open>
  The clients of a cleaner, present or nil, the pattern matcher, and the failures of the
  commands it issues.
\<close>

record cleaner_env =
  ce_redis :: bool
  ce_qdrant :: bool
  ce_matches :: "string \<Rightarrow> string \<Rightarrow> bool"
  ce_scan :: "go_error option"
  ce_del :: "go_error option"
  ce_exists :: "string \<Rightarrow> go_error option"
  ce_drop :: "string \<Rightarrow> go_error option"

definition glob_prefix_law :: "(string \<Rightarrow> string \<Rightarrow> bool) \<Rightarrow> bool" where
  "glob_prefix_law matches \<longleftrightarrow>
     (\<forall>p k. list_all (\<lambda>c. c \<notin> set ''*?['' \<and> c \<noteq> CHR 0x5C) p \<longrightarrow> matches (p @ ''*'') k = prefix p k)"

definition ScanKeys :: "cleaner_env \<Rightarrow> string \<Rightarrow> stores \<Rightarrow> go_error + string list" where
  "ScanKeys env pattern st =
     (case ce_scan env of Some e \<Rightarrow> Inl e | None \<Rightarrow> Inr (filter (ce_matches env pattern) (redis_keys st)))"

definition DeleteKeys :: "cleaner_env \<Rightarrow> string list \<Rightarrow> stores \<Rightarrow> (go_error + unit) \<times> stores" where
  "DeleteKeys env keys st =
     (if keys = [] then (Inr (), st)
      else case ce_del env of
             Some e \<Rightarrow> (Inl e, st)
           | None \<Rightarrow> (Inr (), st\<lparr>redis_keys := filter (\<lambda>k. k \<notin> set keys) (redis_keys st)\<rparr>))"

definition name_failure :: go_error where
  "name_failure = Failure ''physical name''"

definition DeleteRedisGeneration ::
  "cleaner_env \<Rightarrow> CleanupCandidate \<Rightarrow> stores \<Rightarrow> (go_error + unit) \<times> stores" where
  "DeleteRedisGeneration env c st =
     (if \<not> ce_redis env then (Inr (), st)
      else case (PhysicalName KindTrending (cand_Namespace c) (cand_Generation c),
                 PhysicalName KindEmbedStream (cand_Namespace c) (cand_Generation c),
                 PhysicalName KindRecommendationCache (cand_Namespace c) (cand_Generation c)) of
             (Inr trending, Inr stream, Inr cachePrefix) \<Rightarrow>
               (case ScanKeys env (cachePrefix @ '':*'') st of
                  Inl e \<Rightarrow> (Inl e, st)
                | Inr cached \<Rightarrow> DeleteKeys env ([trending, stream] @ cached) st)
           | _ \<Rightarrow> (Inl name_failure, st))"

text \<open>The loop over the four collection kinds, shared in shape by the cron and the admin cleaner.\<close>

definition qdrant_kinds :: "PhysicalKind list" where
  "qdrant_kinds = [KindSubjects, KindObjects, KindSubjectsDense, KindObjectsDense]"

fun drop_kinds ::
  "cleaner_env \<Rightarrow> namespace \<Rightarrow> int \<Rightarrow> PhysicalKind list \<Rightarrow> stores \<Rightarrow> (go_error + unit) \<times> stores" where
  "drop_kinds env ns g [] st = (Inr (), st)"
| "drop_kinds env ns g (kind # kinds) st =
     (case PhysicalName kind ns g of
        Inl _ \<Rightarrow> (Inl name_failure, st)
      | Inr collection \<Rightarrow>
          (case ce_exists env collection of
             Some e \<Rightarrow> (Inl e, st)
           | None \<Rightarrow>
               if collection \<notin> set (collections st) then drop_kinds env ns g kinds st
               else case ce_drop env collection of
                      Some e \<Rightarrow> (Inl e, st)
                    | None \<Rightarrow> drop_kinds env ns g kinds
                        (st\<lparr>collections := filter (\<lambda>n. n \<noteq> collection) (collections st)\<rparr>)))"

definition DeleteQdrantGeneration ::
  "cleaner_env \<Rightarrow> CleanupCandidate \<Rightarrow> stores \<Rightarrow> (go_error + unit) \<times> stores" where
  "DeleteQdrantGeneration env c st =
     (if \<not> ce_qdrant env then (Inr (), st)
      else drop_kinds env (cand_Namespace c) (cand_Generation c) qdrant_kinds st)"

section \<open>The janitor\<close>

definition zero_candidate :: CleanupCandidate where
  "zero_candidate = \<lparr>cand_Namespace = [], cand_Generation = 0\<rparr>"

text \<open>The cleaning loop: the number cleaned, the error that stopped it, and the cursor it left.\<close>

fun clean_page ::
  "cleaner_env \<Rightarrow> CleanupCandidate list \<Rightarrow> CleanupCandidate \<Rightarrow> int \<Rightarrow> stores
   \<Rightarrow> (int \<times> go_error option) \<times> CleanupCandidate \<times> stores" where
  "clean_page env [] cursor cleaned st = ((cleaned, None), cursor, st)"
| "clean_page env (c # cs) cursor cleaned st =
     (case DeleteRedisGeneration env c st of
        (Inl e, st1) \<Rightarrow> ((cleaned, Some e), cursor, st1)
      | (Inr _, st1) \<Rightarrow>
          (case DeleteQdrantGeneration env c st1 of
             (Inl e, st2) \<Rightarrow> ((cleaned, Some e), cursor, st2)
           | (Inr _, st2) \<Rightarrow> clean_page env cs c (cleaned + 1) st2))"

text \<open>\<open>fsys\<close> and \<open>flist\<close> are the failures of the janitor's two reads.\<close>

definition RunOnce ::
  "cleaner_env \<Rightarrow> go_error option \<Rightarrow> go_error option \<Rightarrow> ledger \<Rightarrow> int \<Rightarrow> CleanupCandidate \<Rightarrow> stores
   \<Rightarrow> (int \<times> go_error option) \<times> CleanupCandidate \<times> stores" where
  "RunOnce env fsys flist L limit cursor st =
     (if limit \<le> 0 then ((0, None), cursor, st)
      else case GetSystem fsys L of
             Inl e \<Rightarrow> ((0, Some e), cursor, st)
           | Inr system \<Rightarrow>
               if sl_LegacyEnvelopesDisabledAt system = None
               then ((0, Some ErrLegacyEnvelopesOpen), cursor, st)
               else case ListCleanupCandidates flist cursor limit L of
                      Inl e \<Rightarrow> ((0, Some e), cursor, st)
                    | Inr listed \<Rightarrow>
                        let candidates = take (nat limit) listed;
                            (out, cursor', st') = clean_page env candidates cursor 0 st
                        in (out, if int (length candidates) < limit then zero_candidate else cursor', st'))"

definition generationCleanupBatch :: int where
  "generationCleanupBatch = 50"

text \<open>
  The ticks of \<^verbatim>\<open>runGenerationCleanupLoop\<close>: each pass runs against the ledger and failures of its
  moment. What the loop logs is its only other effect; \<open>gateLogged\<close> decides one log line.
\<close>

fun cleanup_passes ::
  "(cleaner_env \<times> go_error option \<times> go_error option \<times> ledger) list \<Rightarrow> bool \<Rightarrow> CleanupCandidate \<Rightarrow> stores
   \<Rightarrow> bool \<times> CleanupCandidate \<times> stores" where
  "cleanup_passes [] gateLogged cursor st = (gateLogged, cursor, st)"
| "cleanup_passes ((env, fsys, flist, L) # ps) gateLogged cursor st =
     (let ((cleaned, err), cursor', st') = RunOnce env fsys flist L generationCleanupBatch cursor st;
          gateLogged' = (case err of Some ErrLegacyEnvelopesOpen \<Rightarrow> True
                                   | Some _ \<Rightarrow> gateLogged | None \<Rightarrow> False)
      in cleanup_passes ps gateLogged' cursor' st')"

section \<open>What a generation owns\<close>

definition owns_key :: "namespace \<Rightarrow> int \<Rightarrow> string \<Rightarrow> bool" where
  "owns_key ns g k \<longleftrightarrow>
     PhysicalName KindTrending ns g = Inr k \<or> PhysicalName KindEmbedStream ns g = Inr k \<or>
     (case PhysicalName KindRecommendationCache ns g of
        Inl _ \<Rightarrow> False | Inr p \<Rightarrow> prefix (p @ '':'') k)"

definition owns_collection :: "namespace \<Rightarrow> int \<Rightarrow> string \<Rightarrow> bool" where
  "owns_collection ns g n \<longleftrightarrow> list_ex (\<lambda>kind. PhysicalName kind ns g = Inr n) qdrant_kinds"

lemma qdrant_kinds_all: "qdrant_kind k \<longleftrightarrow> k \<in> set qdrant_kinds"
  by (cases k) (simp_all add: qdrant_kinds_def)

lemma owns_collection_iff: "owns_collection ns g n \<longleftrightarrow> (\<exists>k. qdrant_kind k \<and> PhysicalName k ns g = Inr n)"
  by (auto simp: owns_collection_def list_ex_iff qdrant_kinds_all)

lemma owns_collection_inject:
  "owns_collection ns g n \<Longrightarrow> owns_collection ms h n \<Longrightarrow> plain_namespace ns \<Longrightarrow> plain_namespace ms
   \<Longrightarrow> ns = ms \<and> g = h"
  unfolding owns_collection_iff using PhysicalName_inject by blast

lemma cache_prefix_cut:
  assumes "PhysicalName KindRecommendationCache ns g = Inr p" and "prefix (p @ '':'') k"
  shows "\<exists>rest b. k = ''rec:v3:'' @ rest \<and> p = ''rec:v3:'' @ RawURLEncode (RedisNamespace ns g)
           \<and> cut_at (CHR '':'') rest = Some (RawURLEncode (RedisNamespace ns g), b)"
proof -
  have p: "p = ''rec:v3:'' @ RawURLEncode (RedisNamespace ns g)"
    using assms(1) by (auto simp: PhysicalName_def Let_def split: if_splits)
  obtain b where "k = p @ '':'' @ b" using assms(2) by (auto elim: prefixE)
  moreover have "CHR '':'' \<notin> set (RawURLEncode (RedisNamespace ns g))"
    using RawURLEncode_plain [of "RedisNamespace ns g"] by (auto simp: list_all_iff)
  ultimately have "k = ''rec:v3:'' @ RawURLEncode (RedisNamespace ns g) @ CHR '':'' # b"
    and "cut_at (CHR '':'') (RawURLEncode (RedisNamespace ns g) @ CHR '':'' # b)
         = Some (RawURLEncode (RedisNamespace ns g), b)"
    using p by (simp_all add: cut_at_append)
  with p show ?thesis by blast
qed

lemma cache_prefix_inject:
  assumes "PhysicalName KindRecommendationCache ns g = Inr p" and "prefix (p @ '':'') k"
    and "PhysicalName KindRecommendationCache ms h = Inr q" and "prefix (q @ '':'') k"
  shows "p = q"
proof -
  obtain r b where 1: "k = ''rec:v3:'' @ r" "p = ''rec:v3:'' @ RawURLEncode (RedisNamespace ns g)"
    "cut_at (CHR '':'') r = Some (RawURLEncode (RedisNamespace ns g), b)"
    using cache_prefix_cut [OF assms(1,2)] by blast
  obtain r' b' where 2: "k = ''rec:v3:'' @ r'" "q = ''rec:v3:'' @ RawURLEncode (RedisNamespace ms h)"
    "cut_at (CHR '':'') r' = Some (RawURLEncode (RedisNamespace ms h), b')"
    using cache_prefix_cut [OF assms(3,4)] by blast
  from 1(1) 2(1) have "r = r'" by simp
  with 1 2 show ?thesis by simp
qed

lemma cache_key_head:
  "PhysicalName KindRecommendationCache ns g = Inr p \<Longrightarrow> prefix (p @ '':'') k \<Longrightarrow> hd k = CHR ''r''"
  by (drule (1) cache_prefix_cut) auto

lemma stream_key_head:
  "PhysicalName KindTrending ns g = Inr k \<Longrightarrow> hd k = CHR ''t''"
  "PhysicalName KindEmbedStream ns g = Inr k \<Longrightarrow> hd k = CHR ''c''"
  by (auto simp: PhysicalName_def Let_def split: if_splits)

text \<open>Every owned key is named by one Redis name: the key itself or the cache prefix before it.\<close>

lemma owns_key_cases:
  assumes "owns_key ns g k"
  obtains (trending) "PhysicalName KindTrending ns g = Inr k" "hd k = CHR ''t''"
    | (stream) "PhysicalName KindEmbedStream ns g = Inr k" "hd k = CHR ''c''"
    | (cache) p where "PhysicalName KindRecommendationCache ns g = Inr p" "prefix (p @ '':'') k"
        "hd k = CHR ''r''"
proof -
  from assms consider "PhysicalName KindTrending ns g = Inr k" | "PhysicalName KindEmbedStream ns g = Inr k"
    | p where "PhysicalName KindRecommendationCache ns g = Inr p" "prefix (p @ '':'') k"
    unfolding owns_key_def by (cases "PhysicalName KindRecommendationCache ns g") auto
  then show thesis
    by cases (rule trending stream cache; (assumption | erule stream_key_head | erule (1) cache_key_head))+
qed

lemma owns_key_named:
  assumes "owns_key ns g k" and "owns_key ms h k"
  shows "\<exists>l n. redis_kind l \<and> PhysicalName l ns g = Inr n \<and> PhysicalName l ms h = Inr n"
  using assms(1)
proof (cases rule: owns_key_cases)
  case trending
  from assms(2) show ?thesis
    by (cases rule: owns_key_cases) (use trending in \<open>auto intro!: exI [of _ KindTrending]\<close>)
next
  case stream
  from assms(2) show ?thesis
    by (cases rule: owns_key_cases) (use stream in \<open>auto intro!: exI [of _ KindEmbedStream]\<close>)
next
  case (cache p)
  from assms(2) show ?thesis
  proof (cases rule: owns_key_cases)
    case (cache q)
    with \<open>PhysicalName KindRecommendationCache ns g = Inr p\<close> \<open>prefix (p @ '':'') k\<close>
    have "p = q" by (intro cache_prefix_inject)
    with cache \<open>PhysicalName KindRecommendationCache ns g = Inr p\<close> show ?thesis
      by (intro exI [of _ KindRecommendationCache] exI [of _ p]) simp
  qed (use cache in auto)
qed

lemma owns_key_inject:
  assumes "owns_key ns g k" and "owns_key ms h k" and "plain_namespace ns" and "plain_namespace ms"
  shows "ns = ms \<and> g = h"
  using owns_key_named [OF assms(1,2)] PhysicalName_inject assms(3,4) by blast

section \<open>What the cleaner removes\<close>

lemma cache_pattern:
  assumes "glob_prefix_law matches" and "PhysicalName KindRecommendationCache ns g = Inr p"
  shows "matches (p @ '':*'') k = prefix (p @ '':'') k"
proof -
  have "p = ''rec:v3:'' @ RawURLEncode (RedisNamespace ns g)"
    using assms(2) by (auto simp: PhysicalName_def Let_def split: if_splits)
  then have "list_all (\<lambda>c. c \<notin> set ''*?['' \<and> c \<noteq> CHR 0x5C) (p @ '':'')"
    using RawURLEncode_plain [of "RedisNamespace ns g"] by (auto simp: list_all_iff)
  with assms(1) have "matches ((p @ '':'') @ ''*'') k = prefix (p @ '':'') k"
    unfolding glob_prefix_law_def by blast
  then show ?thesis by simp
qed

lemma physical_name_ok:
  assumes "ns \<noteq> []" and "1 \<le> g" and "qdrant_kind k \<or> redis_kind k"
  obtains n where "PhysicalName k ns g = Inr n"
  using assms by (cases k) (auto simp: PhysicalName_def Let_def)

text \<open>
  A Redis pass without failure removes exactly the keys the generation owns; with a failure it
  removes nothing. Collections are untouched.
\<close>

lemma DeleteRedis_keys:
  assumes "glob_prefix_law (ce_matches env)"
  shows "snd (DeleteRedisGeneration env c st) = st \<and>
           (is_ok (fst (DeleteRedisGeneration env c st)) \<longrightarrow> \<not> ce_redis env)
         \<or> DeleteRedisGeneration env c st =
           (Inr (), st\<lparr>redis_keys := filter (\<lambda>k. \<not> owns_key (cand_Namespace c) (cand_Generation c) k)
              (redis_keys st)\<rparr>)"
proof (cases "ce_redis env \<and> ce_scan env = None \<and> ce_del env = None
              \<and> cand_Namespace c \<noteq> [] \<and> 1 \<le> cand_Generation c")
  case True
  then obtain t e p where n: "PhysicalName KindTrending (cand_Namespace c) (cand_Generation c) = Inr t"
      "PhysicalName KindEmbedStream (cand_Namespace c) (cand_Generation c) = Inr e"
      "PhysicalName KindRecommendationCache (cand_Namespace c) (cand_Generation c) = Inr p"
    by (metis physical_name_ok redis_kind.simps(1-3))
  have "filter (\<lambda>k. k \<notin> set ([t, e] @ filter (ce_matches env (p @ '':*'')) (redis_keys st))) (redis_keys st)
        = filter (\<lambda>k. \<not> owns_key (cand_Namespace c) (cand_Generation c) k) (redis_keys st)"
    using cache_pattern [OF assms n(3)] by (auto simp: owns_key_def n intro!: filter_cong)
  with True n show ?thesis
    by (simp add: DeleteRedisGeneration_def ScanKeys_def DeleteKeys_def)
next
  case False
  then show ?thesis
    by (auto simp: DeleteRedisGeneration_def ScanKeys_def DeleteKeys_def PhysicalName_def Let_def
        split: option.splits sum.splits)
qed

lemma drop_kinds_effect:
  "redis_keys (snd (drop_kinds env ns g kinds st)) = redis_keys st
   \<and> set (collections (snd (drop_kinds env ns g kinds st))) \<subseteq> set (collections st)
   \<and> (\<forall>n \<in> set (collections st) - set (collections (snd (drop_kinds env ns g kinds st))).
        \<exists>k \<in> set kinds. PhysicalName k ns g = Inr n)
   \<and> (is_ok (fst (drop_kinds env ns g kinds st)) \<longrightarrow>
        (\<forall>k \<in> set kinds. \<forall>n. PhysicalName k ns g = Inr n
            \<longrightarrow> n \<notin> set (collections (snd (drop_kinds env ns g kinds st)))))"
proof (induction env ns g kinds st rule: drop_kinds.induct)
  case (2 env ns g kind kinds st)
  show ?case
  proof (cases "PhysicalName kind ns g")
    case (Inr n)
    show ?thesis
    proof (cases "ce_exists env n")
      case None
      note IH1 = "2.IH"(1) [OF Inr None] and IH2 = "2.IH"(2) [OF Inr None]
      show ?thesis
      proof (cases "n \<in> set (collections st)")
        case True
        with Inr None IH2 show ?thesis by (cases "ce_drop env n") auto
      next
        case False
        with Inr None IH1 show ?thesis by auto
      qed
    qed (simp add: Inr)
  qed simp
qed simp

lemma DeleteQdrant_effect:
  "redis_keys (snd (DeleteQdrantGeneration env c st)) = redis_keys st
   \<and> set (collections (snd (DeleteQdrantGeneration env c st))) \<subseteq> set (collections st)
   \<and> (\<forall>n \<in> set (collections st) - set (collections (snd (DeleteQdrantGeneration env c st))).
        owns_collection (cand_Namespace c) (cand_Generation c) n)
   \<and> (is_ok (fst (DeleteQdrantGeneration env c st)) \<and> ce_qdrant env \<longrightarrow>
        (\<forall>n. owns_collection (cand_Namespace c) (cand_Generation c) n
            \<longrightarrow> n \<notin> set (collections (snd (DeleteQdrantGeneration env c st)))))"
  using drop_kinds_effect [of env "cand_Namespace c" "cand_Generation c" qdrant_kinds st]
  by (auto simp: DeleteQdrantGeneration_def owns_collection_def list_ex_iff)

text \<open>The stores only shrink, and only by names of the page's candidates.\<close>

definition shrinks_by :: "CleanupCandidate set \<Rightarrow> stores \<Rightarrow> stores \<Rightarrow> bool" where
  "shrinks_by C st st' \<longleftrightarrow>
     set (redis_keys st') \<subseteq> set (redis_keys st) \<and> set (collections st') \<subseteq> set (collections st)
     \<and> (\<forall>k \<in> set (redis_keys st) - set (redis_keys st').
          \<exists>c \<in> C. owns_key (cand_Namespace c) (cand_Generation c) k)
     \<and> (\<forall>n \<in> set (collections st) - set (collections st').
          \<exists>c \<in> C. owns_collection (cand_Namespace c) (cand_Generation c) n)"

lemma shrinks_by_refl [simp]: "shrinks_by C st st"
  by (simp add: shrinks_by_def)

lemma shrinks_by_trans: "shrinks_by C s t \<Longrightarrow> shrinks_by D t u \<Longrightarrow> shrinks_by (C \<union> D) s u"
  unfolding shrinks_by_def by blast

lemma shrinks_by_mono: "shrinks_by C s t \<Longrightarrow> C \<subseteq> D \<Longrightarrow> shrinks_by D s t"
  unfolding shrinks_by_def by blast

lemma DeleteRedis_shrinks:
  "glob_prefix_law (ce_matches env) \<Longrightarrow> shrinks_by {c} st (snd (DeleteRedisGeneration env c st))"
  using DeleteRedis_keys [of env c st] by (auto simp: shrinks_by_def)

lemma DeleteQdrant_shrinks: "shrinks_by {c} st (snd (DeleteQdrantGeneration env c st))"
  using DeleteQdrant_effect [of env c st] by (auto simp: shrinks_by_def)

text \<open>A candidate is gone when nothing it owns is left in the stores the cleaner can reach.\<close>

definition candidate_gone :: "cleaner_env \<Rightarrow> CleanupCandidate \<Rightarrow> stores \<Rightarrow> bool" where
  "candidate_gone env c st \<longleftrightarrow>
     (ce_redis env \<longrightarrow> (\<forall>k \<in> set (redis_keys st). \<not> owns_key (cand_Namespace c) (cand_Generation c) k))
     \<and> (ce_qdrant env \<longrightarrow>
          (\<forall>n \<in> set (collections st). \<not> owns_collection (cand_Namespace c) (cand_Generation c) n))"

lemma candidate_gone_shrinks: "candidate_gone env c st \<Longrightarrow> shrinks_by C st st' \<Longrightarrow> candidate_gone env c st'"
  by (auto simp: candidate_gone_def shrinks_by_def)

lemma clean_one:
  assumes g: "glob_prefix_law (ce_matches env)"
    and r: "DeleteRedisGeneration env c st = (Inr u, st1)"
    and q: "DeleteQdrantGeneration env c st1 = (Inr v, st2)"
  shows "candidate_gone env c st2 \<and> shrinks_by {c} st st2"
proof -
  have "shrinks_by {c} st st1" using DeleteRedis_shrinks [OF g, of c st] r by simp
  moreover have "shrinks_by {c} st1 st2" using DeleteQdrant_shrinks [of c st1 env] q by simp
  moreover have "ce_redis env \<Longrightarrow> \<forall>k \<in> set (redis_keys st2). \<not> owns_key (cand_Namespace c) (cand_Generation c) k"
    using DeleteRedis_keys [OF g, of c st] DeleteQdrant_effect [of env c st1] r q by auto
  ultimately show ?thesis
    using DeleteQdrant_effect [of env c st1] q shrinks_by_trans [of "{c}" st st1 "{c}" st2]
    by (auto simp: candidate_gone_def)
qed

text \<open>
  A page is cleaned from the front: the candidates before the one that failed are gone, the
  count is theirs, and the cursor rests on the last of them.
\<close>

lemma clean_page_result:
  assumes g: "glob_prefix_law (ce_matches env)"
    and "clean_page env cs cur n st = ((m, err), cur', st')"
  shows "shrinks_by (set cs) st st' \<and>
    (\<exists>done rest. cs = done @ rest \<and> m = n + int (length done)
        \<and> (\<forall>c \<in> set done. candidate_gone env c st')
        \<and> cur' = (if done = [] then cur else last done) \<and> (err = None \<longleftrightarrow> rest = []))"
  using assms(2)
proof (induction cs arbitrary: cur n st)
  case Nil
  then show ?case by auto
next
  case (Cons c cs)
  obtain r1 st1 where r: "DeleteRedisGeneration env c st = (r1, st1)" by fastforce
  obtain r2 st2 where q: "DeleteQdrantGeneration env c st1 = (r2, st2)" by fastforce
  have s1: "shrinks_by {c} st st1" using DeleteRedis_shrinks [OF g, of c st] r by simp
  have s2: "shrinks_by {c} st st2"
    using shrinks_by_trans [OF s1] DeleteQdrant_shrinks [of c st1 env] q by fastforce
  show ?case
  proof (cases "is_ok r1 \<and> is_ok r2")
    case False
    then have "m = n \<and> cur' = cur \<and> err \<noteq> None \<and> (st' = st1 \<or> st' = st2)"
      using Cons.prems r q by (cases r1; cases r2) auto
    moreover have "shrinks_by (set (c # cs)) st st1" "shrinks_by (set (c # cs)) st st2"
      using s1 s2 by (auto elim: shrinks_by_mono)
    ultimately show ?thesis by (auto intro: exI [of _ "[]"])
  next
    case True
    then obtain u v where uv: "r1 = Inr u" "r2 = Inr v" by (auto simp: is_ok_iff)
    with Cons.prems r q have rec: "clean_page env cs c (n + 1) st2 = ((m, err), cur', st')" by simp
    from Cons.IH [OF this] obtain dn rest where
      sh: "shrinks_by (set cs) st2 st'" and d: "cs = dn @ rest" "m = n + 1 + int (length dn)"
        "\<forall>c \<in> set dn. candidate_gone env c st'" "cur' = (if dn = [] then c else last dn)"
        "err = None \<longleftrightarrow> rest = []" by blast
    have "candidate_gone env c st2" using clean_one [OF g] r q uv by blast
    then have "candidate_gone env c st'" using sh by (rule candidate_gone_shrinks)
    moreover have "shrinks_by (set (c # cs)) st st'"
      using shrinks_by_trans [OF s2 sh] by simp
    moreover from calculation d
    have "c # cs = (c # dn) @ rest \<and> m = n + int (length (c # dn))
        \<and> (\<forall>x \<in> set (c # dn). candidate_gone env x st')
        \<and> cur' = (if c # dn = [] then cur else last (c # dn)) \<and> (err = None \<longleftrightarrow> rest = [])" by auto
    ultimately show ?thesis by blast
  qed
qed

definition cleaner_healthy :: "cleaner_env \<Rightarrow> bool" where
  "cleaner_healthy env \<longleftrightarrow> glob_prefix_law (ce_matches env) \<and> ce_scan env = None \<and> ce_del env = None
     \<and> ce_exists env = (\<lambda>_. None) \<and> ce_drop env = (\<lambda>_. None)"

lemma drop_kinds_healthy:
  assumes "cleaner_healthy env" and "ns \<noteq> []" and "1 \<le> g"
  shows "list_all qdrant_kind kinds \<Longrightarrow> is_ok (fst (drop_kinds env ns g kinds st))"
proof (induction kinds arbitrary: st)
  case (Cons k kinds)
  then obtain n where "PhysicalName k ns g = Inr n"
    using assms(2,3) by (auto elim: physical_name_ok)
  with Cons assms(1) show ?case by (simp add: cleaner_healthy_def)
qed simp

lemma clean_page_healthy:
  assumes h: "cleaner_healthy env"
  shows "(\<And>c. c \<in> set cs \<Longrightarrow> cand_Namespace c \<noteq> [] \<and> 1 \<le> cand_Generation c)
     \<Longrightarrow> snd (fst (clean_page env cs cur n st)) = None"
proof (induction cs arbitrary: cur n st)
  case (Cons c cs)
  have nm: "cand_Namespace c \<noteq> []" "1 \<le> cand_Generation c" using Cons.prems by auto
  have "list_all qdrant_kind qdrant_kinds" by (simp add: qdrant_kinds_def)
  then have "is_ok (fst (DeleteQdrantGeneration env c st1))" for st1
    using drop_kinds_healthy [OF h nm] by (simp add: DeleteQdrantGeneration_def)
  moreover have "is_ok (fst (DeleteRedisGeneration env c st))"
  proof (cases "ce_redis env")
    case True
    obtain t e p where "PhysicalName KindTrending (cand_Namespace c) (cand_Generation c) = Inr t"
      "PhysicalName KindEmbedStream (cand_Namespace c) (cand_Generation c) = Inr e"
      "PhysicalName KindRecommendationCache (cand_Namespace c) (cand_Generation c) = Inr p"
      using nm by (metis physical_name_ok redis_kind.simps(1-3))
    with True h show ?thesis
      by (simp add: DeleteRedisGeneration_def ScanKeys_def DeleteKeys_def cleaner_healthy_def)
  qed (simp add: DeleteRedisGeneration_def)
  ultimately obtain u st1 v st2 where "DeleteRedisGeneration env c st = (Inr u, st1)"
    and "DeleteQdrantGeneration env c st1 = (Inr v, st2)"
    by (metis is_ok_iff prod.collapse)
  with Cons show ?case by simp
qed simp

section \<open>Passes of the janitor\<close>

lemma ListCleanup_page:
  assumes "ledger_wf L" and "ListCleanupCandidates f cur limit L = Inr page" and "c \<in> set page"
  shows "superseded L c"
  using assms cleanup_rows_superseded [OF assms(1), of c]
  by (auto simp: ListCleanupCandidates_def dest!: in_set_takeD split: if_splits option.splits)

lemma RunOnce_shrinks:
  assumes wf: "ledger_wf L" and g: "glob_prefix_law (ce_matches env)"
    and run: "RunOnce env fsys flist L limit cur st = (out, cur', st')"
  shows "shrinks_by {c. superseded L c} st st'"
proof (cases "\<exists>page. 0 < limit \<and> ListCleanupCandidates flist cur limit L = Inr page")
  case False
  with run show ?thesis
    by (auto simp: RunOnce_def ListCleanupCandidates_def split: if_splits sum.splits option.splits)
next
  case True
  then obtain page where page: "0 < limit" "ListCleanupCandidates flist cur limit L = Inr page" by blast
  obtain m err cur1 st1 where c: "clean_page env (take (nat limit) page) cur 0 st = ((m, err), cur1, st1)"
    by (metis prod.collapse)
  have "shrinks_by {c. superseded L c} st st1"
    using clean_page_result [OF g c] ListCleanup_page [OF wf page(2)]
    by (auto elim!: shrinks_by_mono dest: in_set_takeD)
  moreover have "st' = st \<or> st' = st1"
    using run page c by (auto simp: RunOnce_def Let_def split: if_splits sum.splits)
  ultimately show ?thesis by auto
qed

text \<open>
  One healthy pass over a closed gate: the first \<open>limit\<close> candidates after the cursor are gone,
  and the cursor rests on the last of them or starts over when the page was short.
\<close>

lemma RunOnce_healthy:
  assumes wf: "ledger_wf L" and named: "list_all (\<lambda>r. row_namespace r \<noteq> []) (namespace_lifecycles L)"
    and closed: "\<not> gate_open L" and h: "cleaner_healthy env" and lim: "0 < limit"
    and run: "RunOnce env None None L limit cur st = (out, cur', st')"
  defines "rest \<equiv> filter (\<lambda>c. cand_key cur < cand_key c) (cleanup_rows L)"
  defines "page \<equiv> take (nat limit) rest"
  shows "shrinks_by {c. superseded L c} st st' \<and> (\<forall>c \<in> set page. candidate_gone env c st')
         \<and> cur' = (if int (length page) < limit then zero_candidate else last page)"
proof -
  have g: "glob_prefix_law (ce_matches env)" using h by (simp add: cleaner_healthy_def)
  obtain sys where sys: "GetSystem None L = Inr sys" "sl_LegacyEnvelopesDisabledAt sys \<noteq> None"
    using closed by (simp add: GetSystem_def gate_open_def Let_def)
  have lst: "ListCleanupCandidates None cur limit L = Inr page"
    using lim by (simp add: ListCleanupCandidates_eq page_def rest_def)
  have tk: "take (nat limit) page = page" by (simp add: page_def)
  obtain m err cur1 st1 where c: "clean_page env page cur 0 st = ((m, err), cur1, st1)"
    by (metis prod.collapse)
  have ok: "cand_Namespace x \<noteq> [] \<and> 1 \<le> cand_Generation x" if "x \<in> set page" for x
  proof -
    have sup: "superseded L x" using ListCleanup_page [OF wf lst that] .
    then obtain r where r: "row_of L (cand_Namespace x) = Some r"
      by (auto simp: superseded_def phase_def split: option.splits)
    from sup lookup_row_SomeD [OF r] named show ?thesis
      by (auto simp: superseded_def list_all_iff)
  qed
  have "err = None" using clean_page_healthy [OF h ok, of page cur 0 st] c by simp
  with clean_page_result [OF g c] have gone: "\<forall>x \<in> set page. candidate_gone env x st1"
    and cur1: "cur1 = (if page = [] then cur else last page)" by auto
  have st': "st' = st1" and "cur' = (if int (length page) < limit then zero_candidate else cur1)"
    using run lim sys lst tk c by (auto simp: RunOnce_def Let_def)
  moreover from this cur1 lim have "cur' = (if int (length page) < limit then zero_candidate else last page)"
    by auto
  ultimately show ?thesis using gone RunOnce_shrinks [OF wf g run] by simp
qed

lemma cleanup_passes_shrink:
  assumes "ledger_wf L" and "glob_prefix_law (ce_matches env)"
  shows "cleanup_passes (replicate k (env, fsys, flist, L)) gl cur st = (gl', cur', st')
         \<Longrightarrow> shrinks_by {c. superseded L c} st st'"
proof (induction k arbitrary: gl cur st)
  case (Suc k)
  obtain m err cur1 st1 where r: "RunOnce env fsys flist L generationCleanupBatch cur st = ((m, err), cur1, st1)"
    by (metis prod.collapse)
  with Suc.prems have "\<exists>gl1. cleanup_passes (replicate k (env, fsys, flist, L)) gl1 cur1 st1 = (gl', cur', st')"
    by (auto simp: Let_def)
  with Suc.IH have "shrinks_by {c. superseded L c} st1 st'" by blast
  from shrinks_by_trans [OF RunOnce_shrinks [OF assms r] this] show ?case by simp
qed simp

lemma cleanup_passes_reach:
  assumes wf: "ledger_wf L" and named: "list_all (\<lambda>r. row_namespace r \<noteq> []) (namespace_lifecycles L)"
    and closed: "\<not> gate_open L" and h: "cleaner_healthy env"
  shows "length (filter (\<lambda>c. cand_key cur < cand_key c) (cleanup_rows L)) \<le> 50 * k
    \<Longrightarrow> cleanup_passes (replicate k (env, None, None, L)) gl cur st = (gl', cur', st')
    \<Longrightarrow> cand_key cur < cand_key c \<Longrightarrow> c \<in> set (cleanup_rows L) \<Longrightarrow> candidate_gone env c st'"
proof (induction k arbitrary: gl cur st)
  case 0
  then show ?case by (auto simp: filter_empty_conv)
next
  case (Suc k)
  let ?rest = "filter (\<lambda>c. cand_key cur < cand_key c) (cleanup_rows L)"
  let ?page = "take (nat generationCleanupBatch) ?rest"
  obtain m err cur1 st1 where r: "RunOnce env None None L generationCleanupBatch cur st = ((m, err), cur1, st1)"
    by (metis prod.collapse)
  with Suc.prems(2) obtain gl1 where
    p: "cleanup_passes (replicate k (env, None, None, L)) gl1 cur1 st1 = (gl', cur', st')"
    by (auto simp: Let_def)
  have lim: "0 < generationCleanupBatch" by (simp add: generationCleanupBatch_def)
  note pass = RunOnce_healthy [OF wf named closed h lim r]
  have g: "glob_prefix_law (ce_matches env)" using h by (simp add: cleaner_healthy_def)
  note later = cleanup_passes_shrink [OF wf g p]
  have mem: "c \<in> set ?rest" using Suc.prems by simp
  show ?case
  proof (cases "c \<in> set ?page")
    case True
    with pass have "candidate_gone env c st1" by blast
    then show ?thesis by (rule candidate_gone_shrinks [OF _ later])
  next
    case False
    with mem have long: "50 \<le> length ?rest"
      by (metis False generationCleanupBatch_def nat_le_linear nat_numeral take_all)
    then have full: "length ?page = 50" by (simp add: generationCleanupBatch_def)
    then have cur1: "cur1 = last ?page" and ne: "?page \<noteq> []"
      using pass by (auto simp: generationCleanupBatch_def)
    have "?rest = ?page @ filter (\<lambda>x. cand_key cur1 < cand_key x) (cleanup_rows L)"
      using cand.fetch_split [OF wf, of "cand_key cur" 50] ne cur1
      by (simp add: cand.fetch_rows [OF wf] generationCleanupBatch_def)
    with mem False Suc.prems(1) full
    have "c \<in> set (filter (\<lambda>x. cand_key cur1 < cand_key x) (cleanup_rows L))"
      and "length (filter (\<lambda>x. cand_key cur1 < cand_key x) (cleanup_rows L)) \<le> 50 * k"
      by (metis Un_iff set_append, metis (no_types, lifting) add_le_cancel_left length_append mult_Suc_right)
    then show ?thesis using Suc.IH [OF _ p] by simp
  qed
qed

lemma zero_candidate_first:
  "superseded L c \<Longrightarrow> cand_Namespace c \<noteq> [] \<Longrightarrow> cand_key zero_candidate < cand_key c"
  by (cases "cand_Namespace c") (simp_all add: cand_key_def zero_candidate_def)

lemma superseded_named:
  "list_all (\<lambda>r. row_namespace r \<noteq> []) (namespace_lifecycles L) \<Longrightarrow> superseded L c \<Longrightarrow> cand_Namespace c \<noteq> []"
  by (auto simp: superseded_def phase_def list_all_iff dest: lookup_row_SomeD split: option.splits)

lemma passes_reclaim:
  assumes "ledger_wf L" and "list_all (\<lambda>r. row_namespace r \<noteq> []) (namespace_lifecycles L)"
    and "\<not> gate_open L" and "cleaner_healthy env" and "length (cleanup_rows L) \<le> 50 * k"
    and "cleanup_passes (replicate k (env, None, None, L)) gl zero_candidate st = (gl', cur', st')"
    and "superseded L c"
  shows "candidate_gone env c st'"
proof (rule cleanup_passes_reach [OF assms(1-4) _ assms(6)])
  show "length (filter (\<lambda>c. cand_key zero_candidate < cand_key c) (cleanup_rows L)) \<le> 50 * k"
    using assms(5) length_filter_le order_trans by blast
  show "cand_key zero_candidate < cand_key c"
    using zero_candidate_first superseded_named assms(2,7) by blast
  show "c \<in> set (cleanup_rows L)" using cleanup_rows_superseded assms(1,7) by blast
qed

text \<open>A concrete cleaner over a prefix matcher, and a ledger with reclaimable generations.\<close>

definition prefix_cleaner :: cleaner_env where
  "prefix_cleaner = \<lparr>ce_redis = True, ce_qdrant = True,
     ce_matches = (\<lambda>pattern k. prefix (butlast pattern) k), ce_scan = None, ce_del = None,
     ce_exists = (\<lambda>_. None), ce_drop = (\<lambda>_. None)\<rparr>"

lemma prefix_cleaner_healthy: "cleaner_healthy prefix_cleaner"
  by (simp add: cleaner_healthy_def prefix_cleaner_def glob_prefix_law_def)

definition twin_ledger :: ledger where
  "twin_ledger = fold apply_call
     [CallDisableLegacy None 1 ''ticket'' 1,
      CallStartDelete None 2 ''shop'', CallCompleteDelete None 3 ''shop'' 1, CallActivate None 4 ''shop'',
      CallStartDelete None 5 ''shop'', CallCompleteDelete None 6 ''shop'' 2, CallActivate None 7 ''shop'']
     (migrate_024 0 [(''shop'', 0, 0), (''shop_g2'', 0, 0)])"

lemma twin_ledger_facts:
  "ledger_wf twin_ledger" "\<not> gate_open twin_ledger"
  "list_all (\<lambda>r. row_namespace r \<noteq> []) (namespace_lifecycles twin_ledger)"
  "length (cleanup_rows twin_ledger) \<le> 50 * 1"
  "phase twin_ledger ''shop'' = ActiveAt 3" "phase twin_ledger ''shop_g2'' = ActiveAt 1"
proof -
  show "ledger_wf twin_ledger"
    unfolding twin_ledger_def by (intro run_calls_wf migrate_024_wf) simp
  have rows: "map (\<lambda>r. (row_namespace r, row_generation r, row_state r)) (namespace_lifecycles twin_ledger)
      = [(''shop'', 3, StateActive), (''shop_g2'', 1, StateActive)]"
    and sys: "\<not> gate_open twin_ledger"
    by (simp_all add: twin_ledger_def migrate_024_def seed_row_def store_defs scanNamespace_def
        activate_conflict_def update_where_def rows_affected_def gate_open_def Let_def)
  show "\<not> gate_open twin_ledger" by (rule sys)
  obtain a b where t: "namespace_lifecycles twin_ledger = [a, b]"
      "row_namespace a = ''shop''" "row_generation a = 3" "row_state a = StateActive"
      "row_namespace b = ''shop_g2''" "row_generation b = 1" "row_state b = StateActive"
    using rows by (auto simp: map_eq_Cons_conv)
  then show "list_all (\<lambda>r. row_namespace r \<noteq> []) (namespace_lifecycles twin_ledger)"
    "phase twin_ledger ''shop'' = ActiveAt 3" "phase twin_ledger ''shop_g2'' = ActiveAt 1"
    by (simp_all add: phase_def)
  show "length (cleanup_rows twin_ledger) \<le> 50 * 1"
    using t by (simp add: cleanup_rows_def row_candidates_def)
qed

section \<open>Properties\<close>

text \<open>C10: A janitor pass, complete or interrupted by any failure, removes no Redis key and no
  collection of a generation the ledger has active or deleting, provided no namespace name ends
  in a generation suffix; and while the legacy gate is open it removes nothing at all.\<close>

theorem janitor_spares_current_generations:
  assumes "ledger_wf L" and "glob_prefix_law (ce_matches env)"
    and "list_all (\<lambda>r. plain_namespace (row_namespace r)) (namespace_lifecycles L)"
    and "phase L ns = ActiveAt g \<or> phase L ns = DeletingAt g"
    and "RunOnce env fsys flist L limit cur st = (out, cur', st')"
  shows "(owns_key ns g k \<longrightarrow> (k \<in> set (redis_keys st') \<longleftrightarrow> k \<in> set (redis_keys st)))
         \<and> (owns_collection ns g n \<longrightarrow> (n \<in> set (collections st') \<longleftrightarrow> n \<in> set (collections st)))
         \<and> (gate_open L \<longrightarrow> st' = st)"
proof -
  note sh = RunOnce_shrinks [OF assms(1,2,5)]
  have plain: "plain_namespace ms" if "phase L ms \<noteq> Absent" for ms
    using that assms(3) lookup_row_SomeD [of row_namespace "namespace_lifecycles L" ms]
    by (auto simp: phase_def list_all_iff split: option.splits)
  have other: "\<not> (cand_Namespace c = ns \<and> cand_Generation c = g)" if "superseded L c" for c
    using that assms(4) by (auto simp: superseded_def)
  have pl: "plain_namespace ns" "superseded L c \<Longrightarrow> plain_namespace (cand_Namespace c)" for c
    using plain [of ns] plain [of "cand_Namespace c"] assms(4)
    by (auto simp: superseded_def split: name_phase.splits)
  have "k \<in> set (redis_keys st')" if "owns_key ns g k" "k \<in> set (redis_keys st)"
    using sh that other pl owns_key_inject unfolding shrinks_by_def by blast
  moreover have "n \<in> set (collections st')" if "owns_collection ns g n" "n \<in> set (collections st)"
    using sh that other pl owns_collection_inject unfolding shrinks_by_def by blast
  moreover have "gate_open L \<Longrightarrow> st' = st"
    using assms(5) by (auto simp: RunOnce_def GetSystem_def gate_open_def Let_def split: if_splits option.splits)
  ultimately show ?thesis using sh unfolding shrinks_by_def by blast
qed

theorem janitor_spares_current_generations_witness:
  "let L = migrate_024 0 [(''shop'', 0, 0)]; st = \<lparr>redis_keys = [''trending:shop''], collections = [''shop_objects'']\<rparr>
   in owns_collection ''shop'' 1 ''shop_objects''
      \<and> snd (snd (RunOnce prefix_cleaner None None L 50 zero_candidate st)) = st"
proof -
  let ?L = "migrate_024 0 [(''shop'', 0, 0)]"
  let ?st = "\<lparr>redis_keys = [''trending:shop''], collections = [''shop_objects'']\<rparr>"
  have 1: "ledger_wf ?L" by (intro migrate_024_wf) simp
  have 2: "glob_prefix_law (ce_matches prefix_cleaner)"
    using prefix_cleaner_healthy by (simp add: cleaner_healthy_def)
  have 3: "list_all (\<lambda>r. plain_namespace (row_namespace r)) (namespace_lifecycles ?L)"
    by (simp add: migrate_024_def seed_row_def plain_namespace_def gen_suffixed_def is_digit_def)
  have 4: "phase ?L ''shop'' = ActiveAt 1 \<or> phase ?L ''shop'' = DeletingAt 1"
    by (simp add: phase_def migrate_024_def seed_row_def)
  obtain out cur' st' where 5: "RunOnce prefix_cleaner None None ?L 50 zero_candidate ?st = (out, cur', st')"
    by (metis prod.collapse)
  have "gate_open ?L" by (simp add: gate_open_def migrate_024_def)
  with janitor_spares_current_generations [OF 1 2 3 4 5, of "''trending:shop''" "''shop_objects''"] 5
  show ?thesis
    by (simp add: Let_def owns_collection_def qdrant_kinds_def PhysicalName_def QdrantNamespace_def)
qed

text \<open>C11: Bounded passes reclaim everything: once the gate is closed and the stores answer, running
  as many passes of 50 as the listing needs leaves nothing that belongs to a superseded
  generation, because each pass resumes where the last one stopped.\<close>

theorem janitor_passes_reclaim_all:
  assumes "ledger_wf L" and "list_all (\<lambda>r. row_namespace r \<noteq> []) (namespace_lifecycles L)"
    and "\<not> gate_open L" and "cleaner_healthy env" and "length (cleanup_rows L) \<le> 50 * k"
    and "cleanup_passes (replicate k (env, None, None, L)) gl zero_candidate st = (gl', cur', st')"
    and "superseded L c"
  shows "candidate_gone env c st'"
  by (rule passes_reclaim [OF assms])

theorem janitor_passes_reclaim_all_witness:
  "candidate_gone prefix_cleaner \<lparr>cand_Namespace = ''shop'', cand_Generation = 1\<rparr>
     (snd (snd (cleanup_passes (replicate 1 (prefix_cleaner, None, None, twin_ledger)) False zero_candidate
        \<lparr>redis_keys = [''trending:shop''], collections = [''shop_subjects'']\<rparr>)))"
proof -
  have "superseded twin_ledger \<lparr>cand_Namespace = ''shop'', cand_Generation = 1\<rparr>"
    by (simp add: superseded_def twin_ledger_facts)
  then show ?thesis
    using janitor_passes_reclaim_all
        [OF twin_ledger_facts(1,3,2) prefix_cleaner_healthy twin_ledger_facts(4)]
    by (metis prod.collapse)
qed

text \<open>C12: The same passes reach the wrong tenant when names are not restricted: if generation \<open>g\<close> of a
  namespace is superseded and another namespace carries the suffixed name and is active at
  generation 1, the live tenant loses every one of its collections.\<close>

theorem janitor_drops_live_twin:
  assumes "ledger_wf L" and "list_all (\<lambda>r. row_namespace r \<noteq> []) (namespace_lifecycles L)"
    and "\<not> gate_open L" and "cleaner_healthy env" and "ce_qdrant env"
    and "length (cleanup_rows L) \<le> 50 * k"
    and "cleanup_passes (replicate k (env, None, None, L)) gl zero_candidate st = (gl', cur', st')"
    and "superseded L \<lparr>cand_Namespace = ns, cand_Generation = g\<rparr>" and "2 \<le> g"
    and "phase L (QdrantNamespace ns g) = ActiveAt 1"
  shows "list_all (\<lambda>n. \<not> owns_collection (QdrantNamespace ns g) 1 n) (collections st')"
proof -
  have gone: "candidate_gone env \<lparr>cand_Namespace = ns, cand_Generation = g\<rparr> st'"
    by (rule passes_reclaim [OF assms(1-4,6-8)])
  have "ns \<noteq> []" using superseded_named [OF assms(2,8)] by simp
  then have "owns_collection (QdrantNamespace ns g) 1 n = owns_collection ns g n" for n
    using suffix_twin [of _ ns g] assms(9) by (auto simp: owns_collection_iff)
  with gone assms(5) show ?thesis by (simp add: candidate_gone_def list_all_iff)
qed

theorem janitor_drops_live_twin_witness:
  "phase twin_ledger ''shop_g2'' = ActiveAt 1 \<and>
   list_all (\<lambda>n. \<not> owns_collection ''shop_g2'' 1 n)
     (collections (snd (snd (cleanup_passes (replicate 1 (prefix_cleaner, None, None, twin_ledger)) False
        zero_candidate \<lparr>redis_keys = [], collections = [''shop_g2_objects'']\<rparr>))))"
proof -
  have s: "superseded twin_ledger \<lparr>cand_Namespace = ''shop'', cand_Generation = 2\<rparr>"
    by (simp add: superseded_def twin_ledger_facts)
  have q: "ce_qdrant prefix_cleaner" by (simp add: prefix_cleaner_def)
  have t: "QdrantNamespace ''shop'' 2 = ''shop_g2''"
    by (simp add: QdrantNamespace_def show_int_def show_nat.simps)
  obtain gl' cur' st' where p: "cleanup_passes (replicate 1 (prefix_cleaner, None, None, twin_ledger)) False
        zero_candidate \<lparr>redis_keys = [], collections = [''shop_g2_objects'']\<rparr> = (gl', cur', st')"
    by (metis prod.collapse)
  from janitor_drops_live_twin [OF twin_ledger_facts(1,3,2) prefix_cleaner_healthy q twin_ledger_facts(4) p s]
  show ?thesis unfolding p by (simp add: t twin_ledger_facts)
qed

end
