(* ===== verification/Admin_Lifecycle.thy ===== *)
theory Admin_Lifecycle
  imports Lifecycle_Service Lifecycle_Cleanup
begin

text \<open>
  Deleting a namespace and resetting the application (\<^verbatim>\<open>internal/admin/service.go\<close> and
  \<^verbatim>\<open>repository.go\<close>): the ledger transitions, the wipe of PostgreSQL, Redis and Qdrant, the
  verification that precedes the last transition, and every failure on the way. PostgreSQL's
  data tables are projected on their namespace column, which is all these statements read.
\<close>

section \<open>State and failures\<close>

record pg_data =
  pg_events :: "namespace list"
  pg_objects :: "namespace list"
  pg_catalog_items :: "namespace list"
  pg_batch_run_logs :: "namespace list"
  pg_catalog_backlog_samples :: "namespace list"
  pg_id_mappings :: "namespace list"
  pg_namespace_configs :: "namespace list"

record admin_world =
  aw_ledger :: ledger
  aw_pg :: pg_data
  aw_stores :: stores

text \<open>
  What an admin operation meets: whether a lifecycle coordinator is wired, the coordinator's and
  the cleaner's environments, the clock, and the failure of each statement of its own.
\<close>

record admin_env =
  ae_lifecycle :: bool
  ae_svc :: svc_env
  ae_clean :: cleaner_env
  ae_now :: time
  ae_config :: "go_error option"
  ae_start :: "namespace \<Rightarrow> go_error option"
  ae_complete :: "namespace \<Rightarrow> go_error option"
  ae_record :: "go_error option"
  ae_job :: "go_error option"
  ae_clear :: "go_error option"
  ae_verify :: "go_error option"
  ae_start_reset :: "go_error option"
  ae_complete_reset :: "go_error option"
  ae_list :: "go_error option"
  ae_flush :: "string list \<Rightarrow> go_error option"
  ae_list_collections :: "go_error option"

section \<open>Clearing one generation\<close>

definition ClearNamespaceData :: "go_error option \<Rightarrow> namespace \<Rightarrow> pg_data \<Rightarrow> (go_error + nat) \<times> pg_data" where
  "ClearNamespaceData fault ns d =
     (case fault of
        Some e \<Rightarrow> (Inl e, d)
      | None \<Rightarrow>
          (Inr (rows_affected (\<lambda>r. r = ns) (pg_events d)),
           \<lparr>pg_events = delete_where (\<lambda>r. r = ns) (pg_events d),
            pg_objects = delete_where (\<lambda>r. r = ns) (pg_objects d),
            pg_catalog_items = delete_where (\<lambda>r. r = ns) (pg_catalog_items d),
            pg_batch_run_logs = delete_where (\<lambda>r. r = ns) (pg_batch_run_logs d),
            pg_catalog_backlog_samples = delete_where (\<lambda>r. r = ns) (pg_catalog_backlog_samples d),
            pg_id_mappings = delete_where (\<lambda>r. r = ns) (pg_id_mappings d),
            pg_namespace_configs = delete_where (\<lambda>r. r = ns) (pg_namespace_configs d)\<rparr>))"

definition TruncateAllNamespaceData :: "go_error option \<Rightarrow> pg_data \<Rightarrow> (go_error + nat \<times> nat) \<times> pg_data" where
  "TruncateAllNamespaceData fault d =
     (case fault of
        Some e \<Rightarrow> (Inl e, d)
      | None \<Rightarrow>
          (Inr (length (pg_events d), length (pg_namespace_configs d)),
           \<lparr>pg_events = [], pg_objects = [], pg_catalog_items = [], pg_batch_run_logs = [],
            pg_catalog_backlog_samples = [], pg_id_mappings = [], pg_namespace_configs = []\<rparr>))"

text \<open>A panic of \<^verbatim>\<open>MustPhysicalName\<close> aborts the request; it is an error of its own here.\<close>

definition panic_error :: go_error where
  "panic_error = Failure ''panic''"

definition clearNamespaceRedisGeneration ::
  "cleaner_env \<Rightarrow> namespace \<Rightarrow> int \<Rightarrow> stores \<Rightarrow> (go_error + unit) \<times> stores" where
  "clearNamespaceRedisGeneration env ns g st =
     (case (MustPhysicalName KindTrending ns g, MustPhysicalName KindEmbedStream ns g,
            MustPhysicalName KindRecommendationCache ns g) of
        (Some trending, Some stream, Some cachePrefix) \<Rightarrow>
          (case ce_scan env of
             Some e \<Rightarrow> (Inl e, st)
           | None \<Rightarrow>
               let keys = [trending, stream] @ filter (ce_matches env (cachePrefix @ '':*'')) (redis_keys st)
               in case ce_del env of
                    Some e \<Rightarrow> (Inl e, st)
                  | None \<Rightarrow> (Inr (), st\<lparr>redis_keys := filter (\<lambda>k. k \<notin> set keys) (redis_keys st)\<rparr>))
      | _ \<Rightarrow> (Inl panic_error, st))"

fun clear_kinds ::
  "cleaner_env \<Rightarrow> namespace \<Rightarrow> int \<Rightarrow> PhysicalKind list \<Rightarrow> stores \<Rightarrow> (go_error + unit) \<times> stores" where
  "clear_kinds env ns g [] st = (Inr (), st)"
| "clear_kinds env ns g (kind # kinds) st =
     (case MustPhysicalName kind ns g of
        None \<Rightarrow> (Inl panic_error, st)
      | Some collection \<Rightarrow>
          (case ce_exists env collection of
             Some e \<Rightarrow> (Inl e, st)
           | None \<Rightarrow>
               if collection \<notin> set (collections st) then clear_kinds env ns g kinds st
               else case ce_drop env collection of
                      Some e \<Rightarrow> (Inl e, st)
                    | None \<Rightarrow> clear_kinds env ns g kinds
                        (st\<lparr>collections := filter (\<lambda>n. n \<noteq> collection) (collections st)\<rparr>)))"

definition clearNamespaceQdrantGeneration ::
  "cleaner_env \<Rightarrow> namespace \<Rightarrow> int \<Rightarrow> stores \<Rightarrow> (go_error + unit) \<times> stores" where
  "clearNamespaceQdrantGeneration env ns g st = clear_kinds env ns g qdrant_kinds st"

text \<open>A store step guarded by its client being configured.\<close>

definition when_client :: "bool \<Rightarrow> (stores \<Rightarrow> (go_error + unit) \<times> stores) \<Rightarrow> stores \<Rightarrow> (go_error + unit) \<times> stores" where
  "when_client present f st = (if present then f st else (Inr (), st))"

definition clearNamespaceEverywhereGeneration ::
  "admin_env \<Rightarrow> namespace \<Rightarrow> int \<Rightarrow> admin_world \<Rightarrow> (go_error + nat) \<times> admin_world" where
  "clearNamespaceEverywhereGeneration env ns g w =
     (case ClearNamespaceData (ae_clear env) ns (aw_pg w) of
        (Inl e, _) \<Rightarrow> (Inl e, w)
      | (Inr deleted, pg) \<Rightarrow>
          let w1 = w\<lparr>aw_pg := pg\<rparr>;
              (r1, st1) = when_client (ce_redis (ae_clean env))
                (clearNamespaceRedisGeneration (ae_clean env) ns g) (aw_stores w1);
              w2 = w1\<lparr>aw_stores := st1\<rparr>
          in case r1 of
               Inl e \<Rightarrow> (Inl e, w2)
             | Inr _ \<Rightarrow>
                 let (r2, st2) = when_client (ce_qdrant (ae_clean env))
                       (clearNamespaceQdrantGeneration (ae_clean env) ns g) (aw_stores w2);
                     w3 = w2\<lparr>aw_stores := st2\<rparr>
                 in case r2 of Inl e \<Rightarrow> (Inl e, w3) | Inr _ \<Rightarrow> (Inr deleted, w3))"

definition clearNamespaceEverywhere :: "admin_env \<Rightarrow> namespace \<Rightarrow> admin_world \<Rightarrow> (go_error + nat) \<times> admin_world" where
  "clearNamespaceEverywhere env ns w = clearNamespaceEverywhereGeneration env ns 1 w"

fun kinds_absent :: "cleaner_env \<Rightarrow> namespace \<Rightarrow> int \<Rightarrow> PhysicalKind list \<Rightarrow> stores \<Rightarrow> go_error + unit" where
  "kinds_absent env ns g [] st = Inr ()"
| "kinds_absent env ns g (kind # kinds) st =
     (case MustPhysicalName kind ns g of
        None \<Rightarrow> Inl panic_error
      | Some collection \<Rightarrow>
          (case ce_exists env collection of
             Some e \<Rightarrow> Inl e
           | None \<Rightarrow> if collection \<in> set (collections st) then Inl (Failure ''collection remains'')
                     else kinds_absent env ns g kinds st))"

definition verifyNamespaceAbsent :: "admin_env \<Rightarrow> namespace \<Rightarrow> int \<Rightarrow> admin_world \<Rightarrow> go_error + unit" where
  "verifyNamespaceAbsent env ns g w =
     (case ae_verify env of
        Some e \<Rightarrow> Inl e
      | None \<Rightarrow>
          if ns \<in> set (pg_namespace_configs (aw_pg w)) then Inl (Failure ''namespace config remains'')
          else
            let redis_check =
                  (if ce_redis (ae_clean env) then
                     (case (MustPhysicalName KindTrending ns g, MustPhysicalName KindEmbedStream ns g,
                            MustPhysicalName KindRecommendationCache ns g) of
                        (Some trending, Some stream, Some cachePrefix) \<Rightarrow>
                          (case ce_scan (ae_clean env) of
                             Some e \<Rightarrow> Inl e
                           | None \<Rightarrow>
                               if list_ex (\<lambda>k. k = trending \<or> k = stream) (redis_keys (aw_stores w))
                                  \<or> list_ex (ce_matches (ae_clean env) (cachePrefix @ '':*'')) (redis_keys (aw_stores w))
                               then Inl (Failure ''keys remain'') else Inr ())
                      | _ \<Rightarrow> Inl panic_error)
                   else Inr ())
            in case redis_check of
                 Inl e \<Rightarrow> Inl e
               | Inr _ \<Rightarrow> if ce_qdrant (ae_clean env)
                          then kinds_absent (ae_clean env) ns g qdrant_kinds (aw_stores w) else Inr ())"

definition deleteNamespaceGeneration ::
  "admin_env \<Rightarrow> namespace \<Rightarrow> int \<Rightarrow> admin_world \<Rightarrow> (go_error + nat) \<times> admin_world" where
  "deleteNamespaceGeneration env ns g w =
     (case ae_job env of
        Some e \<Rightarrow> (Inl e, w)
      | None \<Rightarrow>
          (case clearNamespaceEverywhereGeneration env ns g w of
             (Inl e, w1) \<Rightarrow> (Inl e, w1)
           | (Inr deleted, w1) \<Rightarrow>
               (case verifyNamespaceAbsent env ns g w1 of
                  Inl e \<Rightarrow> (Inl e, w1)
                | Inr _ \<Rightarrow> (Inr deleted, w1))))"

section \<open>Deleting a namespace\<close>

text \<open>\<^verbatim>\<open>recordLifecycleError\<close>: the note is best effort, its own failure is only logged.\<close>

definition record_namespace_error :: "admin_env \<Rightarrow> namespace \<Rightarrow> int \<Rightarrow> admin_world \<Rightarrow> admin_world" where
  "record_namespace_error env ns g w =
     w\<lparr>aw_ledger := snd (RecordNamespaceError (ae_record env) (ae_now env) ns g ''error'' (aw_ledger w))\<rparr>"

text \<open>The callback of \<^verbatim>\<open>DeleteNamespace\<close>; the response is the number of events deleted, if any.\<close>

definition delete_callback ::
  "admin_env \<Rightarrow> namespace \<Rightarrow> lctx \<Rightarrow> NamespaceLifecycle \<Rightarrow> admin_world \<Rightarrow> (go_error + nat option) \<times> admin_world" where
  "delete_callback env ns ctx current w =
     (if lc_State current = StateDeleted then (Inr None, w)
      else case StartDelete (ae_start env ns) (ae_now env) ns (aw_ledger w) of
             (Inl e, L1) \<Rightarrow> (Inl e, w\<lparr>aw_ledger := L1\<rparr>)
           | (Inr deleting, L1) \<Rightarrow>
               (case deleteNamespaceGeneration env ns (lc_Generation deleting) (w\<lparr>aw_ledger := L1\<rparr>) of
                  (Inl e, w2) \<Rightarrow> (Inl e, record_namespace_error env ns (lc_Generation deleting) w2)
                | (Inr deleted, w2) \<Rightarrow>
                    (case CompleteDelete (ae_complete env ns) (ae_now env) ns (lc_Generation deleting) (aw_ledger w2) of
                       (Inl e, L3) \<Rightarrow>
                         (Inl e, record_namespace_error env ns (lc_Generation deleting) (w2\<lparr>aw_ledger := L3\<rparr>))
                     | (Inr _, L3) \<Rightarrow> (Inr (Some deleted), w2\<lparr>aw_ledger := L3\<rparr>))))"

definition DeleteNamespace :: "admin_env \<Rightarrow> lctx \<Rightarrow> namespace \<Rightarrow> admin_world \<Rightarrow> (go_error + nat option) \<times> admin_world" where
  "DeleteNamespace env ctx ns w =
     (case ae_config env of
        Some e \<Rightarrow> (Inl e, w)
      | None \<Rightarrow>
          if ae_lifecycle env then
            (case fst (WithNamespaceExclusive (ae_svc env) aw_ledger ctx ns (delete_callback env ns) w) of
               (Inl ErrNamespaceNotFound, w') \<Rightarrow> (Inr None, w')
             | out \<Rightarrow> out)
          else
            (case ae_job env of
               Some e \<Rightarrow> (Inl e, w)
             | None \<Rightarrow>
                 (case clearNamespaceEverywhere env ns w of
                    (Inl e, w') \<Rightarrow> (Inl e, w')
                  | (Inr deleted, w') \<Rightarrow>
                      if ns \<notin> set (pg_namespace_configs (aw_pg w)) then (Inr None, w')
                      else (Inr (Some deleted), w'))))"

definition demoNamespace :: namespace where
  "demoNamespace = ''demo''"

definition DeleteDemoData :: "admin_env \<Rightarrow> admin_world \<Rightarrow> (go_error + nat) \<times> admin_world" where
  "DeleteDemoData env w = clearNamespaceEverywhere env demoNamespace w"

section \<open>Resetting the application\<close>

text \<open>
  Scanning one pattern: matching keys are collected and deleted in batches of 500; \<open>del\<close> is
  the failure of deleting a batch.
\<close>

fun flush_keys ::
  "(string list \<Rightarrow> go_error option) \<Rightarrow> string list \<Rightarrow> string list \<Rightarrow> stores \<Rightarrow> (go_error + unit) \<times> stores" where
  "flush_keys del [] batch st =
     (if batch = [] then (Inr (), st)
      else case del batch of
             Some e \<Rightarrow> (Inl e, st)
           | None \<Rightarrow> (Inr (), st\<lparr>redis_keys := filter (\<lambda>k. k \<notin> set batch) (redis_keys st)\<rparr>))"
| "flush_keys del (key # keys) batch st =
     (let batch' = batch @ [key]
      in if 500 \<le> length batch'
         then (case del batch' of
                 Some e \<Rightarrow> (Inl e, st)
               | None \<Rightarrow> flush_keys del keys []
                   (st\<lparr>redis_keys := filter (\<lambda>k. k \<notin> set batch') (redis_keys st)\<rparr>))
         else flush_keys del keys batch' st)"

fun flush_patterns ::
  "admin_env \<Rightarrow> string list \<Rightarrow> stores \<Rightarrow> (go_error + unit) \<times> stores" where
  "flush_patterns env [] st = (Inr (), st)"
| "flush_patterns env (pattern # patterns) st =
     (case ce_scan (ae_clean env) of
        Some e \<Rightarrow> (Inl e, st)
      | None \<Rightarrow>
          (case flush_keys (ae_flush env) (filter (ce_matches (ae_clean env) pattern) (redis_keys st)) [] st of
             (Inl e, st') \<Rightarrow> (Inl e, st')
           | (Inr _, st') \<Rightarrow> flush_patterns env patterns st'))"

definition flushAllNamespaceRedis :: "admin_env \<Rightarrow> stores \<Rightarrow> (go_error + unit) \<times> stores" where
  "flushAllNamespaceRedis env st = flush_patterns env [''trending:*'', ''catalog:embed:*'', ''rec:*''] st"

definition qdrantCollectionSuffixes :: "string list" where
  "qdrantCollectionSuffixes = [''_subjects_dense'', ''_objects_dense'', ''_subjects'', ''_objects'']"

fun flush_collections :: "cleaner_env \<Rightarrow> string list \<Rightarrow> stores \<Rightarrow> (go_error + unit) \<times> stores" where
  "flush_collections env [] st = (Inr (), st)"
| "flush_collections env (name # names) st =
     (if list_ex (\<lambda>suf. suffix suf name) qdrantCollectionSuffixes
      then (case ce_drop env name of
              Some e \<Rightarrow> (Inl e, st)
            | None \<Rightarrow> flush_collections env names
                (st\<lparr>collections := filter (\<lambda>n. n \<noteq> name) (collections st)\<rparr>))
      else flush_collections env names st)"

definition flushAllNamespaceQdrant :: "admin_env \<Rightarrow> stores \<Rightarrow> (go_error + unit) \<times> stores" where
  "flushAllNamespaceQdrant env st =
     (case ae_list_collections env of
        Some e \<Rightarrow> (Inl e, st)
      | None \<Rightarrow> flush_collections (ae_clean env) (collections st) st)"

definition reset_fail :: "admin_env \<Rightarrow> go_error \<Rightarrow> admin_world \<Rightarrow> (go_error + 'a) \<times> admin_world" where
  "reset_fail env e w =
     (Inl e, w\<lparr>aw_ledger := snd (RecordResetError (ae_record env) (ae_now env) ''error'' (aw_ledger w))\<rparr>)"

text \<open>The two loops over the lifecycles: fencing each name, then verifying and completing each.\<close>

fun fence_all ::
  "admin_env \<Rightarrow> NamespaceLifecycle list \<Rightarrow> ledger \<Rightarrow> (go_error + (namespace \<times> int) list) \<times> ledger" where
  "fence_all env [] L = (Inr [], L)"
| "fence_all env (lc # lcs) L =
     (case StartDelete (ae_start env (lc_Namespace lc)) (ae_now env) (lc_Namespace lc) L of
        (Inl e, L1) \<Rightarrow> (Inl e, L1)
      | (Inr deleting, L1) \<Rightarrow>
          (case fence_all env lcs L1 of
             (Inl e, L2) \<Rightarrow> (Inl e, L2)
           | (Inr rest, L2) \<Rightarrow> (Inr ((lc_Namespace lc, lc_Generation deleting) # rest), L2)))"

fun complete_all :: "admin_env \<Rightarrow> (namespace \<times> int) list \<Rightarrow> admin_world \<Rightarrow> (go_error + unit) \<times> admin_world" where
  "complete_all env [] w = (Inr (), w)"
| "complete_all env ((ns, g) # rest) w =
     (case verifyNamespaceAbsent env ns g w of
        Inl e \<Rightarrow> (Inl e, w)
      | Inr _ \<Rightarrow>
          (case CompleteDelete (ae_complete env ns) (ae_now env) ns g (aw_ledger w) of
             (Inl e, L1) \<Rightarrow> (Inl e, w\<lparr>aw_ledger := L1\<rparr>)
           | (Inr _, L1) \<Rightarrow> complete_all env rest (w\<lparr>aw_ledger := L1\<rparr>)))"

text \<open>The wipe of the three stores, as the callback composes it.\<close>

definition reset_wipe :: "admin_env \<Rightarrow> admin_world \<Rightarrow> (go_error + nat \<times> nat) \<times> admin_world" where
  "reset_wipe env w =
     (case TruncateAllNamespaceData (ae_clear env) (aw_pg w) of
        (Inl e, _) \<Rightarrow> (Inl e, w)
      | (Inr counts, pg) \<Rightarrow>
          let w1 = w\<lparr>aw_pg := pg\<rparr>;
              (r1, st1) = when_client (ce_redis (ae_clean env)) (flushAllNamespaceRedis env) (aw_stores w1);
              w2 = w1\<lparr>aw_stores := st1\<rparr>
          in case r1 of
               Inl e \<Rightarrow> (Inl e, w2)
             | Inr _ \<Rightarrow>
                 let (r2, st2) = when_client (ce_qdrant (ae_clean env)) (flushAllNamespaceQdrant env) (aw_stores w2);
                     w3 = w2\<lparr>aw_stores := st2\<rparr>
                 in case r2 of Inl e \<Rightarrow> (Inl e, w3) | Inr _ \<Rightarrow> (Inr counts, w3))"

text \<open>The callback after every name is fenced: compute lock, wipe, completion of each name, reopening.\<close>

definition reset_finish ::
  "admin_env \<Rightarrow> (namespace \<times> int) list \<Rightarrow> admin_world \<Rightarrow> (go_error + nat \<times> nat \<times> namespace list) \<times> admin_world" where
  "reset_finish env fenced w =
     (case ae_job env of
        Some e \<Rightarrow> reset_fail env e w
      | None \<Rightarrow>
          (case reset_wipe env w of
             (Inl e, w3) \<Rightarrow> reset_fail env e w3
           | (Inr (events, namespaces), w3) \<Rightarrow>
               (case complete_all env fenced w3 of
                  (Inl e, w4) \<Rightarrow> reset_fail env e w4
                | (Inr _, w4) \<Rightarrow>
                    (case CompleteReset (ae_complete_reset env) (ae_now env) (aw_ledger w4) of
                       (Inl e, L5) \<Rightarrow> reset_fail env e (w4\<lparr>aw_ledger := L5\<rparr>)
                     | (Inr _, L5) \<Rightarrow>
                         (Inr (namespaces, events, map fst fenced), w4\<lparr>aw_ledger := L5\<rparr>)))))"

definition reset_callback ::
  "admin_env \<Rightarrow> lctx \<Rightarrow> SystemLifecycle \<Rightarrow> admin_world \<Rightarrow> (go_error + nat \<times> nat \<times> namespace list) \<times> admin_world" where
  "reset_callback env ctx system w =
     (case StartReset (ae_start_reset env) (ae_now env) (aw_ledger w) of
        (Inl e, L1) \<Rightarrow> (Inl e, w\<lparr>aw_ledger := L1\<rparr>)
      | (Inr _, L1) \<Rightarrow>
          let w1 = w\<lparr>aw_ledger := L1\<rparr>
          in case ListNonDeleted (ae_list env) L1 of
               Inl e \<Rightarrow> reset_fail env e w1
             | Inr lifecycles \<Rightarrow>
                 (case fence_all env lifecycles L1 of
                    (Inl e, L2) \<Rightarrow> reset_fail env e (w1\<lparr>aw_ledger := L2\<rparr>)
                  | (Inr fenced, L2) \<Rightarrow> reset_finish env fenced (w1\<lparr>aw_ledger := L2\<rparr>)))"

definition ResetApp ::
  "admin_env \<Rightarrow> lctx \<Rightarrow> admin_world \<Rightarrow> (go_error + nat \<times> nat \<times> namespace list) \<times> admin_world" where
  "ResetApp env ctx w =
     (if ae_lifecycle env
      then fst (WithGlobalExclusive (ae_svc env) aw_ledger ctx (reset_callback env) w)
      else case ae_list env of
             Some e \<Rightarrow> (Inl e, w)
           | None \<Rightarrow>
               (case ae_job env of
                  Some e \<Rightarrow> (Inl e, w)
                | None \<Rightarrow>
                    (case reset_wipe env w of
                       (Inl e, w1) \<Rightarrow> (Inl e, w1)
                     | (Inr (events, namespaces), w1) \<Rightarrow>
                         (Inr (namespaces, events, sort (pg_namespace_configs (aw_pg w))), w1))))"

section \<open>The two cleaners agree\<close>

lemma MustPhysicalName_of: "PhysicalName k ns g = Inr n \<Longrightarrow> MustPhysicalName k ns g = Some n"
  by (simp add: MustPhysicalName_def)

lemma clear_redis_eq:
  assumes "ns \<noteq> []" and "1 \<le> g" and "ce_redis env"
  shows "clearNamespaceRedisGeneration env ns g st
         = DeleteRedisGeneration env \<lparr>cand_Namespace = ns, cand_Generation = g\<rparr> st"
proof -
  obtain t e p where n: "PhysicalName KindTrending ns g = Inr t"
      "PhysicalName KindEmbedStream ns g = Inr e" "PhysicalName KindRecommendationCache ns g = Inr p"
    using assms(1,2) by (metis physical_name_ok redis_kind.simps(1-3))
  then show ?thesis
    using assms(3)
    by (simp add: clearNamespaceRedisGeneration_def DeleteRedisGeneration_def ScanKeys_def DeleteKeys_def
        MustPhysicalName_of Let_def split: option.split)
qed

lemma clear_kinds_eq:
  assumes "ns \<noteq> []" and "1 \<le> g"
  shows "list_all qdrant_kind kinds \<Longrightarrow> clear_kinds env ns g kinds st = drop_kinds env ns g kinds st"
proof (induction kinds arbitrary: st)
  case (Cons k kinds)
  then obtain n where "PhysicalName k ns g = Inr n"
    using assms by (auto elim: physical_name_ok)
  with Cons show ?case by (simp add: MustPhysicalName_of split: option.split)
qed simp

lemma qdrant_kinds_kind [simp]: "list_all qdrant_kind qdrant_kinds"
  by (simp add: qdrant_kinds_def)

lemma clear_qdrant_eq:
  assumes "ns \<noteq> []" and "1 \<le> g" and "ce_qdrant env"
  shows "clearNamespaceQdrantGeneration env ns g st
         = DeleteQdrantGeneration env \<lparr>cand_Namespace = ns, cand_Generation = g\<rparr> st"
  using assms by (simp add: clearNamespaceQdrantGeneration_def DeleteQdrantGeneration_def clear_kinds_eq)

text \<open>The wipe of one generation never touches the ledger.\<close>

lemma clearEverywhere_ledger [simp]:
  "aw_ledger (snd (clearNamespaceEverywhereGeneration env ns g w)) = aw_ledger w"
  by (auto simp: clearNamespaceEverywhereGeneration_def Let_def split: prod.splits sum.splits)

lemma deleteGeneration_ledger [simp]: "aw_ledger (snd (deleteNamespaceGeneration env ns g w)) = aw_ledger w"
proof (cases "clearNamespaceEverywhereGeneration env ns g w")
  case (Pair r w1)
  with clearEverywhere_ledger [of env ns g w] show ?thesis
    by (cases r) (auto simp: deleteNamespaceGeneration_def split: option.splits sum.splits)
qed

lemma kinds_absent_ok:
  "kinds_absent env ns g kinds st = Inr u \<Longrightarrow> k \<in> set kinds \<Longrightarrow> PhysicalName k ns g = Inr n
   \<Longrightarrow> n \<notin> set (collections st)"
  by (induction kinds) (auto simp: MustPhysicalName_of split: option.splits if_splits)

text \<open>A verification that passes has seen the generation gone.\<close>

lemma verify_gone:
  assumes g: "glob_prefix_law (ce_matches (ae_clean env))"
    and v: "verifyNamespaceAbsent env ns g w = Inr u"
  shows "ns \<notin> set (pg_namespace_configs (aw_pg w))
         \<and> candidate_gone (ae_clean env) \<lparr>cand_Namespace = ns, cand_Generation = g\<rparr> (aw_stores w)"
proof -
  have cfg: "ns \<notin> set (pg_namespace_configs (aw_pg w))"
    using v by (auto simp: verifyNamespaceAbsent_def split: option.splits if_splits)
  have "\<not> owns_key ns g k" if "ce_redis (ae_clean env)" "k \<in> set (redis_keys (aw_stores w))" for k
  proof
    assume "owns_key ns g k"
    then show False
      using v that cache_pattern [OF g, of ns g]
      by (cases rule: owns_key_cases)
        (auto simp: verifyNamespaceAbsent_def MustPhysicalName_def Let_def list_ex_iff
          split: option.splits if_splits sum.splits)
  qed
  moreover have "\<not> owns_collection ns g n" if "ce_qdrant (ae_clean env)" "n \<in> set (collections (aw_stores w))" for n
  proof -
    have "kinds_absent (ae_clean env) ns g qdrant_kinds (aw_stores w) = Inr ()"
      using v that(1) by (auto simp: verifyNamespaceAbsent_def Let_def split: option.splits if_splits sum.splits)
    from kinds_absent_ok [OF this] that(2) show ?thesis by (auto simp: owns_collection_def list_ex_iff)
  qed
  ultimately show ?thesis using cfg by (simp add: candidate_gone_def)
qed

lemma deleteGeneration_verified:
  "deleteNamespaceGeneration env ns g w = (Inr n, w') \<Longrightarrow> verifyNamespaceAbsent env ns g w' = Inr ()"
  by (auto simp: deleteNamespaceGeneration_def split: option.splits prod.splits sum.splits)

section \<open>Deletion, step by step\<close>

lemma fault_StartDelete [simp]: "StartDelete (Some e) now ns L = (Inl e, L)"
  by (simp add: StartDelete_def)

lemma fault_CompleteDelete [simp]: "CompleteDelete (Some e) now ns g L = (Inl e, L)"
  by (simp add: CompleteDelete_def)

lemma record_namespace_error_simps [simp]:
  "phase (aw_ledger (record_namespace_error env ns g w)) ms = phase (aw_ledger w) ms"
  "aw_pg (record_namespace_error env ns g w) = aw_pg w"
  "aw_stores (record_namespace_error env ns g w) = aw_stores w"
  using apply_call_phase [of "CallRecordNamespaceError (ae_record env) (ae_now env) ns g ''error''" "aw_ledger w" ms]
  by (simp_all add: record_namespace_error_def)

text \<open>
  The three ways the callback can end on a name at generation \<open>g\<close>: not started, stopped with
  the name fenced, or finished with the name deleted and verified gone.
\<close>

lemma delete_callback_ends:
  assumes wf: "ledger_wf (aw_ledger w)"
    and glob: "glob_prefix_law (ce_matches (ae_clean env))"
    and ph: "phase (aw_ledger w) ns = ActiveAt g \<or> phase (aw_ledger w) ns = DeletingAt g"
    and cur: "lc_State current \<noteq> StateDeleted"
    and run: "delete_callback env ns ctx current w = (r, w')"
  shows "(\<forall>ms. ms \<noteq> ns \<longrightarrow> phase (aw_ledger w') ms = phase (aw_ledger w) ms) \<and>
    (w' = w \<and> \<not> is_ok r
     \<or> phase (aw_ledger w') ns = DeletingAt g \<and> \<not> is_ok r
     \<or> phase (aw_ledger w') ns = DeletedAt g \<and> (\<exists>n. r = Inr (Some n))
       \<and> ns \<notin> set (pg_namespace_configs (aw_pg w'))
       \<and> candidate_gone (ae_clean env) \<lparr>cand_Namespace = ns, cand_Generation = g\<rparr> (aw_stores w'))"
proof (cases "ae_start env ns")
  case (Some e)
  with run cur show ?thesis by (auto simp: delete_callback_def)
next
  case None
  let ?c = "CallStartDelete None (ae_now env) ns"
  let ?L1 = "apply_call ?c (aw_ledger w)"
  obtain lc where sd: "StartDelete None (ae_now env) ns (aw_ledger w) = (Inr lc, ?L1)" "lc_Generation lc = g"
    using StartDelete_ok [OF wf ph] by blast
  have wf1: "ledger_wf ?L1" by (rule apply_call_wf [OF wf])
  have ph1: "phase ?L1 ns = DeletingAt g"
    using ph by (auto simp: apply_call_phase simp del: apply_call.simps)
  have oth1: "phase ?L1 ms = phase (aw_ledger w) ms" if "ms \<noteq> ns" for ms
    using that by (simp add: apply_call_phase del: apply_call.simps)
  obtain r2 w2 where dg: "deleteNamespaceGeneration env ns g (w\<lparr>aw_ledger := ?L1\<rparr>) = (r2, w2)" by fastforce
  then have led2: "aw_ledger w2 = ?L1"
    using deleteGeneration_ledger [of env ns g "w\<lparr>aw_ledger := ?L1\<rparr>"] by simp
  show ?thesis
  proof (cases r2)
    case (Inl e)
    then have "r = Inl e" "w' = record_namespace_error env ns g w2"
      using run cur None sd dg by (auto simp: delete_callback_def simp del: apply_call.simps)
    with ph1 oth1 led2 show ?thesis by (simp del: apply_call.simps)
  next
    case (Inr n)
    show ?thesis
    proof (cases "ae_complete env ns")
      case (Some e)
      then have "r = Inl e" "w' = record_namespace_error env ns g w2"
        using run cur None sd dg Inr led2 by (auto simp: delete_callback_def simp del: apply_call.simps)
      with ph1 oth1 led2 show ?thesis by (simp del: apply_call.simps)
    next
      case fin: None
      let ?L3 = "apply_call (CallCompleteDelete None (ae_now env) ns g) ?L1"
      have out: "r = Inr (Some n)" "w' = w2\<lparr>aw_ledger := ?L3\<rparr>"
        using run cur None sd dg Inr led2 fin CompleteDelete_ok [OF wf1 ph1, of "ae_now env"]
        by (auto simp: delete_callback_def simp del: apply_call.simps)
      have "phase ?L3 ns = DeletedAt g"
        by (subst apply_call_phase) (simp only: spec_call.simps ph1 spec_CompleteDelete.simps if_True refl)
      moreover have "phase ?L3 ms = phase (aw_ledger w) ms" if "ms \<noteq> ns" for ms
        using that oth1 by (subst apply_call_phase) (simp del: apply_call.simps)
      ultimately show ?thesis
        using out verify_gone [OF glob deleteGeneration_verified [OF dg [unfolded Inr]]]
        by (simp del: apply_call.simps)
    qed
  qed
qed

lemma join_err_ok: "is_ok (join_err r errs) \<Longrightarrow> join_err r errs = r \<and> is_ok r"
  by (cases r; cases errs) auto

lemma exclusive_runs:
  assumes "fst (WithNamespaceExclusive env led ctx ns fn s) = (r, s')"
  shows "(s' = s \<and> \<not> is_ok r) \<or>
    (\<exists>ctx' lc r0. GetNamespace None ns (led s) = Inr lc \<and> sys_state (system_lifecycle (led s)) = SystemActive
        \<and> fn ctx' lc s = (r0, s') \<and> leased ctx' ns (lc_Generation lc) \<and> (is_ok r \<longrightarrow> r = r0))"
proof -
  obtain ra evs where a: "acquirePair (se_pairwise env) (se_locks env) ns LockExclusive = (ra, evs)" by fastforce
  show ?thesis
  proof (cases ra)
    case (Inl e)
    with assms a show ?thesis by (auto simp: WithNamespaceExclusive_def)
  next
    case (Inr p)
    obtain errs revs where rel: "releasePair (lf_unlock (se_locks env)) (snd p) (fst p) = (errs, revs)" by fastforce
    show ?thesis
    proof (cases "GetSystem (se_system env) (led s)")
      case (Inl e)
      with assms a Inr rel show ?thesis
        by (cases p) (auto simp: WithNamespaceExclusive_def)
    next
      case sys: (Inr sl)
      show ?thesis
      proof (cases "sl_State sl = SystemActive \<and> is_ok (GetNamespace (se_namespace env) ns (led s))")
        case False
        then show ?thesis using assms a Inr rel sys
          by (cases p; cases "GetNamespace (se_namespace env) ns (led s)")
            (auto simp: WithNamespaceExclusive_def split: if_splits)
      next
        case True
        then obtain lc where lc: "GetNamespace (se_namespace env) ns (led s) = Inr lc"
          by (auto simp: is_ok_iff)
        let ?ctx = "with_lease ctx ns (lc_Generation lc) LockExclusive"
        obtain r0 s0 where fn: "fn ?ctx lc s = (r0, s0)" by fastforce
        then have "s' = s0" "r = join_err r0 errs"
          using assms a Inr rel sys True lc by (cases p; auto simp: WithNamespaceExclusive_def)+
        moreover have "leased ?ctx ns (lc_Generation lc)"
          by (simp add: leased_def with_lease_def)
        moreover have "GetNamespace None ns (led s) = Inr lc"
          using lc GetNamespace_fault [OF lc] by simp
        moreover have "sys_state (system_lifecycle (led s)) = SystemActive"
          using sys True by (auto dest: GetSystem_state)
        ultimately show ?thesis using fn join_err_ok [of r0 errs] by metis
      qed
    qed
  qed
qed

section \<open>A healthy deletion succeeds\<close>

definition admin_healthy :: "admin_env \<Rightarrow> bool" where
  "admin_healthy env \<longleftrightarrow> ae_lifecycle env \<and> ae_svc env = healthy \<and> cleaner_healthy (ae_clean env)
     \<and> ae_config env = None \<and> ae_start env = (\<lambda>_. None) \<and> ae_complete env = (\<lambda>_. None)
     \<and> ae_job env = None \<and> ae_clear env = None \<and> ae_verify env = None \<and> ae_start_reset env = None
     \<and> ae_complete_reset env = None \<and> ae_list env = None \<and> ae_flush env = (\<lambda>_. None)
     \<and> ae_list_collections env = None"

lemma kinds_absent_healthy:
  assumes "cleaner_healthy env" and "ns \<noteq> []" and "1 \<le> g"
  shows "list_all qdrant_kind kinds \<Longrightarrow>
    (\<forall>k \<in> set kinds. \<forall>n. PhysicalName k ns g = Inr n \<longrightarrow> n \<notin> set (collections st))
    \<Longrightarrow> kinds_absent env ns g kinds st = Inr ()"
proof (induction kinds)
  case (Cons k kinds)
  then obtain n where "PhysicalName k ns g = Inr n"
    using assms(2,3) by (auto elim: physical_name_ok)
  with Cons assms(1) show ?case by (auto simp: MustPhysicalName_of cleaner_healthy_def)
qed simp

lemma verify_healthy:
  assumes h: "admin_healthy env" and nm: "ns \<noteq> []" "1 \<le> g"
    and cfg: "ns \<notin> set (pg_namespace_configs (aw_pg w))"
    and gone: "candidate_gone (ae_clean env) \<lparr>cand_Namespace = ns, cand_Generation = g\<rparr> (aw_stores w)"
  shows "verifyNamespaceAbsent env ns g w = Inr ()"
proof -
  have ch: "cleaner_healthy (ae_clean env)" and nv: "ae_verify env = None"
    using h by (auto simp: admin_healthy_def)
  then have glob: "glob_prefix_law (ce_matches (ae_clean env))" and sc: "ce_scan (ae_clean env) = None"
    by (auto simp: cleaner_healthy_def)
  obtain t e p where n: "PhysicalName KindTrending ns g = Inr t"
      "PhysicalName KindEmbedStream ns g = Inr e" "PhysicalName KindRecommendationCache ns g = Inr p"
    using nm by (metis physical_name_ok redis_kind.simps(1-3))
  have q: "kinds_absent (ae_clean env) ns g qdrant_kinds (aw_stores w) = Inr ()" if "ce_qdrant (ae_clean env)"
    using gone that by (intro kinds_absent_healthy [OF ch nm])
      (auto simp: candidate_gone_def owns_collection_def list_ex_iff)
  have "\<not> list_ex (\<lambda>k. k = t \<or> k = e) (redis_keys (aw_stores w))"
    "\<not> list_ex (ce_matches (ae_clean env) (p @ '':*'')) (redis_keys (aw_stores w))" if "ce_redis (ae_clean env)"
    using gone that cache_pattern [OF glob n(3)]
    by (auto simp: candidate_gone_def owns_key_def n list_ex_iff)
  with q cfg nv sc n show ?thesis
    by (simp add: verifyNamespaceAbsent_def MustPhysicalName_of Let_def)
qed

lemma clear_healthy:
  assumes h: "admin_healthy env" and nm: "ns \<noteq> []" "1 \<le> g"
  shows "\<exists>n w'. clearNamespaceEverywhereGeneration env ns g w = (Inr n, w')
      \<and> ns \<notin> set (pg_namespace_configs (aw_pg w'))
      \<and> candidate_gone (ae_clean env) \<lparr>cand_Namespace = ns, cand_Generation = g\<rparr> (aw_stores w')"
proof -
  let ?c = "\<lparr>cand_Namespace = ns, cand_Generation = g\<rparr>"
  let ?ce = "ae_clean env"
  have ch: "cleaner_healthy ?ce" and nc: "ae_clear env = None"
    using h by (auto simp: admin_healthy_def)
  then have glob: "glob_prefix_law (ce_matches ?ce)" by (auto simp: cleaner_healthy_def)
  let ?st = "aw_stores w"
  have "snd (fst (clean_page ?ce [?c] zero_candidate 0 ?st)) = None"
    using nm by (intro clean_page_healthy [OF ch]) simp
  then obtain st1 st2 where r: "DeleteRedisGeneration ?ce ?c ?st = (Inr (), st1)"
    and q: "DeleteQdrantGeneration ?ce ?c st1 = (Inr (), st2)"
    by (auto split: prod.splits sum.splits)
  have gone: "candidate_gone ?ce ?c st2" using clean_one [OF glob r q] by blast
  have r': "when_client (ce_redis ?ce) (clearNamespaceRedisGeneration ?ce ns g) ?st = (Inr (), st1)"
    using r clear_redis_eq [OF nm, of ?ce ?st]
    by (cases "ce_redis ?ce") (simp add: when_client_def, simp add: when_client_def DeleteRedisGeneration_def)
  have q': "when_client (ce_qdrant ?ce) (clearNamespaceQdrantGeneration ?ce ns g) st1 = (Inr (), st2)"
    using q clear_qdrant_eq [OF nm, of ?ce st1]
    by (cases "ce_qdrant ?ce") (simp add: when_client_def, simp add: when_client_def DeleteQdrantGeneration_def)
  show ?thesis
    using gone by (simp add: clearNamespaceEverywhereGeneration_def ClearNamespaceData_def nc r' q' Let_def
        delete_where_def)
qed

lemma deleteGeneration_healthy:
  assumes "admin_healthy env" and "ns \<noteq> []" and "1 \<le> g"
  shows "is_ok (fst (deleteNamespaceGeneration env ns g w))"
proof -
  obtain n w' where c: "clearNamespaceEverywhereGeneration env ns g w = (Inr n, w')"
    "ns \<notin> set (pg_namespace_configs (aw_pg w'))"
    "candidate_gone (ae_clean env) \<lparr>cand_Namespace = ns, cand_Generation = g\<rparr> (aw_stores w')"
    using clear_healthy [OF assms] by blast
  moreover have "ae_job env = None" using assms(1) by (simp add: admin_healthy_def)
  ultimately show ?thesis
    using verify_healthy [OF assms c(2,3)] by (simp add: deleteNamespaceGeneration_def)
qed

lemma acquirePair_healthy:
  "\<exists>g n evs. acquirePair True (se_locks healthy) ns mode = (Inr (g, n), evs)
     \<and> fst (releasePair (lf_unlock (se_locks healthy)) n g) = []"
  by (simp add: acquirePair_def AcquirePair_def healthy_def releasePair_def Release_def Let_def)

lemma exclusive_healthy:
  assumes "GetNamespace None ns (led s) = Inr lc" and "sys_state (system_lifecycle (led s)) = SystemActive"
  shows "fst (WithNamespaceExclusive healthy led ctx ns fn s)
         = fn (with_lease ctx ns (lc_Generation lc) LockExclusive) lc s"
proof -
  obtain g n evs revs where a: "acquirePair True (se_locks healthy) ns LockExclusive = (Inr (g, n), evs)"
      "releasePair (lf_unlock (se_locks healthy)) n g = ([], revs)"
    using acquirePair_healthy [of ns LockExclusive] by (metis eq_fst_iff)
  have e: "se_pairwise healthy" "se_system healthy = None" "se_namespace healthy = None"
    by (simp_all add: healthy_def)
  show ?thesis
    using assms a by (simp add: WithNamespaceExclusive_def e GetSystem_def Let_def split: prod.splits)
qed

section \<open>Reset, step by step\<close>

declare apply_call.simps [simp del]

definition deletable :: "ledger \<Rightarrow> namespace \<Rightarrow> bool" where
  "deletable L ns \<longleftrightarrow> (\<exists>g. phase L ns = ActiveAt g \<or> phase L ns = DeletingAt g)"

lemma deletable_StartDelete:
  "deletable (apply_call (CallStartDelete None now ns) L) ms \<longleftrightarrow> deletable L ms"
  unfolding deletable_def apply_call_phase by (cases "phase L ms") auto

lemma StartDelete_system:
  "sys_state (system_lifecycle (apply_call (CallStartDelete f now ns) L)) = sys_state (system_lifecycle L)"
  by (auto simp: apply_call.simps StartDelete_def Let_def split: option.splits)

lemma CompleteDelete_system:
  "sys_state (system_lifecycle (apply_call (CallCompleteDelete f now ns g) L)) = sys_state (system_lifecycle L)"
  by (auto simp: apply_call.simps CompleteDelete_def Let_def split: option.splits)

text \<open>Fencing: names only move from active to deleting, and on success every listed name has.\<close>

lemma fence_all_result:
  assumes "ledger_wf L" and "\<forall>lc \<in> set lcs. deletable L (lc_Namespace lc)"
    and "fence_all env lcs L = (r, L2)"
  shows "ledger_wf L2 \<and> sys_state (system_lifecycle L2) = sys_state (system_lifecycle L)
    \<and> (\<forall>ns. phase L2 ns = phase L ns \<or> (\<exists>g. phase L ns = ActiveAt g \<and> phase L2 ns = DeletingAt g))
    \<and> (\<forall>fenced. r = Inr fenced \<longrightarrow> map fst fenced = map lc_Namespace lcs
          \<and> (\<forall>(ns, g) \<in> set fenced. phase L2 ns = DeletingAt g))
    \<and> ((\<forall>ns. ae_start env ns = None) \<longrightarrow> is_ok r)"
  using assms
proof (induction lcs arbitrary: L r)
  case Nil
  then show ?case by auto
next
  case (Cons lc lcs)
  let ?ns = "lc_Namespace lc"
  show ?case
  proof (cases "ae_start env ?ns")
    case (Some e)
    with Cons.prems show ?thesis by auto
  next
    case None
    let ?L1 = "apply_call (CallStartDelete None (ae_now env) ?ns) L"
    obtain g where "phase L ?ns = ActiveAt g \<or> phase L ?ns = DeletingAt g"
      using Cons.prems(2) by (auto simp: deletable_def)
    with Cons.prems(1) obtain d where d: "StartDelete None (ae_now env) ?ns L = (Inr d, ?L1)"
        "lc_Generation d = g" and ph: "phase L ?ns = ActiveAt g \<or> phase L ?ns = DeletingAt g"
      using StartDelete_ok by blast
    obtain r1 L2' where f: "fence_all env lcs ?L1 = (r1, L2')" by fastforce
    have wf1: "ledger_wf ?L1" by (rule apply_call_wf [OF Cons.prems(1)])
    have del1: "\<forall>lc \<in> set lcs. deletable ?L1 (lc_Namespace lc)"
      using Cons.prems(2) deletable_StartDelete by auto
    have L2: "L2' = L2" and r: "r = (case r1 of Inl e \<Rightarrow> Inl e | Inr rest \<Rightarrow> Inr ((?ns, g) # rest))"
      using Cons.prems(3) None d f by (auto split: sum.splits)
    note IH = Cons.IH [OF wf1 del1 f [unfolded L2]]
    have ph1: "phase ?L1 ms = (if ms = ?ns then DeletingAt g else phase L ms)" for ms
      unfolding apply_call_phase using ph by auto
    have mv: "phase L2 ms = phase ?L1 ms \<or> (\<exists>g. phase ?L1 ms = ActiveAt g \<and> phase L2 ms = DeletingAt g)" for ms
      using IH by blast
    have here: "phase L2 ?ns = DeletingAt g" using mv [of ?ns] ph1 [of ?ns] by auto
    have "phase L2 ms = phase L ms \<or> (\<exists>g. phase L ms = ActiveAt g \<and> phase L2 ms = DeletingAt g)" for ms
      using mv [of ms] ph1 [of ms] here ph by (cases "ms = ?ns") auto
    with IH L2 r here StartDelete_system [of None "ae_now env" ?ns L] show ?thesis
      by (cases r1) simp_all
  qed
qed

text \<open>Completing: data and stores are left alone, names only move from deleting to deleted.\<close>

lemma complete_all_result:
  assumes "ledger_wf (aw_ledger w)" and "distinct (map fst fenced)"
    and "\<forall>(ns, g) \<in> set fenced. phase (aw_ledger w) ns = DeletingAt g"
    and "complete_all env fenced w = (r, w')"
  shows "ledger_wf (aw_ledger w') \<and> aw_pg w' = aw_pg w \<and> aw_stores w' = aw_stores w
    \<and> sys_state (system_lifecycle (aw_ledger w')) = sys_state (system_lifecycle (aw_ledger w))
    \<and> (\<forall>ns. phase (aw_ledger w') ns = phase (aw_ledger w) ns
          \<or> (\<exists>g. phase (aw_ledger w) ns = DeletingAt g \<and> phase (aw_ledger w') ns = DeletedAt g))
    \<and> (is_ok r \<longrightarrow> (\<forall>(ns, g) \<in> set fenced. phase (aw_ledger w') ns = DeletedAt g))"
  using assms
proof (induction fenced arbitrary: w)
  case Nil
  then show ?case by auto
next
  case (Cons p fenced)
  obtain ns g where p: "p = (ns, g)" by fastforce
  show ?case
  proof (cases "is_ok (verifyNamespaceAbsent env ns g w) \<and> ae_complete env ns = None")
    case False
    have "w' = w \<and> \<not> is_ok r"
    proof (cases "verifyNamespaceAbsent env ns g w")
      case (Inl e)
      have "r = Inl e \<and> w' = w" using Cons.prems(4) by (simp add: p Inl)
      then show ?thesis by simp
    next
      case (Inr u)
      with False obtain e where "ae_complete env ns = Some e" by auto
      with Inr have "r = Inl e \<and> w' = w" using Cons.prems(4) by (simp add: p)
      then show ?thesis by simp
    qed
    with Cons.prems show ?thesis by auto
  next
    case True
    let ?c = "CallCompleteDelete None (ae_now env) ns g"
    let ?w1 = "w\<lparr>aw_ledger := apply_call ?c (aw_ledger w)\<rparr>"
    have ph: "phase (aw_ledger w) ns = DeletingAt g" using Cons.prems(3) p by auto
    have ph1: "phase (aw_ledger ?w1) ms = (if ms = ns then DeletedAt g else phase (aw_ledger w) ms)" for ms
      using ph by (simp add: apply_call_phase)
    have wf1: "ledger_wf (aw_ledger ?w1)" using apply_call_wf [OF Cons.prems(1), of ?c] by simp
    have rec: "complete_all env fenced ?w1 = (r, w')"
      using True Cons.prems(4) p CompleteDelete_ok [OF Cons.prems(1) ph, of "ae_now env"]
      by (auto simp: is_ok_iff)
    have ns: "ns \<notin> fst ` set fenced" and dist: "distinct (map fst fenced)"
      using Cons.prems(2) p by auto
    have "phase (aw_ledger ?w1) ms = DeletingAt h" if "(ms, h) \<in> set fenced" for ms h
    proof -
      have "ms \<noteq> ns" using that ns by force
      moreover have "phase (aw_ledger w) ms = DeletingAt h" using Cons.prems(3) that by auto
      ultimately show ?thesis using ph1 [of ms] by simp
    qed
    then have "\<forall>(ms, h) \<in> set fenced. phase (aw_ledger ?w1) ms = DeletingAt h" by blast
    note IH = Cons.IH [OF wf1 dist this rec]
    have mv: "phase (aw_ledger w') ms = phase (aw_ledger ?w1) ms
        \<or> (\<exists>g. phase (aw_ledger ?w1) ms = DeletingAt g \<and> phase (aw_ledger w') ms = DeletedAt g)" for ms
      using IH by blast
    have here: "phase (aw_ledger w') ns = DeletedAt g" using mv [of ns] ph1 [of ns] by auto
    have "phase (aw_ledger w') ms = phase (aw_ledger w) ms
        \<or> (\<exists>g. phase (aw_ledger w) ms = DeletingAt g \<and> phase (aw_ledger w') ms = DeletedAt g)" for ms
      using mv [of ms] ph1 [of ms] here ph by (cases "ms = ns") auto
    with IH here p CompleteDelete_system [of None "ae_now env" ns g "aw_ledger w"] show ?thesis
      by (auto)
  qed
qed

definition pg_empty :: "pg_data \<Rightarrow> bool" where
  "pg_empty d \<longleftrightarrow> pg_events d = [] \<and> pg_objects d = [] \<and> pg_catalog_items d = [] \<and> pg_batch_run_logs d = []
     \<and> pg_catalog_backlog_samples d = [] \<and> pg_id_mappings d = [] \<and> pg_namespace_configs d = []"

lemma ListNonDeleted_names:
  assumes "ledger_wf L" and "ListNonDeleted f L = Inr lcs"
  shows "distinct (map lc_Namespace lcs) \<and> lc_Namespace ` set lcs = {ns. deletable L ns}"
proof -
  let ?t = "filter (\<lambda>r. row_state r \<noteq> StateDeleted) (sort_key row_namespace (namespace_lifecycles L))"
  have k: "keyed row_namespace (namespace_lifecycles L)" using assms(1) by (simp add: ledger_wf_def)
  have "lcs = map (\<lambda>r. projr (scanNamespace (Some r))) ?t"
    using assms(2) by (auto simp: ListNonDeleted_def split: option.splits)
  then have names: "map lc_Namespace lcs = map row_namespace ?t" by (simp add: scanNamespace_def)
  have "distinct (map row_namespace (sort_key row_namespace (namespace_lifecycles L)))"
    using k by (simp add: keyed_def distinct_map)
  then have "distinct (map row_namespace ?t)" by (simp add: distinct_map_filter)
  moreover have "row_namespace ` set ?t = {ns. deletable L ns}"
  proof (intro set_eqI iffI)
    fix ns assume "ns \<in> row_namespace ` set ?t"
    then obtain r where r: "r \<in> set (namespace_lifecycles L)" "row_state r \<noteq> StateDeleted" "ns = row_namespace r"
      by auto
    with lookup_row_mem [OF k r(1)] show "ns \<in> {ns. deletable L ns}"
      by (cases "row_state r") (auto simp: deletable_def phase_def)
  next
    fix ns assume "ns \<in> {ns. deletable L ns}"
    then obtain r where "row_of L ns = Some r" "row_state r \<noteq> StateDeleted"
      by (auto simp: deletable_def phase_def split: option.splits NamespaceState.splits)
    with lookup_row_SomeD [of row_namespace "namespace_lifecycles L" ns r]
    show "ns \<in> row_namespace ` set ?t" by auto
  qed
  ultimately show ?thesis using names by (metis list.set_map)
qed

lemma reset_wipe_facts:
  "reset_wipe env w = (r, w') \<Longrightarrow> aw_ledger w' = aw_ledger w \<and> (is_ok r \<longrightarrow> pg_empty (aw_pg w'))"
  by (auto simp: reset_wipe_def TruncateAllNamespaceData_def pg_empty_def Let_def
      split: option.splits prod.splits sum.splits)

lemma reset_fail_facts:
  assumes "reset_fail env e w = (r, w')"
  shows "\<not> is_ok r \<and> phase (aw_ledger w') ns = phase (aw_ledger w) ns
    \<and> sys_state (system_lifecycle (aw_ledger w')) = sys_state (system_lifecycle (aw_ledger w))
    \<and> aw_pg w' = aw_pg w \<and> aw_stores w' = aw_stores w"
  using assms apply_call_phase [of "CallRecordResetError (ae_record env) (ae_now env) ''error''" "aw_ledger w" ns]
  by (auto simp: reset_fail_def apply_call.simps RecordResetError_def split: option.splits)

text \<open>No name is writable: the state every wipe happens in.\<close>

definition all_fenced :: "ledger \<Rightarrow> bool" where
  "all_fenced L \<longleftrightarrow> (\<forall>ns g. phase L ns \<noteq> ActiveAt g)"

definition all_deleted :: "ledger \<Rightarrow> bool" where
  "all_deleted L \<longleftrightarrow> (\<forall>ns. \<not> deletable L ns)"

lemma reset_finish_ends:
  assumes wf: "ledger_wf (aw_ledger w)"
    and sys: "sys_state (system_lifecycle (aw_ledger w)) = SystemResetting"
    and dist: "distinct (map fst fenced)"
    and deling: "\<forall>(ns, g) \<in> set fenced. phase (aw_ledger w) ns = DeletingAt g"
    and only: "\<And>ns. deletable (aw_ledger w) ns \<Longrightarrow> ns \<in> fst ` set fenced"
    and run: "reset_finish env fenced w = (r, w')"
  shows "\<not> is_ok r \<and> sys_state (system_lifecycle (aw_ledger w')) = SystemResetting \<and> all_fenced (aw_ledger w')
    \<or> is_ok r \<and> sys_state (system_lifecycle (aw_ledger w')) = SystemActive
       \<and> all_deleted (aw_ledger w') \<and> pg_empty (aw_pg w')"
proof -
  have af: "all_fenced (aw_ledger w)"
    using only deling by (fastforce simp: all_fenced_def deletable_def)
  have failed: ?thesis if "reset_fail env e v = (r, w')" "all_fenced (aw_ledger v)"
    "sys_state (system_lifecycle (aw_ledger v)) = SystemResetting" for e v
    using reset_fail_facts [OF that(1)] that(2,3) by (simp add: all_fenced_def)
  show ?thesis
  proof (cases "ae_job env")
    case (Some e)
    with run have "reset_fail env e w = (r, w')" by (simp add: reset_finish_def)
    then show ?thesis using failed af sys by blast
  next
    case None
    obtain r3 w3 where wipe: "reset_wipe env w = (r3, w3)" by fastforce
    note facts = reset_wipe_facts [OF wipe]
    show ?thesis
    proof (cases r3)
      case (Inl e)
      with run None wipe have "reset_fail env e w3 = (r, w')" by (simp add: reset_finish_def)
      then show ?thesis using failed af sys facts by metis
    next
      case (Inr counts)
      obtain r4 w4 where c: "complete_all env fenced w3 = (r4, w4)" by fastforce
      have "ledger_wf (aw_ledger w3)" "\<forall>(ns, g) \<in> set fenced. phase (aw_ledger w3) ns = DeletingAt g"
        using facts wf deling by simp_all
      note comp = complete_all_result [OF this(1) dist this(2) c]
      have af4: "all_fenced (aw_ledger w4)" using comp af facts unfolding all_fenced_def by (metis name_phase.distinct(9))
      have sys4: "sys_state (system_lifecycle (aw_ledger w4)) = SystemResetting" using comp facts sys by simp
      show ?thesis
      proof (cases "is_ok r4 \<and> ae_complete_reset env = None")
        case False
        then have "\<exists>e. reset_fail env e w4 = (r, w')"
          using run None wipe Inr c by (cases r4; cases counts) (auto simp: reset_finish_def CompleteReset_def)
        then show ?thesis using failed af4 sys4 by blast
      next
        case True
        let ?L5 = "apply_call (CallCompleteReset None (ae_now env)) (aw_ledger w4)"
        have out: "is_ok r" "w' = w4\<lparr>aw_ledger := ?L5\<rparr>"
          using run None wipe Inr c True
          by (cases r4; cases counts; auto simp: reset_finish_def CompleteReset_def apply_call.simps)+
        have sys5: "sys_state (system_lifecycle ?L5) = SystemActive"
          using sys4 by (simp add: apply_call.simps CompleteReset_def)
        have "\<not> deletable ?L5 ns" for ns
        proof -
          have "phase ?L5 ns = phase (aw_ledger w4) ns" by (simp add: apply_call_phase)
          moreover have "\<not> deletable (aw_ledger w4) ns"
          proof
            assume d: "deletable (aw_ledger w4) ns"
            then have "deletable (aw_ledger w) ns"
              using comp facts unfolding deletable_def by (metis name_phase.distinct(11))
            with only obtain g where "(ns, g) \<in> set fenced" by fastforce
            with comp True have "phase (aw_ledger w4) ns = DeletedAt g" by auto
            with d show False by (auto simp: deletable_def)
          qed
          ultimately show ?thesis by (simp add: deletable_def)
        qed
        with out sys5 comp facts Inr show ?thesis by (auto simp: all_deleted_def)
      qed
    qed
  qed
qed

lemma reset_callback_ends:
  assumes wf: "ledger_wf (aw_ledger w)"
    and run: "reset_callback env ctx system w = (r, w')"
  shows "w' = w \<and> \<not> is_ok r
    \<or> \<not> is_ok r \<and> sys_state (system_lifecycle (aw_ledger w')) = SystemResetting
       \<and> (aw_pg w' = aw_pg w \<and> aw_stores w' = aw_stores w \<or> all_fenced (aw_ledger w'))
    \<or> is_ok r \<and> sys_state (system_lifecycle (aw_ledger w')) = SystemActive
       \<and> all_deleted (aw_ledger w') \<and> pg_empty (aw_pg w')"
proof (cases "ae_start_reset env")
  case (Some e)
  with run show ?thesis by (auto simp: reset_callback_def StartReset_def)
next
  case None
  let ?L1 = "apply_call (CallStartReset None (ae_now env)) (aw_ledger w)"
  let ?w1 = "w\<lparr>aw_ledger := ?L1\<rparr>"
  have sr: "StartReset (ae_start_reset env) (ae_now env) (aw_ledger w) = (Inr (), ?L1)"
    by (simp add: None StartReset_def apply_call.simps)
  have wf1: "ledger_wf ?L1" by (rule apply_call_wf [OF wf])
  have sys1: "sys_state (system_lifecycle ?L1) = SystemResetting"
    by (simp add: apply_call.simps StartReset_def)
  show ?thesis
  proof (cases "ListNonDeleted (ae_list env) ?L1")
    case (Inl e)
    with run sr have "reset_fail env e ?w1 = (r, w')" by (simp add: reset_callback_def)
    from reset_fail_facts [OF this] sys1 show ?thesis by simp
  next
    case (Inr lcs)
    note names = ListNonDeleted_names [OF wf1 Inr]
    obtain r2 L2 where f: "fence_all env lcs ?L1 = (r2, L2)" by fastforce
    have del: "\<forall>lc \<in> set lcs. deletable ?L1 (lc_Namespace lc)" using names by auto
    note fence = fence_all_result [OF wf1 del f]
    show ?thesis
    proof (cases r2)
      case (Inl e)
      with run sr Inr f have "reset_fail env e (?w1\<lparr>aw_ledger := L2\<rparr>) = (r, w')"
        by (simp add: reset_callback_def)
      from reset_fail_facts [OF this] fence sys1 show ?thesis by simp
    next
      case fenced: (Inr fn)
      have fst_fn: "map fst fn = map lc_Namespace lcs" and deling: "\<forall>(ns, g) \<in> set fn. phase L2 ns = DeletingAt g"
        using fence fenced by auto
      have only: "ns \<in> fst ` set fn" if "deletable L2 ns" for ns
      proof -
        have "deletable ?L1 ns" using that fence unfolding deletable_def by metis
        then show ?thesis using names fst_fn by (metis (mono_tags, lifting) image_set mem_Collect_eq)
      qed
      have "reset_finish env fn (?w1\<lparr>aw_ledger := L2\<rparr>) = (r, w')"
        using run sr Inr f fenced by (simp add: reset_callback_def)
      moreover have "ledger_wf L2" "sys_state (system_lifecycle L2) = SystemResetting" "distinct (map fst fn)"
        using fence sys1 fst_fn names by simp_all
      ultimately show ?thesis
        using reset_finish_ends [of "?w1\<lparr>aw_ledger := L2\<rparr>" fn env r w'] deling only by (simp, blast)
    qed
  qed
qed

lemma global_runs:
  assumes "fst (WithGlobalExclusive env led ctx fn s) = (r, s')"
  shows "(s' = s \<and> \<not> is_ok r) \<or>
    (\<exists>ctx' sl r0. fn ctx' sl s = (r0, s') \<and> ctx_global_exclusive ctx' \<and> (is_ok r \<longrightarrow> r = r0))"
proof -
  obtain ra evs where a: "Acquire (se_locks env) ''global'' LockExclusive = (ra, evs)" by fastforce
  show ?thesis
  proof (cases "is_ok ra \<and> is_ok (GetSystem (se_system env) (led s))")
    case False
    then show ?thesis
      using assms a by (cases ra; cases "GetSystem (se_system env) (led s)")
        (auto simp: WithGlobalExclusive_def Let_def split: prod.splits)
  next
    case True
    then obtain l sl where l: "ra = Inr l" "GetSystem (se_system env) (led s) = Inr sl"
      by (auto simp: is_ok_iff)
    obtain r0 s0 where fn: "fn (ctx\<lparr>ctx_global_exclusive := True\<rparr>) sl s = (r0, s0)" by fastforce
    then have "s' = s0" "r = join_err r0 (lk_err (fst (Release (lf_unlock (se_locks env)) l)))"
      using assms a l by (auto simp: WithGlobalExclusive_def Let_def split: prod.splits)
    with fn join_err_ok [of r0] show ?thesis
      by (intro disjI2 exI [of _ "ctx\<lparr>ctx_global_exclusive := True\<rparr>"]) auto
  qed
qed

lemma global_healthy:
  "\<exists>ctx' sl. fst (WithGlobalExclusive healthy led ctx fn s) = fn ctx' sl s"
proof -
  obtain sl where "GetSystem None (led s) = Inr sl" by (simp add: GetSystem_def Let_def)
  then have "fst (WithGlobalExclusive healthy led ctx fn s) = fn (ctx\<lparr>ctx_global_exclusive := True\<rparr>) sl s"
    by (simp add: WithGlobalExclusive_def healthy_def Acquire_def Release_def Let_def split: prod.splits)
  then show ?thesis by blast
qed

section \<open>A healthy reset succeeds\<close>

lemma flush_keys_healthy:
  "(\<And>b. del b = None) \<Longrightarrow> flush_keys del keys batch st
     = (Inr (), st\<lparr>redis_keys := filter (\<lambda>k. k \<notin> set batch \<and> k \<notin> set keys) (redis_keys st)\<rparr>)"
proof (induction del keys batch st rule: flush_keys.induct)
  case (1 del batch st)
  then show ?case by auto
next
  case (2 del key keys batch st)
  show ?case
  proof (cases "500 \<le> length (batch @ [key])")
    case True
    then show ?thesis using "2.IH"(1) [OF refl True] "2.prems"
      by (auto simp: Let_def intro!: arg_cong [where f = "\<lambda>k. st\<lparr>redis_keys := k\<rparr>"] filter_cong)
  next
    case False
    then show ?thesis using "2.IH"(2) [OF refl False] "2.prems"
      by (auto simp: Let_def intro!: arg_cong [where f = "\<lambda>k. st\<lparr>redis_keys := k\<rparr>"] filter_cong)
  qed
qed

lemma flush_patterns_healthy:
  assumes "ce_scan (ae_clean env) = None" and "\<And>b. ae_flush env b = None"
  shows "flush_patterns env pats st
    = (Inr (), st\<lparr>redis_keys := filter (\<lambda>k. \<not> list_ex (\<lambda>p. ce_matches (ae_clean env) p k) pats) (redis_keys st)\<rparr>)"
proof (induction pats arbitrary: st)
  case (Cons p pats)
  have "flush_keys (ae_flush env) (filter (ce_matches (ae_clean env) p) (redis_keys st)) [] st
    = (Inr (), st\<lparr>redis_keys := filter (\<lambda>k. \<not> ce_matches (ae_clean env) p k) (redis_keys st)\<rparr>)"
    unfolding flush_keys_healthy [of "ae_flush env", OF assms(2)]
    by (auto intro!: arg_cong [where f = "\<lambda>k. st\<lparr>redis_keys := k\<rparr>"] filter_cong)
  with assms(1) Cons.IH show ?case by simp
qed simp

lemma flush_collections_healthy:
  "ce_drop env = (\<lambda>_. None) \<Longrightarrow> \<exists>st'. flush_collections env names st = (Inr (), st') \<and> redis_keys st' = redis_keys st
     \<and> set (collections st') = {n \<in> set (collections st).
          \<not> (n \<in> set names \<and> list_ex (\<lambda>suf. suffix suf n) qdrantCollectionSuffixes)}"
proof (induction names arbitrary: st)
  case (Cons n names)
  show ?case
  proof (cases "list_ex (\<lambda>suf. suffix suf n) qdrantCollectionSuffixes")
    case True
    with Cons.IH [OF Cons.prems, of "st\<lparr>collections := filter (\<lambda>x. x \<noteq> n) (collections st)\<rparr>"] Cons.prems
    show ?thesis by auto
  next
    case False
    with Cons.IH [OF Cons.prems, of st] show ?thesis by auto
  qed
qed simp

lemma owned_key_pattern:
  assumes "owns_key ns g k"
  shows "prefix ''trending:'' k \<or> prefix ''catalog:embed:'' k \<or> prefix ''rec:'' k"
  using assms
proof (cases rule: owns_key_cases)
  case (cache p)
  with cache_prefix_cut [of ns g p k] show ?thesis by auto
qed (auto simp: PhysicalName_def Let_def split: if_splits)

lemma owned_collection_suffix:
  "owns_collection ns g n \<Longrightarrow> list_ex (\<lambda>suf. suffix suf n) qdrantCollectionSuffixes"
  by (auto simp: owns_collection_def qdrant_kinds_def qdrantCollectionSuffixes_def PhysicalName_def Let_def
      suffix_def split: if_splits)

lemma reset_wipe_healthy:
  assumes h: "admin_healthy env"
  shows "\<exists>counts w'. reset_wipe env w = (Inr counts, w')
    \<and> (\<forall>ns g. candidate_gone (ae_clean env) \<lparr>cand_Namespace = ns, cand_Generation = g\<rparr> (aw_stores w'))"
proof -
  let ?ce = "ae_clean env"
  have ch: "glob_prefix_law (ce_matches ?ce)" "ce_scan ?ce = None" "ce_drop ?ce = (\<lambda>_. None)"
    and ah: "\<And>b. ae_flush env b = None" "ae_clear env = None" "ae_list_collections env = None"
    using h by (auto simp: admin_healthy_def cleaner_healthy_def)
  let ?st = "aw_stores w"
  obtain st1 where s1: "when_client (ce_redis ?ce) (flushAllNamespaceRedis env) ?st = (Inr (), st1)"
      "collections st1 = collections ?st"
      "ce_redis ?ce \<Longrightarrow> \<forall>k \<in> set (redis_keys st1). \<not> owns_key ns g k" for ns g
  proof -
    have pat: "ce_matches ?ce (p @ ''*'') k = prefix p k"
      if "list_all (\<lambda>c. c \<notin> set ''*?['' \<and> c \<noteq> CHR 0x5C) p" for p k
      using ch(1) that by (auto simp: glob_prefix_law_def)
    have "list_ex (\<lambda>p. ce_matches ?ce p k) [''trending:*'', ''catalog:embed:*'', ''rec:*'']"
      if "owns_key ns g k" for ns g k
      using owned_key_pattern [OF that] pat [of "''trending:''" k] pat [of "''catalog:embed:''" k]
        pat [of "''rec:''" k] by auto
    then show ?thesis
      using that flush_patterns_healthy [OF ch(2) ah(1), of "[''trending:*'', ''catalog:embed:*'', ''rec:*'']" ?st]
      by (cases "ce_redis ?ce") (auto simp: when_client_def flushAllNamespaceRedis_def)
  qed
  obtain st2 where s2: "when_client (ce_qdrant ?ce) (flushAllNamespaceQdrant env) st1 = (Inr (), st2)"
      "redis_keys st2 = redis_keys st1"
      "ce_qdrant ?ce \<Longrightarrow> \<forall>n \<in> set (collections st2). \<not> owns_collection ns g n" for ns g
  proof -
    obtain st' where "flush_collections ?ce (collections st1) st1 = (Inr (), st')"
      "redis_keys st' = redis_keys st1"
      "set (collections st') = {n \<in> set (collections st1). \<not> (n \<in> set (collections st1)
          \<and> list_ex (\<lambda>suf. suffix suf n) qdrantCollectionSuffixes)}"
      using flush_collections_healthy [OF ch(3), of "collections st1" st1] by blast
    then show ?thesis
      using that owned_collection_suffix ah(3)
      by (cases "ce_qdrant ?ce") (auto simp: when_client_def flushAllNamespaceQdrant_def)
  qed
  show ?thesis
    using s1 s2 ah(2) by (auto simp: reset_wipe_def TruncateAllNamespaceData_def Let_def candidate_gone_def)
qed

lemma complete_all_healthy:
  assumes h: "admin_healthy env"
    and gone: "\<And>ns g. candidate_gone (ae_clean env) \<lparr>cand_Namespace = ns, cand_Generation = g\<rparr> (aw_stores w)"
    and pg: "pg_empty (aw_pg w)"
  shows "ledger_wf (aw_ledger w) \<Longrightarrow> distinct (map fst fenced)
    \<Longrightarrow> \<forall>(ns, g) \<in> set fenced. ns \<noteq> [] \<and> 1 \<le> g \<and> phase (aw_ledger w) ns = DeletingAt g
    \<Longrightarrow> is_ok (fst (complete_all env fenced w))"
  using gone pg
proof (induction fenced arbitrary: w)
  case (Cons p fenced)
  obtain ns g where p: "p = (ns, g)" by fastforce
  let ?L = "apply_call (CallCompleteDelete None (ae_now env) ns g) (aw_ledger w)"
  have ph: "phase (aw_ledger w) ns = DeletingAt g" and nm: "ns \<noteq> []" "1 \<le> g" using Cons.prems(3) p by auto
  have "verifyNamespaceAbsent env ns g w = Inr ()"
    using verify_healthy [OF h nm] Cons.prems(4,5) by (simp add: pg_empty_def)
  moreover have "ae_complete env ns = None" using h by (simp add: admin_healthy_def)
  ultimately have step: "complete_all env (p # fenced) w = complete_all env fenced (w\<lparr>aw_ledger := ?L\<rparr>)"
    using CompleteDelete_ok [OF Cons.prems(1) ph, of "ae_now env"] by (simp add: p)
  have "phase ?L ms = DeletingAt k" if "(ms, k) \<in> set fenced" for ms k
  proof -
    have "ms \<noteq> ns" using Cons.prems(2) that p by force
    then show ?thesis using Cons.prems(3) that by (auto simp: apply_call_phase)
  qed
  with Cons.prems have "is_ok (fst (complete_all env fenced (w\<lparr>aw_ledger := ?L\<rparr>)))"
    by (intro Cons.IH) (auto simp: apply_call_wf)
  with step show ?case by simp
qed simp

lemma reset_callback_healthy:
  assumes h: "admin_healthy env" and wf: "ledger_wf (aw_ledger w)"
    and named: "list_all (\<lambda>r. row_namespace r \<noteq> []) (namespace_lifecycles (aw_ledger w))"
  shows "is_ok (fst (reset_callback env ctx system w))"
proof -
  let ?L1 = "apply_call (CallStartReset None (ae_now env)) (aw_ledger w)"
  have sr: "StartReset (ae_start_reset env) (ae_now env) (aw_ledger w) = (Inr (), ?L1)"
    using h by (simp add: admin_healthy_def StartReset_def apply_call.simps)
  have wf1: "ledger_wf ?L1" by (rule apply_call_wf [OF wf])
  have "ae_list env = None" using h by (simp add: admin_healthy_def)
  then obtain lcs where ls: "ListNonDeleted (ae_list env) ?L1 = Inr lcs" by (simp add: ListNonDeleted_def)
  note names = ListNonDeleted_names [OF wf1 ls]
  obtain r2 L2 where f: "fence_all env lcs ?L1 = (r2, L2)" by fastforce
  have del: "\<forall>lc \<in> set lcs. deletable ?L1 (lc_Namespace lc)" using names by auto
  note fence = fence_all_result [OF wf1 del f]
  then obtain fn where fn: "r2 = Inr fn" using h by (auto simp: admin_healthy_def is_ok_iff)
  then have fst_fn: "map fst fn = map lc_Namespace lcs"
    and deling: "\<forall>(ns, g) \<in> set fn. phase L2 ns = DeletingAt g" and wf2: "ledger_wf L2"
    using fence by auto
  let ?w2 = "w\<lparr>aw_ledger := L2\<rparr>"
  obtain counts w3 where wipe: "reset_wipe env ?w2 = (Inr counts, w3)"
    and gone: "\<And>ns g. candidate_gone (ae_clean env) \<lparr>cand_Namespace = ns, cand_Generation = g\<rparr> (aw_stores w3)"
    using reset_wipe_healthy [OF h] by blast
  have led3: "aw_ledger w3 = L2" and pg: "pg_empty (aw_pg w3)" using reset_wipe_facts [OF wipe] by auto
  have ok: "ns \<noteq> [] \<and> 1 \<le> g \<and> phase (aw_ledger w3) ns = DeletingAt g" if m: "(ns, g) \<in> set fn" for ns g
  proof -
    have ph: "phase L2 ns = DeletingAt g" using deling m by auto
    then obtain r where r: "row_of L2 ns = Some r" "row_generation r = g"
      by (auto simp: phase_def split: option.splits NamespaceState.splits)
    then have "1 \<le> g" using wf2 lookup_row_SomeD [OF r(1)] by (auto simp: ledger_wf_def row_ok_def list_all_iff)
    moreover have "phase L2 ns = phase ?L1 ns \<or> (\<exists>g. phase ?L1 ns = ActiveAt g \<and> phase L2 ns = DeletingAt g)"
      using fence by blast
    then have "phase ?L1 ns \<noteq> Absent" using ph by auto
    then obtain r0 where "row_of (aw_ledger w) ns = Some r0" by (auto simp: apply_call_phase phase_Absent_iff)
    from lookup_row_SomeD [OF this] have "ns \<noteq> []" using named by (auto simp: list_all_iff)
    ultimately show ?thesis using ph led3 by simp
  qed
  have "is_ok (fst (complete_all env fn w3))"
    by (rule complete_all_healthy [OF h gone pg]) (use wf2 led3 names fst_fn ok in auto)
  then obtain u w4 where c: "complete_all env fn w3 = (Inr u, w4)" by (metis is_ok_iff prod.collapse)
  have "ae_job env = None" "ae_complete_reset env = None" using h by (auto simp: admin_healthy_def)
  then have "is_ok (fst (reset_finish env fn ?w2))"
    using wipe c by (cases counts) (simp add: reset_finish_def CompleteReset_def)
  then show ?thesis using sr ls f fn by (simp add: reset_callback_def)
qed

section \<open>A sample\<close>

definition sample_env :: admin_env where
  "sample_env = \<lparr>ae_lifecycle = True, ae_svc = healthy, ae_clean = prefix_cleaner, ae_now = 9, ae_config = None,
     ae_start = (\<lambda>_. None), ae_complete = (\<lambda>_. None), ae_record = None, ae_job = None, ae_clear = None,
     ae_verify = None, ae_start_reset = None, ae_complete_reset = None, ae_list = None,
     ae_flush = (\<lambda>_. None), ae_list_collections = None\<rparr>"

definition sample_world :: admin_world where
  "sample_world = \<lparr>aw_ledger = migrate_024 0 [(''demo'', 0, 0)],
     aw_pg = \<lparr>pg_events = [''demo'', ''other''], pg_objects = [], pg_catalog_items = [], pg_batch_run_logs = [],
       pg_catalog_backlog_samples = [], pg_id_mappings = [], pg_namespace_configs = [''demo'']\<rparr>,
     aw_stores = \<lparr>redis_keys = [''trending:demo''], collections = [''demo_objects'']\<rparr>\<rparr>"

lemma sample_env_healthy: "admin_healthy sample_env"
  by (simp add: admin_healthy_def sample_env_def prefix_cleaner_healthy)

lemma sample_world_facts:
  "ledger_wf (aw_ledger sample_world)"
  "sys_state (system_lifecycle (aw_ledger sample_world)) = SystemActive"
  "phase (aw_ledger sample_world) ''demo'' = ActiveAt 1 \<or> phase (aw_ledger sample_world) ''demo'' = DeletingAt 1"
  "list_all (\<lambda>r. row_namespace r \<noteq> []) (namespace_lifecycles (aw_ledger sample_world))"
  by (simp_all add: sample_world_def migrate_024_wf)
    (simp_all add: migrate_024_def phase_def seed_row_def)

section \<open>Properties\<close>



text \<open>C14: A deletion fences before it wipes and verifies before it finishes. However it ends, it has
  either changed nothing, or left the name durably deleting at its generation, or left it deleted
  with its configuration gone and nothing of the generation in Redis or Qdrant; a response with a
  count means the last, and no other name's phase moves.\<close>

theorem delete_fences_then_wipes_then_verifies:
  assumes "ledger_wf (aw_ledger w)" and "glob_prefix_law (ce_matches (ae_clean env))"
    and "ae_lifecycle env"
    and "phase (aw_ledger w) ns = ActiveAt g \<or> phase (aw_ledger w) ns = DeletingAt g"
    and "DeleteNamespace env ctx ns w = (r, w')"
  shows "(\<forall>ms. ms \<noteq> ns \<longrightarrow> phase (aw_ledger w') ms = phase (aw_ledger w) ms)
    \<and> (w' = w \<or> phase (aw_ledger w') ns = DeletingAt g
        \<or> phase (aw_ledger w') ns = DeletedAt g \<and> ns \<notin> set (pg_namespace_configs (aw_pg w'))
          \<and> candidate_gone (ae_clean env) \<lparr>cand_Namespace = ns, cand_Generation = g\<rparr> (aw_stores w'))
    \<and> (\<forall>n. r = Inr (Some n) \<longrightarrow> phase (aw_ledger w') ns = DeletedAt g)"
proof (cases "ae_config env")
  case (Some e)
  with assms(5) show ?thesis by (auto simp: DeleteNamespace_def)
next
  case None
  obtain r1 w1 where x: "fst (WithNamespaceExclusive (ae_svc env) aw_ledger ctx ns (delete_callback env ns) w) = (r1, w1)"
    by fastforce
  have w': "w' = w1" and r: "r = r1 \<or> r = Inr None \<and> \<not> is_ok r1"
    using assms(3,5) None x by (auto simp: DeleteNamespace_def split: sum.splits go_error.splits)
  from exclusive_runs [OF x] show ?thesis
  proof
    assume "w1 = w \<and> \<not> is_ok r1"
    with w' r show ?thesis by auto
  next
    assume "\<exists>ctx' lc r0. GetNamespace None ns (aw_ledger w) = Inr lc
        \<and> sys_state (system_lifecycle (aw_ledger w)) = SystemActive
        \<and> delete_callback env ns ctx' lc w = (r0, w1) \<and> leased ctx' ns (lc_Generation lc) \<and> (is_ok r1 \<longrightarrow> r1 = r0)"
    then obtain ctx' lc r0 where get: "GetNamespace None ns (aw_ledger w) = Inr lc"
      and cb: "delete_callback env ns ctx' lc w = (r0, w1)" and ok: "is_ok r1 \<longrightarrow> r1 = r0" by blast
    have "lc_State lc \<noteq> StateDeleted" using phase_of_get [OF get] assms(4) by (auto split: NamespaceState.splits)
    from delete_callback_ends [OF assms(1,2,4) this cb] w' r ok show ?thesis by auto
  qed
qed

lemma delete_healthy:
  assumes h: "admin_healthy env" and wf: "ledger_wf (aw_ledger w)"
    and sys: "sys_state (system_lifecycle (aw_ledger w)) = SystemActive" and nm: "ns \<noteq> []"
    and ph: "phase (aw_ledger w) ns = ActiveAt g \<or> phase (aw_ledger w) ns = DeletingAt g"
  shows "\<exists>n w'. DeleteNamespace env ctx ns w = (Inr (Some n), w') \<and> phase (aw_ledger w') ns = DeletedAt g"
proof -
  have "row_of (aw_ledger w) ns \<noteq> None" using ph by (auto simp: phase_def split: option.splits)
  then obtain r lc where r: "row_of (aw_ledger w) ns = Some r" and get: "GetNamespace None ns (aw_ledger w) = Inr lc"
    by (auto simp: GetNamespace_def scanNamespace_def)
  have cur: "lc_State lc \<noteq> StateDeleted" using phase_of_get [OF get] ph by (auto split: NamespaceState.splits)
  have g: "1 \<le> g"
    using wf lookup_row_SomeD [OF r] ph r
    by (auto simp: ledger_wf_def row_ok_def list_all_iff phase_def split: NamespaceState.splits)
  let ?ctx = "with_lease ctx ns (lc_Generation lc) LockExclusive"
  obtain r0 w0 where cb: "delete_callback env ns ?ctx lc w = (r0, w0)" by fastforce
  have h': "ae_svc env = healthy" "ae_config env = None" "ae_lifecycle env"
    "glob_prefix_law (ce_matches (ae_clean env))" "ae_start env ns = None" "ae_complete env ns = None"
    using h by (auto simp: admin_healthy_def cleaner_healthy_def)
  let ?L1 = "apply_call (CallStartDelete None (ae_now env) ns) (aw_ledger w)"
  obtain d where d: "StartDelete None (ae_now env) ns (aw_ledger w) = (Inr d, ?L1)" "lc_Generation d = g"
    using StartDelete_ok [OF wf ph] by blast
  obtain n w2 where dg: "deleteNamespaceGeneration env ns g (w\<lparr>aw_ledger := ?L1\<rparr>) = (Inr n, w2)"
    using deleteGeneration_healthy [OF h nm g] by (metis is_ok_iff prod.collapse)
  have led2: "aw_ledger w2 = ?L1"
    using deleteGeneration_ledger [of env ns g "w\<lparr>aw_ledger := ?L1\<rparr>"] dg by simp
  have "phase ?L1 ns = DeletingAt g" using ph by (auto simp: apply_call_phase)
  from CompleteDelete_ok [OF apply_call_wf [OF wf] this, of "ae_now env"]
  have "is_ok r0" using cb cur d dg led2 h'(5,6) by (auto simp: delete_callback_def)
  moreover have "DeleteNamespace env ctx ns w = (r0, w0)" if "is_ok r0"
    using exclusive_healthy [of ns aw_ledger w lc ctx "delete_callback env ns"] get sys cb h' that
    by (cases r0) (auto simp: DeleteNamespace_def)
  ultimately show ?thesis
    using delete_callback_ends [OF wf h'(4) ph cur cb] by auto
qed

theorem delete_fences_then_wipes_then_verifies_witness:
  "phase (aw_ledger (snd (DeleteNamespace sample_env background ''demo'' sample_world))) ''demo'' = DeletedAt 1
   \<and> ''demo'' \<notin> set (pg_namespace_configs (aw_pg (snd (DeleteNamespace sample_env background ''demo'' sample_world))))"
proof -
  obtain n w' where run: "DeleteNamespace sample_env background ''demo'' sample_world = (Inr (Some n), w')"
    and del: "phase (aw_ledger w') ''demo'' = DeletedAt 1"
    using delete_healthy [OF sample_env_healthy sample_world_facts(1,2) _ sample_world_facts(3)] by blast
  have "w' \<noteq> sample_world" using del sample_world_facts(3) by auto
  then show ?thesis
    using delete_fences_then_wipes_then_verifies [OF sample_world_facts(1) _ _ sample_world_facts(3) run] del
      sample_env_healthy
    unfolding run by (auto simp: admin_healthy_def cleaner_healthy_def)
qed

text \<open>C15: Deletion is resumable: from an active name, or from one left deleting by any earlier failure,
  a call that meets no failure completes the deletion at that generation.\<close>

theorem delete_resumes:
  assumes "admin_healthy env" and "ledger_wf (aw_ledger w)"
    and "sys_state (system_lifecycle (aw_ledger w)) = SystemActive" and "ns \<noteq> []"
    and "phase (aw_ledger w) ns = ActiveAt g \<or> phase (aw_ledger w) ns = DeletingAt g"
  shows "\<exists>n w'. DeleteNamespace env ctx ns w = (Inr (Some n), w') \<and> phase (aw_ledger w') ns = DeletedAt g"
  by (rule delete_healthy [OF assms])

theorem delete_resumes_witness:
  "\<exists>n w'. DeleteNamespace sample_env background ''demo'' sample_world = (Inr (Some n), w')
     \<and> phase (aw_ledger w') ''demo'' = DeletedAt 1"
  by (rule delete_resumes [OF sample_env_healthy sample_world_facts(1,2) _ sample_world_facts(3)]) simp

text \<open>C16: A reset wipes nothing while a name is writable and reopens the system only when every name
  is deleted and every data table empty: however it ends, it has changed nothing, or left the
  system durably resetting (with the data untouched or every name fenced), or finished.\<close>

theorem reset_never_reopens_early:
  assumes "ledger_wf (aw_ledger w)" and "ae_lifecycle env" and "ResetApp env ctx w = (r, w')"
  shows "w' = w
    \<or> sys_state (system_lifecycle (aw_ledger w')) = SystemResetting
       \<and> (aw_pg w' = aw_pg w \<and> aw_stores w' = aw_stores w \<or> all_fenced (aw_ledger w'))
    \<or> sys_state (system_lifecycle (aw_ledger w')) = SystemActive
       \<and> all_deleted (aw_ledger w') \<and> pg_empty (aw_pg w')"
proof -
  have "fst (WithGlobalExclusive (ae_svc env) aw_ledger ctx (reset_callback env) w) = (r, w')"
    using assms(2,3) by (simp add: ResetApp_def)
  from global_runs [OF this] show ?thesis
    using reset_callback_ends [OF assms(1)] by blast
qed

theorem reset_never_reopens_early_witness:
  "sys_state (system_lifecycle (aw_ledger (snd (ResetApp (sample_env\<lparr>ae_job := Some (Failure ''busy'')\<rparr>)
      background sample_world)))) = SystemResetting"
proof -
  let ?env = "sample_env\<lparr>ae_job := Some (Failure ''busy'')\<rparr>"
  let ?out = "ResetApp ?env background sample_world"
  have out: "snd ?out \<noteq> sample_world \<and> \<not> all_deleted (aw_ledger (snd ?out))"
    by (simp add: sample_env_def sample_world_def ResetApp_def WithGlobalExclusive_def healthy_def Acquire_def
        Release_def GetSystem_def reset_callback_def StartReset_def ListNonDeleted_def scanNamespace_def
        migrate_024_def seed_row_def StartDelete_def reset_finish_def reset_fail_def RecordResetError_def
        update_where_def all_deleted_def deletable_def phase_def Let_def null_string_def)
  have "ae_lifecycle ?env" by (simp add: sample_env_def)
  from reset_never_reopens_early [OF sample_world_facts(1) this, of background "fst ?out" "snd ?out"] out
  show ?thesis by auto
qed

text \<open>C17: Reset is resumable from every well-formed state, in particular from the one an earlier reset
  stopped in: a call that meets no failure succeeds, and then every name is deleted, the tables
  are empty and the system is open again.\<close>

theorem reset_resumes:
  assumes "admin_healthy env" and "ledger_wf (aw_ledger w)"
    and "list_all (\<lambda>r. row_namespace r \<noteq> []) (namespace_lifecycles (aw_ledger w))"
  shows "\<exists>v w'. ResetApp env ctx w = (Inr v, w') \<and> all_deleted (aw_ledger w') \<and> pg_empty (aw_pg w')
           \<and> sys_state (system_lifecycle (aw_ledger w')) = SystemActive"
proof -
  have "ae_lifecycle env" "ae_svc env = healthy" using assms(1) by (auto simp: admin_healthy_def)
  then obtain ctx' sl where run: "ResetApp env ctx w = reset_callback env ctx' sl w"
    using global_healthy [of aw_ledger ctx "reset_callback env" w] by (auto simp: ResetApp_def)
  obtain r w' where cb: "reset_callback env ctx' sl w = (r, w')" by fastforce
  have "is_ok r" using reset_callback_healthy [OF assms, of ctx' sl] cb by simp
  with reset_callback_ends [OF assms(2) cb] run cb show ?thesis by (auto simp: is_ok_iff)
qed

theorem reset_resumes_witness:
  "\<exists>v w'. ResetApp sample_env background sample_world = (Inr v, w') \<and> pg_empty (aw_pg w')"
  using reset_resumes [OF sample_env_healthy sample_world_facts(1), of background] sample_world_facts(4) by blast

text \<open>Removing the demo data addresses generation 1 only: on a demo namespace that is at a later
  generation it reports success and leaves every collection of that generation in place.\<close>

lemma demo_delete_misses_later_generations:
  assumes "2 \<le> g" and "glob_prefix_law (ce_matches (ae_clean env))"
    and "DeleteDemoData env w = (r, w')"
  shows "phase (aw_ledger w') demoNamespace = phase (aw_ledger w) demoNamespace
         \<and> (owns_collection demoNamespace g n \<longrightarrow>
              (n \<in> set (collections (aw_stores w')) \<longleftrightarrow> n \<in> set (collections (aw_stores w))))"
proof -
  have run: "clearNamespaceEverywhereGeneration env demoNamespace 1 w = (r, w')"
    using assms(3) by (simp add: DeleteDemoData_def clearNamespaceEverywhere_def)
  have led: "aw_ledger w' = aw_ledger w"
    using clearEverywhere_ledger [of env demoNamespace 1 w] run by simp
  have nm: "demoNamespace \<noteq> []" by (simp add: demoNamespace_def)
  let ?c = "\<lparr>cand_Namespace = demoNamespace, cand_Generation = 1\<rparr>"
  have r: "shrinks_by {?c} st (snd (when_client (ce_redis (ae_clean env))
      (clearNamespaceRedisGeneration (ae_clean env) demoNamespace 1) st))" for st
    using clear_redis_eq [OF nm, of 1 "ae_clean env" st] DeleteRedis_shrinks [OF assms(2), of ?c st]
    by (simp add: when_client_def)
  have q: "shrinks_by {?c} st (snd (when_client (ce_qdrant (ae_clean env))
      (clearNamespaceQdrantGeneration (ae_clean env) demoNamespace 1) st))" for st
    using clear_qdrant_eq [OF nm, of 1 "ae_clean env" st] DeleteQdrant_shrinks [of ?c st "ae_clean env"]
    by (simp add: when_client_def)
  have "shrinks_by {?c} (aw_stores w) (aw_stores w')"
    using run r [of "aw_stores w"] q shrinks_by_trans [of "{?c}" _ _ "{?c}"]
    by (fastforce simp: clearNamespaceEverywhereGeneration_def ClearNamespaceData_def Let_def
        split: option.splits prod.splits sum.splits)
  moreover have "plain_namespace demoNamespace"
    by (simp add: demoNamespace_def plain_namespace_def gen_suffixed_def is_digit_def)
  then have "\<not> owns_collection demoNamespace 1 n" if "owns_collection demoNamespace g n"
    using owns_collection_inject [OF that] assms(1) by auto
  ultimately show ?thesis using led by (auto simp: shrinks_by_def)
qed

end
