(* ===== verification/Lifecycle_Fence.thy ===== *)
theory Lifecycle_Fence
  imports Lifecycle_Service
begin

text \<open>
  Concurrent sessions over one ledger. Each session follows the protocol of
  \<^verbatim>\<open>service.go\<close>: the global lock before the namespace lock, the gate reads after both,
  mutation of the ledger only under the exclusive namespace lock or the exclusive global lock.
  The steps of different sessions interleave arbitrarily. Whether PostgreSQL grants an advisory
  lock is a parameter, of which only the documented exclusion is assumed. The theorem is that a
  writer's lease stays valid for as long as it is held.
\<close>

section \<open>Sessions\<close>

text \<open>
  Where a session stands: in \<^verbatim>\<open>acquirePair\<close>, between the two gate reads of \<^verbatim>\<open>WithWriter\<close>, in
  the callback of a writer, or holding the exclusive global lock.
\<close>

datatype session =
    Idle
  | HoldsGlobal namespace LockMode
  | HoldsPair namespace LockMode
  | GateRead namespace
  | Writing namespace int
  | HoldsGlobalExclusive

definition global_key :: "LockMode \<Rightarrow> heldKey" where
  "global_key mode = \<lparr>hk_key = lockKey ''global'', hk_mode = mode\<rparr>"

definition namespace_key :: "namespace \<Rightarrow> LockMode \<Rightarrow> heldKey" where
  "namespace_key ns mode = \<lparr>hk_key = lockKey (''namespace:'' @ ns), hk_mode = mode\<rparr>"

fun session_keys :: "session \<Rightarrow> heldKey set" where
  "session_keys Idle = {}"
| "session_keys (HoldsGlobal ns mode) = {global_key LockShared}"
| "session_keys (HoldsPair ns mode) = {global_key LockShared, namespace_key ns mode}"
| "session_keys (GateRead ns) = {global_key LockShared, namespace_key ns LockShared}"
| "session_keys (Writing ns g) = {global_key LockShared, namespace_key ns LockShared}"
| "session_keys HoldsGlobalExclusive = {global_key LockExclusive}"

record fence_state =
  fs_ledger :: ledger
  fs_sessions :: "nat \<Rightarrow> session"

definition others_hold :: "fence_state \<Rightarrow> nat \<Rightarrow> heldKey set" where
  "others_hold s i = (\<Union>j\<in>{j. j \<noteq> i}. session_keys (fs_sessions s j))"

text \<open>
  The documented behaviour of \<^verbatim>\<open>pg_advisory_lock\<close>: a lock is not granted while another
  session holds the same key, unless both are shared.
\<close>

definition advisory_exclusion :: "(heldKey set \<Rightarrow> heldKey \<Rightarrow> bool) \<Rightarrow> bool" where
  "advisory_exclusion grants \<longleftrightarrow>
     (\<forall>held want. grants held want \<longrightarrow>
        (\<forall>h\<in>held. hk_key h = hk_key want \<longrightarrow> hk_mode h = LockShared \<and> hk_mode want = LockShared))"

fun call_on_namespace :: "namespace \<Rightarrow> store_call \<Rightarrow> bool" where
  "call_on_namespace ns (CallActivate f now ms) = (ms = ns)"
| "call_on_namespace ns (CallStartDelete f now ms) = (ms = ns)"
| "call_on_namespace ns (CallCompleteDelete f now ms g) = (ms = ns)"
| "call_on_namespace ns (CallRecordNamespaceError f now ms g m) = (ms = ns)"
| "call_on_namespace ns c = False"

abbreviation set_session :: "fence_state \<Rightarrow> nat \<Rightarrow> session \<Rightarrow> fence_state" where
  "set_session s i p \<equiv> s\<lparr>fs_sessions := (fs_sessions s)(i := p)\<rparr>"

inductive fence_step ::
  "(heldKey set \<Rightarrow> heldKey \<Rightarrow> bool) \<Rightarrow> fence_state \<Rightarrow> fence_state \<Rightarrow> bool" for grants where
  take_global:
    "fs_sessions s i = Idle \<Longrightarrow> mode = LockShared \<or> mode = LockExclusive
     \<Longrightarrow> grants (others_hold s i) (global_key LockShared)
     \<Longrightarrow> fence_step grants s (set_session s i (HoldsGlobal ns mode))"
| take_namespace:
    "fs_sessions s i = HoldsGlobal ns mode \<Longrightarrow> grants (others_hold s i) (namespace_key ns mode)
     \<Longrightarrow> fence_step grants s (set_session s i (HoldsPair ns mode))"
| read_system:
    "fs_sessions s i = HoldsPair ns LockShared
     \<Longrightarrow> GetSystem None (fs_ledger s) = Inr system \<Longrightarrow> sl_State system = SystemActive
     \<Longrightarrow> fence_step grants s (set_session s i (GateRead ns))"
| read_namespace:
    "fs_sessions s i = GateRead ns
     \<Longrightarrow> GetNamespace None ns (fs_ledger s) = Inr lc \<Longrightarrow> lc_State lc = StateActive
     \<Longrightarrow> fence_step grants s (set_session s i (Writing ns (lc_Generation lc)))"
| exclusive_call:
    "fs_sessions s i = HoldsPair ns LockExclusive \<Longrightarrow> call_on_namespace ns c
     \<Longrightarrow> fence_step grants s (s\<lparr>fs_ledger := apply_call c (fs_ledger s)\<rparr>)"
| take_global_exclusive:
    "fs_sessions s i = Idle \<Longrightarrow> grants (others_hold s i) (global_key LockExclusive)
     \<Longrightarrow> fence_step grants s (set_session s i HoldsGlobalExclusive)"
| global_call:
    "fs_sessions s i = HoldsGlobalExclusive
     \<Longrightarrow> fence_step grants s (s\<lparr>fs_ledger := apply_call c (fs_ledger s)\<rparr>)"
| release:
    "fence_step grants s (set_session s i Idle)"

definition fence_init :: "ledger \<Rightarrow> fence_state" where
  "fence_init L = \<lparr>fs_ledger = L, fs_sessions = (\<lambda>_. Idle)\<rparr>"

section \<open>The invariant\<close>

definition keys_compatible :: "session \<Rightarrow> session \<Rightarrow> bool" where
  "keys_compatible p q \<longleftrightarrow>
     (\<forall>h\<in>session_keys p. \<forall>k\<in>session_keys q.
        hk_key h = hk_key k \<longrightarrow> hk_mode h = LockShared \<and> hk_mode k = LockShared)"

fun session_valid :: "ledger \<Rightarrow> session \<Rightarrow> bool" where
  "session_valid L (GateRead ns) = (sys_state (system_lifecycle L) = SystemActive)"
| "session_valid L (Writing ns g) =
     (sys_state (system_lifecycle L) = SystemActive \<and> phase L ns = ActiveAt g)"
| "session_valid L p = True"

definition fence_inv :: "fence_state \<Rightarrow> bool" where
  "fence_inv s \<longleftrightarrow>
     (\<forall>i j. i \<noteq> j \<longrightarrow> keys_compatible (fs_sessions s i) (fs_sessions s j))
     \<and> (\<forall>i. session_valid (fs_ledger s) (fs_sessions s i))"

lemma keys_compatible_sym: "keys_compatible p q \<Longrightarrow> keys_compatible q p"
  by (auto simp: keys_compatible_def)

text \<open>A step that changes one session to keys the others are compatible with.\<close>

lemma fence_inv_set_session:
  assumes "fence_inv s" and "session_valid (fs_ledger s) p"
    and "\<And>j. j \<noteq> i \<Longrightarrow> keys_compatible p (fs_sessions s j)"
  shows "fence_inv (set_session s i p)"
  using assms by (auto simp: fence_inv_def dest: keys_compatible_sym)

lemma grants_compatible:
  assumes "advisory_exclusion grants" and "grants (others_hold s i) k" and "j \<noteq> i"
  shows "\<forall>h\<in>session_keys (fs_sessions s j). hk_key h = hk_key k \<longrightarrow> hk_mode h = LockShared \<and> hk_mode k = LockShared"
  using assms by (auto simp: advisory_exclusion_def others_hold_def)

lemma call_on_namespace_system:
  "call_on_namespace ns c \<Longrightarrow> sys_state (system_lifecycle (apply_call c L)) = sys_state (system_lifecycle L)"
  by (cases c) (auto simp: store_defs scanNamespace_def Let_def split: option.splits)

lemma call_on_namespace_phase:
  "call_on_namespace ns c \<Longrightarrow> ms \<noteq> ns \<Longrightarrow> phase (apply_call c L) ms = phase L ms"
  unfolding apply_call_phase by (cases "(c, ms, phase L ms)" rule: spec_call.cases) auto

lemma fence_inv_ledger:
  assumes "fence_inv s" and "\<And>j. session_valid L (fs_sessions s j)"
  shows "fence_inv (s\<lparr>fs_ledger := L\<rparr>)"
  using assms by (simp add: fence_inv_def)

lemma exclusive_call_valid:
  assumes inv: "fence_inv s" and i: "fs_sessions s i = HoldsPair ns LockExclusive"
    and c: "call_on_namespace ns c"
  shows "session_valid (apply_call c (fs_ledger s)) (fs_sessions s j)"
proof (cases "fs_sessions s j")
  case (Writing ms g)
  then have "j \<noteq> i" using i by auto
  with inv have "keys_compatible (fs_sessions s j) (fs_sessions s i)"
    by (auto simp: fence_inv_def)
  with Writing i have "ms \<noteq> ns"
    by (auto simp: keys_compatible_def namespace_key_def)
  with inv c Writing show ?thesis
    using call_on_namespace_system [OF c] call_on_namespace_phase [OF c]
    by (metis fence_inv_def session_valid.simps(2))
next
  case (GateRead ms)
  with inv c show ?thesis
    using call_on_namespace_system [OF c] by (metis fence_inv_def session_valid.simps(1))
qed simp_all

lemma global_call_valid:
  assumes inv: "fence_inv s" and i: "fs_sessions s i = HoldsGlobalExclusive"
  shows "session_valid L (fs_sessions s j)"
proof (cases "j = i")
  case False
  with inv have "keys_compatible (fs_sessions s j) (fs_sessions s i)"
    by (auto simp: fence_inv_def)
  with i show ?thesis
    by (cases "fs_sessions s j") (auto simp: keys_compatible_def global_key_def)
qed (simp add: i)

lemma fence_step_inv:
  assumes "fence_step grants s s'" and "advisory_exclusion grants" and "fence_inv s"
  shows "fence_inv s'"
  using assms(1)
proof cases
  case (take_global i mode ns)
  with assms show ?thesis
    using grants_compatible [OF assms(2) take_global(4)]
    by (auto intro!: fence_inv_set_session simp: keys_compatible_def)
next
  case (take_namespace i ns mode)
  then have "keys_compatible (HoldsGlobal ns mode) (fs_sessions s j)" if "j \<noteq> i" for j
    using that assms(3) by (metis fence_inv_def)
  with take_namespace assms show ?thesis
    using grants_compatible [OF assms(2) take_namespace(3)]
    by (auto intro!: fence_inv_set_session simp: keys_compatible_def)
next
  case (read_system i ns system)
  then have "keys_compatible (GateRead ns) (fs_sessions s j)" if "j \<noteq> i" for j
    using that assms(3) by (metis fence_inv_def keys_compatible_def session_keys.simps(3,4))
  with read_system assms show ?thesis
    by (auto intro!: fence_inv_set_session dest!: GetSystem_state)
next
  case (read_namespace i ns lc)
  then have "keys_compatible (Writing ns (lc_Generation lc)) (fs_sessions s j)" if "j \<noteq> i" for j
    using that assms(3) by (metis fence_inv_def keys_compatible_def session_keys.simps(4,5))
  moreover have "sys_state (system_lifecycle (fs_ledger s)) = SystemActive"
    using assms(3) read_namespace(2) by (metis fence_inv_def session_valid.simps(1))
  ultimately show ?thesis
    using read_namespace assms by (auto intro!: fence_inv_set_session get_active_phase)
next
  case (exclusive_call i ns c)
  with assms(3) show ?thesis by (auto intro!: fence_inv_ledger exclusive_call_valid)
next
  case (take_global_exclusive i)
  with assms show ?thesis
    using grants_compatible [OF assms(2) take_global_exclusive(3)]
    by (auto intro!: fence_inv_set_session simp: keys_compatible_def)
next
  case (global_call i c)
  with assms(3) show ?thesis by (auto intro!: fence_inv_ledger global_call_valid)
next
  case (release i)
  with assms(3) show ?thesis by (auto intro!: fence_inv_set_session simp: keys_compatible_def)
qed

lemma fence_init_inv: "fence_inv (fence_init L)"
  by (simp add: fence_inv_def fence_init_def keys_compatible_def)

lemma fence_reach_inv:
  assumes "(fence_step grants)\<^sup>*\<^sup>* s s'" and "advisory_exclusion grants" and "fence_inv s"
  shows "fence_inv s'"
  using assms(1) by (induction rule: rtranclp_induct) (auto intro: fence_step_inv assms)

section \<open>Superseded generations\<close>

lemma superseded_rank:
  "superseded L c \<longleftrightarrow>
     1 \<le> cand_Generation c \<and> 3 * cand_Generation c + 2 \<le> phase_rank (phase L (cand_Namespace c))"
  by (auto simp: superseded_def split: name_phase.splits)

lemma fence_step_rank:
  "fence_step grants s s' \<Longrightarrow> phase_rank (phase (fs_ledger s) ns) \<le> phase_rank (phase (fs_ledger s') ns)"
proof (induction rule: fence_step.induct)
  case (exclusive_call s i ns' c)
  then show ?case using gens.run_rank_mono [of "fs_ledger s" ns "[c]"] by simp
next
  case (global_call s i c)
  then show ?case using gens.run_rank_mono [of "fs_ledger s" ns "[c]"] by simp
qed simp_all

lemma fence_reach_superseded:
  assumes "(fence_step grants)\<^sup>*\<^sup>* s s'" and "superseded (fs_ledger s) c"
  shows "superseded (fs_ledger s') c"
  using assms(1)
proof (induction rule: rtranclp_induct)
  case (step y z)
  with fence_step_rank [OF step(2), of "cand_Namespace c"] show ?case
    by (auto simp: superseded_rank)
qed (rule assms(2))

lemma pg_lock_rule_excludes:
  "advisory_exclusion (\<lambda>held want. \<forall>h\<in>held. hk_key h = hk_key want
     \<longrightarrow> hk_mode h = LockShared \<and> hk_mode want = LockShared)"
  by (simp add: advisory_exclusion_def)

lemma fence_init_others: "others_hold (set_session (fence_init L) i p) i = {}"
  by (auto simp: others_hold_def fence_init_def)

lemma fence_init_sessions [simp]:
  "fs_sessions (fence_init L) = (\<lambda>_. Idle)" "fs_ledger (fence_init L) = L" "others_hold (fence_init L) i = {}"
  by (auto simp: others_hold_def fence_init_def)

text \<open>A writer that meets no contention reaches its callback when the gates are open.\<close>

lemma lone_writer_reaches:
  assumes free: "\<And>k. grants {} k" and act: "phase L ns = ActiveAt g"
    and sys: "sys_state (system_lifecycle L) = SystemActive"
  shows "(fence_step grants)\<^sup>*\<^sup>* (fence_init L) (set_session (fence_init L) i (Writing ns g))"
proof -
  let ?s = "\<lambda>p. set_session (fence_init L) i p"
  have 1: "fence_step grants (fence_init L) (?s (HoldsGlobal ns LockShared))"
    by (rule take_global) (simp_all add: free)
  have 2: "fence_step grants (?s (HoldsGlobal ns LockShared)) (?s (HoldsPair ns LockShared))"
    using take_namespace [of "?s (HoldsGlobal ns LockShared)" i ns LockShared grants]
      free [of "namespace_key ns LockShared"] unfolding fence_init_others by simp
  obtain sl where sl: "GetSystem None L = Inr sl" by (simp add: GetSystem_def Let_def)
  then have 3: "fence_step grants (?s (HoldsPair ns LockShared)) (?s (GateRead ns))"
    using read_system [of "?s (HoldsPair ns LockShared)" i ns sl grants] sys
    by (auto dest: GetSystem_state)
  obtain lc where lc: "GetNamespace None ns L = Inr lc" "lc_State lc = StateActive" "lc_Generation lc = g"
    using act by (auto simp: phase_ActiveAt_iff GetNamespace_def scanNamespace_def)
  then have 4: "fence_step grants (?s (GateRead ns)) (?s (Writing ns g))"
    using read_namespace [of "?s (GateRead ns)" i ns lc grants] by simp
  from 1 2 3 4 show ?thesis by (meson converse_rtranclp_into_rtranclp rtranclp.rtrancl_refl)
qed

section \<open>Properties\<close>

text \<open>C8: Under any interleaving of writers, deletions, activations and resets, a session inside a
  writer's callback holds a lease that is still true: the ledger has the namespace active at the
  leased generation, the system is not resetting, and no session holds the namespace or the whole
  fleet exclusively.\<close>

theorem lease_valid_while_held:
  assumes "advisory_exclusion grants"
    and "(fence_step grants)\<^sup>*\<^sup>* (fence_init L) s"
    and "fs_sessions s i = Writing ns g"
  shows "phase (fs_ledger s) ns = ActiveAt g
         \<and> sys_state (system_lifecycle (fs_ledger s)) = SystemActive
         \<and> fs_sessions s j \<noteq> HoldsPair ns LockExclusive \<and> fs_sessions s j \<noteq> HoldsGlobalExclusive"
proof -
  have inv: "fence_inv s"
    by (rule fence_reach_inv [OF assms(2,1) fence_init_inv])
  then have "session_valid (fs_ledger s) (fs_sessions s i)" by (simp add: fence_inv_def)
  moreover have "keys_compatible (Writing ns g) (fs_sessions s j)" if "j \<noteq> i"
    using inv that assms(3) by (metis fence_inv_def)
  ultimately show ?thesis
    using assms(3) by (cases "j = i") (auto simp: keys_compatible_def global_key_def namespace_key_def)
qed

theorem lease_valid_while_held_witness:
  "let L = migrate_024 0 [(''shop'', 5, 5)];
       s = set_session (fence_init L) 3 (Writing ''shop'' 1)
   in phase (fs_ledger s) ''shop'' = ActiveAt 1 \<and> fs_sessions s 4 \<noteq> HoldsGlobalExclusive"
proof -
  let ?L = "migrate_024 0 [(''shop'', 5, 5)]"
  let ?g = "\<lambda>held want. \<forall>h\<in>held. hk_key h = hk_key want
     \<longrightarrow> hk_mode h = LockShared \<and> hk_mode want = LockShared"
  have "(fence_step ?g)\<^sup>*\<^sup>* (fence_init ?L) (set_session (fence_init ?L) 3 (Writing ''shop'' 1))"
    by (rule lone_writer_reaches) (simp_all add: phase_def migrate_024_def seed_row_def)
  from lease_valid_while_held [OF pg_lock_rule_excludes this, of 3 "''shop''" 1 4]
  show ?thesis by (simp add: Let_def)
qed

text \<open>C9: The cleanup pass takes no lock and needs none: a generation the ledger once listed as
  superseded stays superseded, and no writer holds a lease for it then or at any later time.\<close>

theorem cleanup_never_meets_a_writer:
  assumes "advisory_exclusion grants"
    and "(fence_step grants)\<^sup>*\<^sup>* (fence_init L) s" and "superseded (fs_ledger s) c"
    and "(fence_step grants)\<^sup>*\<^sup>* s s'"
  shows "superseded (fs_ledger s') c
         \<and> fs_sessions s' i \<noteq> Writing (cand_Namespace c) (cand_Generation c)"
proof
  show sup: "superseded (fs_ledger s') c"
    by (rule fence_reach_superseded [OF assms(4,3)])
  have "fence_inv s'"
    by (rule fence_reach_inv [OF _ assms(1) fence_init_inv])
      (rule rtranclp_trans [OF assms(2,4)])
  then have "session_valid (fs_ledger s') (fs_sessions s' i)" by (simp add: fence_inv_def)
  with sup show "fs_sessions s' i \<noteq> Writing (cand_Namespace c) (cand_Generation c)"
    by (auto simp: superseded_def)
qed

theorem cleanup_never_meets_a_writer_witness:
  "let L = fold apply_call [CallStartDelete None 6 ''shop'', CallCompleteDelete None 7 ''shop'' 1,
             CallActivate None 8 ''shop''] (migrate_024 0 [(''shop'', 5, 5)]);
       s = set_session (fence_init L) 3 (Writing ''shop'' 2)
   in superseded (fs_ledger s) \<lparr>cand_Namespace = ''shop'', cand_Generation = 1\<rparr>
      \<and> fs_sessions s 3 \<noteq> Writing ''shop'' 1"
proof -
  let ?L = "fold apply_call [CallStartDelete None 6 ''shop'', CallCompleteDelete None 7 ''shop'' 1,
             CallActivate None 8 ''shop''] (migrate_024 0 [(''shop'', 5, 5)])"
  let ?c = "\<lparr>cand_Namespace = ''shop'', cand_Generation = 1\<rparr>"
  let ?g = "\<lambda>held want. \<forall>h\<in>held. hk_key h = hk_key want
     \<longrightarrow> hk_mode h = LockShared \<and> hk_mode want = LockShared"
  have "phase (migrate_024 0 [(''shop'', 5, 5)]) ''shop'' = ActiveAt 1"
    by (simp add: phase_def migrate_024_def seed_row_def)
  then have ph: "phase ?L ''shop'' = ActiveAt 2" by (simp add: apply_call_phase del: apply_call.simps)
  have "sys_state (system_lifecycle ?L) = SystemActive"
    by (simp add: migrate_024_def store_defs scanNamespace_def seed_row_def Let_def)
  with ph have run: "(fence_step ?g)\<^sup>*\<^sup>* (fence_init ?L) (set_session (fence_init ?L) 3 (Writing ''shop'' 2))"
    by (intro lone_writer_reaches) simp_all
  have "superseded (fs_ledger (fence_init ?L)) ?c" using ph by (simp add: superseded_def del: fold.simps apply_call.simps)
  from cleanup_never_meets_a_writer [OF pg_lock_rule_excludes rtranclp.rtrancl_refl this run, of 3]
  show ?thesis by (simp add: Let_def del: fold.simps apply_call.simps)
qed

end
