(* ===== verification/Stream_Retention.thy ===== *)
theory Stream_Retention
  imports Codohue_Prelude
begin

text \<open>
  Trimming of the durable Redis streams (\<^verbatim>\<open>internal/infra/redis/retention.go\<close>): stream ids,
  the inspection of every consumer group, the frontier below which nothing is needed, and the
  exact trim. Redis is a parameter: the four commands a pass issues. What it documents about
  them is stated over a small model of a stream with its groups, in which the groups go on
  working between the commands of a pass.
\<close>

section \<open>Stream ids\<close>

type_synonym sid = "nat \<times> nat"

definition malformed :: "string \<Rightarrow> go_error" where
  "malformed sid = Failure (''malformed stream ID '' @ sid)"

definition parseStreamID :: "string \<Rightarrow> go_error + sid" where
  "parseStreamID sid =
     (case cut_at (CHR ''-'') sid of
        None \<Rightarrow> Inl (malformed sid)
      | Some (milliseconds, sequence) \<Rightarrow>
          if milliseconds = [] \<or> sequence = [] then Inl (malformed sid)
          else case parse_uint64 milliseconds of
                 None \<Rightarrow> Inl (malformed sid)
               | Some ms \<Rightarrow> (case parse_uint64 sequence of
                                None \<Rightarrow> Inl (malformed sid)
                              | Some seq \<Rightarrow> Inr (ms, seq)))"

definition compareStreamIDs :: "string \<Rightarrow> string \<Rightarrow> go_error + int" where
  "compareStreamIDs a b =
     (case parseStreamID a of
        Inl e \<Rightarrow> Inl e
      | Inr (aMS, aSeq) \<Rightarrow>
          (case parseStreamID b of
             Inl e \<Rightarrow> Inl e
           | Inr (bMS, bSeq) \<Rightarrow>
               if aMS < bMS \<or> aMS = bMS \<and> aSeq < bSeq then Inr (- 1)
               else if aMS = bMS \<and> aSeq = bSeq then Inr 0
               else Inr 1))"

text \<open>How Redis prints an id.\<close>

definition show_sid :: "sid \<Rightarrow> string" where
  "show_sid i = show_nat (fst i) @ ''-'' @ show_nat (snd i)"

definition sid_ok :: "sid \<Rightarrow> bool" where
  "sid_ok i \<longleftrightarrow> fst i < 2 ^ 64 \<and> snd i < 2 ^ 64"

section \<open>A pass\<close>

record StreamSpec =
  sp_Name :: string
  sp_Kind :: string
  sp_Namespace :: string
  sp_ExpectedGroups :: "string list"

record RetentionResult =
  rr_SafeFrontier :: string
  rr_Length :: int
  rr_Pending :: int
  rr_Undelivered :: int
  rr_UnexpectedGroups :: int
  rr_Trimmed :: int
  rr_DryRun :: bool

text \<open>\<^verbatim>\<open>RetentionError\<close>: the stage that failed closed, and the cause.\<close>

datatype RetentionError = RetentionError string go_error

record retentionGroup =
  rg_Name :: string
  rg_Pending :: int
  rg_LastDeliveredID :: string
  rg_Lag :: int

record retentionPending =
  rp_Count :: int
  rp_OldestID :: string

record retentionBackend =
  rb_Groups :: "string \<Rightarrow> go_error + retentionGroup list"
  rb_Pending :: "string \<Rightarrow> string \<Rightarrow> go_error + retentionPending"
  rb_Length :: "string \<Rightarrow> go_error + int"
  rb_TrimMinID :: "string \<Rightarrow> string \<Rightarrow> go_error + int"

text \<open>The candidate of one group: its oldest pending id, or the last id delivered to it.\<close>

definition group_candidate ::
  "retentionBackend \<Rightarrow> string \<Rightarrow> retentionGroup \<Rightarrow> RetentionError + string \<times> int" where
  "group_candidate be stream grp =
     (if rg_Pending grp < 0 then Inl (RetentionError ''frontier'' (Failure ''negative pending count''))
      else if rg_Pending grp > 0 then
        (case rb_Pending be stream (rg_Name grp) of
           Inl e \<Rightarrow> Inl (RetentionError ''pel'' e)
         | Inr pending \<Rightarrow>
             if rp_Count pending \<noteq> rg_Pending grp \<or> rp_Count pending \<le> 0 \<or> rp_OldestID pending = []
             then Inl (RetentionError ''frontier'' (Failure ''contradictory PEL summary''))
             else Inr (rp_OldestID pending, rp_Count pending))
      else Inr (rg_LastDeliveredID grp, 0))"

fun inspect_groups ::
  "retentionBackend \<Rightarrow> StreamSpec \<Rightarrow> retentionGroup list \<Rightarrow> string \<Rightarrow> RetentionResult
   \<Rightarrow> RetentionError + string \<times> RetentionResult" where
  "inspect_groups be spec [] frontier result = Inr (frontier, result)"
| "inspect_groups be spec (grp # groups) frontier result =
     (let result1 = (if rg_Name grp \<in> set (sp_ExpectedGroups spec) then result
                     else result\<lparr>rr_UnexpectedGroups := rr_UnexpectedGroups result + 1\<rparr>)
      in case group_candidate be (sp_Name spec) grp of
           Inl e \<Rightarrow> Inl e
         | Inr (candidate, count) \<Rightarrow>
             let result2 = result1\<lparr>rr_Pending := rr_Pending result1 + count\<rparr>;
                 result3 = (if rg_Lag grp > rr_Undelivered result2
                            then result2\<lparr>rr_Undelivered := rg_Lag grp\<rparr> else result2)
             in case parseStreamID candidate of
                  Inl e \<Rightarrow> Inl (RetentionError ''frontier'' e)
                | Inr _ \<Rightarrow>
                    if frontier = [] then inspect_groups be spec groups candidate result3
                    else (case compareStreamIDs candidate frontier of
                            Inl e \<Rightarrow> Inl (RetentionError ''frontier'' e)
                          | Inr cmp \<Rightarrow>
                              inspect_groups be spec groups (if cmp < 0 then candidate else frontier) result3))"

text \<open>
  \<^verbatim>\<open>RunOnce\<close>: the result, and the frontier of the trim command if the pass issued one. The
  gauges it sets are not modelled.
\<close>

definition Retention_RunOnce ::
  "retentionBackend \<Rightarrow> bool \<Rightarrow> StreamSpec \<Rightarrow> (RetentionError + RetentionResult) \<times> string option" where
  "Retention_RunOnce be dryRun spec =
     (let result = \<lparr>rr_SafeFrontier = [], rr_Length = 0, rr_Pending = 0, rr_Undelivered = 0,
            rr_UnexpectedGroups = 0, rr_Trimmed = 0, rr_DryRun = dryRun\<rparr>
      in if sp_Name spec = [] \<or> sp_Kind spec = [] \<or> sp_ExpectedGroups spec = []
         then (Inl (RetentionError ''groups'' (Failure ''spec'')), None)
         else case rb_Groups be (sp_Name spec) of
                Inl e \<Rightarrow> (Inl (RetentionError ''groups'' e), None)
              | Inr groups \<Rightarrow>
                  if groups = [] then (Inl (RetentionError ''groups'' (Failure ''no consumer groups'')), None)
                  else case inspect_groups be spec groups [] result of
                         Inl e \<Rightarrow> (Inl e, None)
                       | Inr (frontier, result1) \<Rightarrow>
                           if list_ex (\<lambda>g. g \<notin> rg_Name ` set groups) (sp_ExpectedGroups spec)
                           then (Inl (RetentionError ''groups'' (Failure ''expected group missing'')), None)
                           else case rb_Length be (sp_Name spec) of
                                  Inl e \<Rightarrow> (Inl (RetentionError ''length'' e), None)
                                | Inr len \<Rightarrow>
                                    let result2 = result1\<lparr>rr_SafeFrontier := frontier, rr_Length := len\<rparr>
                                    in if dryRun then (Inr result2, None)
                                       else case rb_TrimMinID be (sp_Name spec) frontier of
                                              Inl e \<Rightarrow> (Inl (RetentionError ''trim'' e), Some frontier)
                                            | Inr trimmed \<Rightarrow>
                                                (Inr (result2\<lparr>rr_Trimmed := trimmed\<rparr>), Some frontier))"

text \<open>One tick of \<^verbatim>\<open>RunRetentionLoop\<close>: a failed stream does not stop the ones after it.\<close>

definition retention_tick ::
  "retentionBackend \<Rightarrow> bool \<Rightarrow> go_error + StreamSpec list
   \<Rightarrow> ((RetentionError + RetentionResult) \<times> string option) list" where
  "retention_tick be dryRun provided =
     (case provided of Inl e \<Rightarrow> [] | Inr specs \<Rightarrow> map (Retention_RunOnce be dryRun) specs)"

section \<open>What Redis documents\<close>

record group_state =
  gs_last :: sid
  gs_pel :: "sid list"

record stream_state =
  ss_entries :: "sid list"
  ss_groups :: "(string \<times> group_state) list"

text \<open>
  The commands that change a stream between two commands of a pass: producers append larger
  ids, a group is delivered entries after its last one, and acknowledges some.
\<close>

inductive stream_step :: "stream_state \<Rightarrow> stream_state \<Rightarrow> bool" where
  xadd: "list_all (\<lambda>x. x < i) (ss_entries s) \<Longrightarrow> stream_step s (s\<lparr>ss_entries := ss_entries s @ [i]\<rparr>)"
| xreadgroup:
    "i < length (ss_groups s) \<Longrightarrow> ss_groups s ! i = (g, gs) \<Longrightarrow> list_all (\<lambda>x. gs_last gs < x) ids
     \<Longrightarrow> gs_last gs \<le> l \<Longrightarrow> list_all (\<lambda>x. x \<le> l) ids
     \<Longrightarrow> stream_step s (s\<lparr>ss_groups := (ss_groups s)[i := (g, \<lparr>gs_last = l, gs_pel = gs_pel gs @ ids\<rparr>)]\<rparr>)"
| xack:
    "i < length (ss_groups s) \<Longrightarrow> ss_groups s ! i = (g, gs)
     \<Longrightarrow> stream_step s (s\<lparr>ss_groups := (ss_groups s)[i := (g, gs\<lparr>gs_pel := filter (\<lambda>x. x \<notin> set ids) (gs_pel gs)\<rparr>)]\<rparr>)"

definition stream_wf :: "stream_state \<Rightarrow> bool" where
  "stream_wf s \<longleftrightarrow>
     distinct (map fst (ss_groups s)) \<and> list_all sid_ok (ss_entries s) \<and>
     list_all (\<lambda>(g, gs). sid_ok (gs_last gs) \<and> list_all (\<lambda>x. x \<le> gs_last gs \<and> sid_ok x) (gs_pel gs)) (ss_groups s)"

text \<open>\<^verbatim>\<open>XINFO GROUPS\<close> and \<^verbatim>\<open>XPENDING\<close> read on a state of the stream.\<close>

definition report_group :: "string \<times> group_state \<Rightarrow> retentionGroup \<Rightarrow> bool" where
  "report_group p r \<longleftrightarrow> rg_Name r = fst p \<and> rg_Pending r = int (length (gs_pel (snd p)))
     \<and> rg_LastDeliveredID r = show_sid (gs_last (snd p))"

definition reports_groups :: "retentionBackend \<Rightarrow> string \<Rightarrow> stream_state \<Rightarrow> bool" where
  "reports_groups be stream s \<longleftrightarrow>
     (\<exists>rs. rb_Groups be stream = Inr rs \<and> list_all2 report_group (ss_groups s) rs)"

definition reports_pending :: "retentionBackend \<Rightarrow> string \<Rightarrow> string \<Rightarrow> stream_state \<Rightarrow> bool" where
  "reports_pending be stream g s \<longleftrightarrow>
     (\<forall>p. rb_Pending be stream g = Inr p \<longrightarrow>
        (\<exists>gs. map_of (ss_groups s) g = Some gs \<and> rp_Count p = int (length (gs_pel gs))
           \<and> (gs_pel gs \<noteq> [] \<longrightarrow> rp_OldestID p = show_sid (Min (set (gs_pel gs))))))"

text \<open>\<^verbatim>\<open>XTRIM MINID\<close>: exactly the entries below the id go.\<close>

definition trim_min :: "sid \<Rightarrow> stream_state \<Rightarrow> stream_state" where
  "trim_min f s = s\<lparr>ss_entries := filter (\<lambda>x. f \<le> x) (ss_entries s)\<rparr>"

text \<open>An entry some group still needs: pending in it, or not yet delivered to it.\<close>

definition needed :: "stream_state \<Rightarrow> sid \<Rightarrow> bool" where
  "needed s x \<longleftrightarrow> x \<in> set (ss_entries s)
     \<and> list_ex (\<lambda>(g, gs). x \<in> set (gs_pel gs) \<or> gs_last gs < x) (ss_groups s)"

section \<open>Ids are ordered as pairs\<close>

lemma parseStreamID_show: "sid_ok i \<Longrightarrow> parseStreamID (show_sid i) = Inr i"
proof -
  assume ok: "sid_ok i"
  have "CHR ''-'' \<notin> set (show_nat n)" for n
    using show_nat_digits [of n] by (rule list_all_not_mem) (simp add: is_digit_def)
  then have "cut_at (CHR ''-'') (show_sid i) = Some (show_nat (fst i), show_nat (snd i))"
    by (simp add: show_sid_def cut_at_append)
  with ok show ?thesis
    by (simp add: parseStreamID_def parse_uint64_show_nat sid_ok_def)
qed

lemma parseStreamID_not_Nil: "parseStreamID c = Inr i \<Longrightarrow> c \<noteq> []"
  by (auto simp: parseStreamID_def)

lemma compareStreamIDs_order:
  "parseStreamID a = Inr x \<Longrightarrow> parseStreamID b = Inr y
   \<Longrightarrow> compareStreamIDs a b = Inr (if x < y then - 1 else if x = y then 0 else 1)"
  by (cases x; cases y) (auto simp: compareStreamIDs_def)

section \<open>The frontier is safe\<close>

declare split_paired_All [simp del] split_paired_Ex [simp del]

text \<open>Below \<open>f\<close>, a group has seen everything and acknowledged it.\<close>

definition done_below :: "group_state \<Rightarrow> sid \<Rightarrow> bool" where
  "done_below gs f \<longleftrightarrow> (\<forall>x. x < f \<longrightarrow> x \<notin> set (gs_pel gs) \<and> x \<le> gs_last gs)"

lemma done_below_mono: "done_below gs f \<Longrightarrow> f' \<le> f \<Longrightarrow> done_below gs f'"
  by (auto simp: done_below_def)

lemma stream_step_done:
  assumes "stream_step s s'"
  shows "map fst (ss_groups s') = map fst (ss_groups s)
    \<and> (\<forall>i < length (ss_groups s). done_below (snd (ss_groups s ! i)) f \<longrightarrow> done_below (snd (ss_groups s' ! i)) f)"
  using assms
proof cases
  case (xreadgroup i g gs ids l)
  have "map fst ((ss_groups s)[i := (g, x)]) = map fst (ss_groups s)" for x
    using xreadgroup(2,3) by (metis fst_conv list_update_id map_update)
  moreover have "done_below \<lparr>gs_last = l, gs_pel = gs_pel gs @ ids\<rparr> f" if "done_below gs f"
    using that xreadgroup(4,5) by (fastforce simp: done_below_def list_all_iff)
  ultimately show ?thesis using xreadgroup by (auto simp: nth_list_update)
next
  case (xack i g gs ids)
  have "map fst ((ss_groups s)[i := (g, x)]) = map fst (ss_groups s)" for x
    using xack(2,3) by (metis fst_conv list_update_id map_update)
  with xack show ?thesis by (auto simp: nth_list_update done_below_def)
qed simp

lemma stream_reach_done:
  assumes "stream_step\<^sup>*\<^sup>* s s'"
  shows "map fst (ss_groups s') = map fst (ss_groups s)
    \<and> (\<forall>i < length (ss_groups s). done_below (snd (ss_groups s ! i)) f \<longrightarrow> done_below (snd (ss_groups s' ! i)) f)"
  using assms
proof (induction rule: rtranclp_induct)
  case (step y z)
  have "length (ss_groups y) = length (ss_groups s)" using step.IH by (metis length_map)
  with step.IH stream_step_done [OF step.hyps(2), of f] show ?case by simp
qed simp

lemma stream_step_wf_names: "stream_step\<^sup>*\<^sup>* s s' \<Longrightarrow> map fst (ss_groups s') = map fst (ss_groups s)"
  using stream_reach_done by blast

text \<open>The frontier of an inspection is below every group's candidate.\<close>

lemma inspect_groups_frontier:
  assumes "inspect_groups be spec groups fr res = Inr (f, res')"
    and "fr = [] \<or> parseStreamID fr = Inr fr0"
    and "fr \<noteq> [] \<or> groups \<noteq> []"
  shows "\<exists>fid. parseStreamID f = Inr fid \<and> (fr \<noteq> [] \<longrightarrow> fid \<le> fr0)
    \<and> (\<forall>grp \<in> set groups. \<exists>c n cid. group_candidate be (sp_Name spec) grp = Inr (c, n)
          \<and> parseStreamID c = Inr cid \<and> fid \<le> cid)"
  using assms
proof (induction groups arbitrary: fr fr0 res)
  case Nil
  then show ?case by auto
next
  case (Cons grp groups)
  obtain c n where c: "group_candidate be (sp_Name spec) grp = Inr (c, n)"
    using Cons.prems(1) by (cases "group_candidate be (sp_Name spec) grp") (auto simp: Let_def)
  obtain cid where cid: "parseStreamID c = Inr cid"
    using Cons.prems(1) c by (cases "parseStreamID c") (auto simp: Let_def)
  note cn = parseStreamID_not_Nil [OF cid]
  show ?case
  proof (cases "fr = []")
    case True
    then obtain res3 where rec: "inspect_groups be spec groups c res3 = Inr (f, res')"
      using Cons.prems(1) c cid by (auto simp: Let_def)
    from Cons.IH [OF rec, of cid] cn cid obtain fid where
      "parseStreamID f = Inr fid" "fid \<le> cid"
      "\<forall>grp \<in> set groups. \<exists>c n cid. group_candidate be (sp_Name spec) grp = Inr (c, n)
          \<and> parseStreamID c = Inr cid \<and> fid \<le> cid" by blast
    with c cid True show ?thesis unfolding list.set by blast
  next
    case False
    then have fr: "parseStreamID fr = Inr fr0" using Cons.prems(2) by simp
    let ?m = "if cid < fr0 then c else fr"
    obtain res3 where rec: "inspect_groups be spec groups ?m res3 = Inr (f, res')"
      using Cons.prems(1) c cid False compareStreamIDs_order [OF cid fr]
      by (auto simp: Let_def split: if_splits)
    have m: "parseStreamID ?m = Inr (min cid fr0)" "?m \<noteq> []"
      using cid fr cn False by (auto simp: min_def)
    from Cons.IH [OF rec, of "min cid fr0"] m obtain fid where
      "parseStreamID f = Inr fid" "fid \<le> cid" "fid \<le> fr0"
      "\<forall>grp \<in> set groups. \<exists>c n cid. group_candidate be (sp_Name spec) grp = Inr (c, n)
          \<and> parseStreamID c = Inr cid \<and> fid \<le> cid" by auto
    with c cid show ?thesis unfolding list.set by blast
  qed
qed

lemma oldest_pending_done:
  assumes "gs_pel gs \<noteq> []" and "list_all (\<lambda>x. x \<le> gs_last gs \<and> sid_ok x) (gs_pel gs)"
  shows "done_below gs (Min (set (gs_pel gs))) \<and> sid_ok (Min (set (gs_pel gs)))"
proof -
  let ?m = "Min (set (gs_pel gs))"
  have "?m \<in> set (gs_pel gs)" using assms(1) by simp
  with assms(2) have "?m \<le> gs_last gs" "sid_ok ?m" by (auto simp: list_all_iff)
  moreover have "x \<notin> set (gs_pel gs)" if "x < ?m" for x
    using that by (meson Min_le List.finite_set leD)
  ultimately show ?thesis by (auto simp: done_below_def)
qed

text \<open>
  Every group is done below its candidate when the trim runs, although the group list, each
  pending summary and the trim see the stream at different moments.
\<close>

lemma candidate_done:
  assumes wf0: "stream_wf s0" and wfp: "stream_wf (sp (rg_Name r))"
    and rep: "report_group (ss_groups s0 ! i) r" and i: "i < length (ss_groups s0)"
    and pend: "reports_pending be stream (rg_Name r) (sp (rg_Name r))"
    and reach: "stream_step\<^sup>*\<^sup>* s0 (sp (rg_Name r))" "stream_step\<^sup>*\<^sup>* (sp (rg_Name r)) st"
    and cand: "group_candidate be stream r = Inr (c, n)" and cid: "parseStreamID c = Inr cid"
  shows "done_below (snd (ss_groups st ! i)) cid"
proof -
  let ?g = "rg_Name r"
  let ?s = "sp ?g"
  obtain gs0 where g0: "ss_groups s0 ! i = (?g, gs0)" "rg_Pending r = int (length (gs_pel gs0))"
      "rg_LastDeliveredID r = show_sid (gs_last gs0)"
    using rep by (cases "ss_groups s0 ! i") (auto simp: report_group_def)
  have names: "map fst (ss_groups ?s) = map fst (ss_groups s0)" by (rule stream_step_wf_names [OF reach(1)])
  then have len: "length (ss_groups ?s) = length (ss_groups s0)" by (metis length_map)
  have "done_below (snd (ss_groups ?s ! i)) cid"
  proof (cases "rg_Pending r = 0")
    case True
    have "(?g, gs0) \<in> set (ss_groups s0)" using g0(1) i by (metis nth_mem)
    with wf0 have "sid_ok (gs_last gs0)" by (auto simp: stream_wf_def list_all_iff)
    moreover have "c = show_sid (gs_last gs0)"
      using True cand g0(3) by (simp add: group_candidate_def)
    ultimately have "cid = gs_last gs0" using cid by (simp add: parseStreamID_show)
    then have "done_below (snd (ss_groups s0 ! i)) cid"
      using True g0 by (auto simp: done_below_def)
    then show ?thesis using stream_reach_done [OF reach(1), of cid] i by blast
  next
    case False
    then have "rg_Pending r > 0" using g0(2) by simp
    then obtain p where p: "rb_Pending be stream ?g = Inr p" "rp_Count p > 0" "c = rp_OldestID p"
      using cand by (auto simp: group_candidate_def split: sum.splits if_splits)
    then obtain gs where gs: "map_of (ss_groups ?s) ?g = Some gs" "gs_pel gs \<noteq> []"
        "c = show_sid (Min (set (gs_pel gs)))"
      using pend by (force simp: reports_pending_def)
    have mem: "(?g, gs) \<in> set (ss_groups ?s)" using gs(1) by (rule map_of_SomeD)
    have "fst (ss_groups ?s ! i) = ?g" using names g0(1) i len by (metis fst_conv nth_map)
    moreover have "distinct (map fst (ss_groups ?s))" using wfp by (simp add: stream_wf_def)
    ultimately have at: "ss_groups ?s ! i = (?g, gs)"
      using mem i len by (metis eq_key_imp_eq_value nth_mem prod.collapse)
    from mem wfp have "list_all (\<lambda>x. x \<le> gs_last gs \<and> sid_ok x) (gs_pel gs)"
      by (auto simp: stream_wf_def list_all_iff)
    from oldest_pending_done [OF gs(2) this] gs(3) cid at show ?thesis
      by (simp add: parseStreamID_show)
  qed
  then show ?thesis using stream_reach_done [OF reach(2), of cid] i len by simp
qed

lemma RunOnce_trim_frontier:
  assumes "Retention_RunOnce be dryRun spec = (r, Some f)"
  shows "\<not> dryRun \<and> (\<exists>groups fid. rb_Groups be (sp_Name spec) = Inr groups \<and> groups \<noteq> []
    \<and> set (sp_ExpectedGroups spec) \<subseteq> rg_Name ` set groups \<and> parseStreamID f = Inr fid
    \<and> (\<forall>grp \<in> set groups. \<exists>c n cid. group_candidate be (sp_Name spec) grp = Inr (c, n)
          \<and> parseStreamID c = Inr cid \<and> fid \<le> cid))"
proof -
  obtain groups where g: "rb_Groups be (sp_Name spec) = Inr groups" "groups \<noteq> []"
    using assms by (auto simp: Retention_RunOnce_def Let_def split: if_splits sum.splits)
  let ?res = "\<lparr>rr_SafeFrontier = [], rr_Length = 0, rr_Pending = 0, rr_Undelivered = 0,
            rr_UnexpectedGroups = 0, rr_Trimmed = 0, rr_DryRun = dryRun\<rparr>"
  obtain f' res' where ins: "inspect_groups be spec groups [] ?res = Inr (f', res')"
    using assms g by (cases "inspect_groups be spec groups [] ?res")
      (auto simp: Retention_RunOnce_def Let_def split: if_splits)
  have rest: "f' = f" "\<not> dryRun" "set (sp_ExpectedGroups spec) \<subseteq> rg_Name ` set groups"
    using assms g ins by (auto simp: Retention_RunOnce_def Let_def list_ex_iff split: if_splits sum.splits)
  from inspect_groups_frontier [OF ins] g rest show ?thesis by auto
qed

section \<open>Properties\<close>

text \<open>C18: A retention pass never trims an entry a consumer group still needs. If the commands of a
  pass report the stream truthfully at the moments they run, with producers and groups working in
  between, then every entry that is pending in some group, or not yet delivered to it, survives
  the trim; and the pass trims only when it is not a dry run and every expected group exists.\<close>

theorem retention_keeps_needed_entries:
  assumes "Retention_RunOnce be dryRun spec = (r, Some f)"
    and "stream_wf s0" and "reports_groups be (sp_Name spec) s0"
    and "\<And>g. g \<in> fst ` set (ss_groups s0) \<Longrightarrow> stream_step\<^sup>*\<^sup>* s0 (sp g) \<and> stream_wf (sp g)
           \<and> reports_pending be (sp_Name spec) g (sp g) \<and> stream_step\<^sup>*\<^sup>* (sp g) st"
  shows "\<not> dryRun \<and> set (sp_ExpectedGroups spec) \<subseteq> fst ` set (ss_groups s0)
    \<and> (\<exists>fid. parseStreamID f = Inr fid \<and> (\<forall>x. needed st x \<longrightarrow> needed (trim_min fid st) x))"
proof -
  from RunOnce_trim_frontier [OF assms(1)] obtain groups fid where
    dry: "\<not> dryRun" and g: "rb_Groups be (sp_Name spec) = Inr groups" "groups \<noteq> []"
    and ex: "set (sp_ExpectedGroups spec) \<subseteq> rg_Name ` set groups" and fid: "parseStreamID f = Inr fid"
    and cand: "\<forall>grp \<in> set groups. \<exists>c n cid. group_candidate be (sp_Name spec) grp = Inr (c, n)
          \<and> parseStreamID c = Inr cid \<and> fid \<le> cid" by blast
  have rep: "list_all2 report_group (ss_groups s0) groups"
    using assms(3) g(1) by (auto simp: reports_groups_def)
  have len: "length groups = length (ss_groups s0)" using rep by (simp add: list_all2_lengthD)
  have at: "report_group (ss_groups s0 ! i) (groups ! i)" if "i < length groups" for i
    using list_all2_nthD2 [OF rep that] .
  have nm: "rg_Name (groups ! i) = fst (ss_groups s0 ! i)" if "i < length groups" for i
    using at [OF that] by (simp add: report_group_def)
  have done_i: "done_below (snd (ss_groups st ! i)) fid" if i: "i < length groups" for i
  proof -
    have m: "rg_Name (groups ! i) \<in> fst ` set (ss_groups s0)" using nm [OF i] i len by (metis image_eqI nth_mem)
    obtain c n cid where c: "group_candidate be (sp_Name spec) (groups ! i) = Inr (c, n)"
        "parseStreamID c = Inr cid" "fid \<le> cid" using cand i nth_mem by blast
    have "done_below (snd (ss_groups st ! i)) cid"
      using candidate_done [of s0 sp "groups ! i" i be "sp_Name spec" st c n cid] assms(2,4) m at [OF i] i len c
      by auto
    then show ?thesis using c(3) by (rule done_below_mono)
  qed
  obtain g0 where g0: "g0 \<in> fst ` set (ss_groups s0)" using g(2) len by (cases "ss_groups s0") auto
  have lent: "length (ss_groups st) = length groups"
    using assms(4) [OF g0] stream_step_wf_names len by (metis length_map)
  have "needed (trim_min fid st) x" if n: "needed st x" for x
  proof -
    obtain p where "p \<in> set (ss_groups st)" "x \<in> set (gs_pel (snd p)) \<or> gs_last (snd p) < x"
      using n by (auto simp: needed_def list_ex_iff)
    then obtain i where i: "i < length (ss_groups st)"
        "x \<in> set (gs_pel (snd (ss_groups st ! i))) \<or> gs_last (snd (ss_groups st ! i)) < x"
      by (metis in_set_conv_nth)
    then have "\<not> x < fid" using done_i [of i] lent by (auto simp: done_below_def)
    with n show ?thesis by (simp add: needed_def trim_min_def)
  qed
  moreover have "rg_Name ` set groups = fst ` set (ss_groups s0)"
    using nm len by (force simp: in_set_conv_nth image_iff)
  ultimately show ?thesis using dry ex fid by blast
qed

theorem retention_keeps_needed_entries_witness:
  "let be = \<lparr>rb_Groups = (\<lambda>_. Inr [\<lparr>rg_Name = ''workers'', rg_Pending = 1, rg_LastDeliveredID = ''7-0'', rg_Lag = 0\<rparr>]),
         rb_Pending = (\<lambda>_ _. Inr \<lparr>rp_Count = 1, rp_OldestID = ''5-0''\<rparr>),
         rb_Length = (\<lambda>_. Inr 3), rb_TrimMinID = (\<lambda>_ _. Inr 1)\<rparr>;
       spec = \<lparr>sp_Name = ''events'', sp_Kind = ''event'', sp_Namespace = [], sp_ExpectedGroups = [''workers'']\<rparr>;
       s = \<lparr>ss_entries = [(3, 0), (5, 0), (7, 0)],
         ss_groups = [(''workers'', \<lparr>gs_last = (7, 0), gs_pel = [(5, 0)]\<rparr>)]\<rparr>
   in snd (Retention_RunOnce be False spec) = Some ''5-0''
      \<and> needed s (5, 0) \<and> needed (trim_min (5, 0) s) (5, 0)"
proof -
  let ?be = "\<lparr>rb_Groups = (\<lambda>_. Inr [\<lparr>rg_Name = ''workers'', rg_Pending = 1, rg_LastDeliveredID = ''7-0'', rg_Lag = 0\<rparr>]),
         rb_Pending = (\<lambda>_ _. Inr \<lparr>rp_Count = 1, rp_OldestID = ''5-0''\<rparr>),
         rb_Length = (\<lambda>_. Inr 3), rb_TrimMinID = (\<lambda>_ _. Inr 1)\<rparr>"
  let ?spec = "\<lparr>sp_Name = ''events'', sp_Kind = ''event'', sp_Namespace = [], sp_ExpectedGroups = [''workers'']\<rparr>"
  let ?s = "\<lparr>ss_entries = [(3, 0), (5, 0), (7, 0)],
         ss_groups = [(''workers'', \<lparr>gs_last = (7, 0), gs_pel = [(5, 0)]\<rparr>)]\<rparr>"
  have show5: "show_sid (5, 0) = ''5-0''" and show7: "show_sid (7, 0) = ''7-0''"
    by (simp_all add: show_sid_def show_nat.simps)
  have p5: "parseStreamID ''5-0'' = Inr (5, 0)"
    using parseStreamID_show [of "(5, 0)"] by (simp add: show5 sid_ok_def)
  have run: "snd (Retention_RunOnce ?be False ?spec) = Some ''5-0''"
    by (simp add: Retention_RunOnce_def group_candidate_def p5)
  have wf: "stream_wf ?s" by (simp add: stream_wf_def sid_ok_def)
  have rg: "reports_groups ?be (sp_Name ?spec) ?s"
    by (simp add: reports_groups_def report_group_def show7)
  have rp: "reports_pending ?be (sp_Name ?spec) g ?s" if "g \<in> fst ` set (ss_groups ?s)" for g
    using that by (simp add: reports_pending_def show5)
  have need: "needed ?s (5, 0)" by (simp add: needed_def)
  obtain r where "Retention_RunOnce ?be False ?spec = (r, Some ''5-0'')" using run by (metis prod.collapse)
  from retention_keeps_needed_entries [OF this wf rg, of "\<lambda>_. ?s" ?s] rp wf p5 need run
  show ?thesis unfolding Let_def by auto
qed

end
