(* ===== verification/Stream_Consumer.thy ===== *)
theory Stream_Consumer
  imports Stream_Retention
begin

text \<open>
  The consume and reclaim loops every stream worker shares
  (\<^verbatim>\<open>internal/infra/redis/stream_consumer.go\<close>). The Redis commands and the domain handler are
  parameters over an arbitrary state. A run of the endless consume loop is the list of turns the
  environment gives it. The reclaim scan is shown to hand over every abandoned entry, although a
  tick is bounded and the cursor is carried from tick to tick.
\<close>

section \<open>Messages and configuration\<close>

text \<open>A value of a stream entry: a string, or something else with its default formatting.\<close>

datatype go_value = GoString string | GoOther string

record XMessage =
  xm_ID :: string
  xm_Values :: "(string \<times> go_value) list"

definition initialReclaimCursor :: string where
  "initialReclaimCursor = ''0-0''"

datatype ReclaimOutcome = ReclaimTerminal | ReclaimNoGroup | ReclaimError | ReclaimBudgetExhausted

definition IsBusyGroupError :: "go_error \<Rightarrow> bool" where
  "IsBusyGroupError e = (case e of Failure msg \<Rightarrow> str_contains msg ''BUSYGROUP'' | _ \<Rightarrow> False)"

definition IsNoGroupError :: "go_error \<Rightarrow> bool" where
  "IsNoGroupError e = (case e of Failure msg \<Rightarrow> str_contains msg ''NOGROUP'' | _ \<Rightarrow> False)"

text \<open>\<^verbatim>\<open>Init\<close> from the outcome of creating the group: an existing group is success.\<close>

definition Consumer_Init :: "go_error option \<Rightarrow> go_error option" where
  "Consumer_Init created =
     (case created of None \<Rightarrow> None | Some e \<Rightarrow> if IsBusyGroupError e then None else Some e)"

section \<open>Consuming\<close>

text \<open>
  One turn of the loop: whether the context was done at the top, what the read returned (a list
  of messages per stream), whether the context had ended when an error came back, what
  recreating the group returned, and whether the sleep ran to its end.
\<close>

record read_turn =
  rt_done :: bool
  rt_read :: "go_error + XMessage list list"
  rt_ctx_err :: bool
  rt_create :: "go_error option"
  rt_slept :: bool

datatype consumer_event = Recreated "go_error option" | ReadFailed go_error | Slept int

fun consumeLoop ::
  "int \<Rightarrow> int \<Rightarrow> (XMessage \<Rightarrow> 's \<Rightarrow> 's) \<Rightarrow> read_turn list \<Rightarrow> int \<Rightarrow> 's \<Rightarrow> consumer_event list \<times> 's" where
  "consumeLoop bmin bmax handle [] backoff s = ([], s)"
| "consumeLoop bmin bmax handle (t # ts) backoff s =
     (if rt_done t then ([], s)
      else case rt_read t of
             Inl e \<Rightarrow>
               if e = ErrRedisNil then consumeLoop bmin bmax handle ts backoff s
               else if rt_ctx_err t \<or> e = ErrContextDone then ([], s)
               else
                 let evs = (if IsNoGroupError e then [Recreated (Consumer_Init (rt_create t))] else [])
                           @ [ReadFailed e, Slept backoff]
                 in if \<not> rt_slept t then (evs, s)
                    else let (evs', s') = consumeLoop bmin bmax handle ts (min (backoff * 2) bmax) s
                         in (evs @ evs', s')
           | Inr streams \<Rightarrow> consumeLoop bmin bmax handle ts bmin (fold handle (concat streams) s))"

section \<open>Reclaiming\<close>

text \<open>\<^verbatim>\<open>claim\<close> is \<^verbatim>\<open>XAUTOCLAIM\<close> from a cursor: the claimed messages and the next cursor.\<close>

fun reap_pages ::
  "(string \<Rightarrow> 's \<Rightarrow> (go_error + XMessage list \<times> string) \<times> 's) \<Rightarrow> (XMessage \<Rightarrow> 's \<Rightarrow> 's) \<Rightarrow> nat
   \<Rightarrow> string \<Rightarrow> 's \<Rightarrow> string \<times> ReclaimOutcome \<times> 's" where
  "reap_pages claim handle 0 cursor s = (cursor, ReclaimBudgetExhausted, s)"
| "reap_pages claim handle (Suc pages) cursor s =
     (case claim cursor s of
        (Inl e, s1) \<Rightarrow>
          if IsNoGroupError e then (initialReclaimCursor, ReclaimNoGroup, s1)
          else (cursor, ReclaimError, s1)
      | (Inr (msgs, nxt), s1) \<Rightarrow>
          let s2 = fold handle msgs s1
          in if nxt = initialReclaimCursor \<or> nxt = []
             then (initialReclaimCursor, ReclaimTerminal, s2)
             else reap_pages claim handle pages nxt s2)"

definition ReapOnce ::
  "(string \<Rightarrow> 's \<Rightarrow> (go_error + XMessage list \<times> string) \<times> 's) \<Rightarrow> (XMessage \<Rightarrow> 's \<Rightarrow> 's) \<Rightarrow> nat
   \<Rightarrow> string \<Rightarrow> 's \<Rightarrow> string \<times> ReclaimOutcome \<times> 's" where
  "ReapOnce claim handle budget cursor s =
     reap_pages claim handle budget (if cursor = [] then initialReclaimCursor else cursor) s"

text \<open>The ticks of \<^verbatim>\<open>reapLoop\<close>: the cursor one scan returns is where the next one starts.\<close>

fun reap_ticks ::
  "(string \<Rightarrow> 's \<Rightarrow> (go_error + XMessage list \<times> string) \<times> 's) \<Rightarrow> (XMessage \<Rightarrow> 's \<Rightarrow> 's) \<Rightarrow> nat
   \<Rightarrow> nat \<Rightarrow> string \<Rightarrow> 's \<Rightarrow> string \<times> 's" where
  "reap_ticks claim handle budget 0 cursor s = (cursor, s)"
| "reap_ticks claim handle budget (Suc n) cursor s =
     (let (cursor', _, s') = ReapOnce claim handle budget cursor s
      in reap_ticks claim handle budget n cursor' s')"

section \<open>The consume loop backs off within its bounds\<close>

lemma consumeLoop_sleeps:
  assumes "0 \<le> bmin" and "bmin \<le> bmax" and "bmin \<le> backoff" and "backoff \<le> bmax"
    and "Slept d \<in> set (fst (consumeLoop bmin bmax handle ts backoff s))"
  shows "bmin \<le> d \<and> d \<le> bmax"
  using assms
proof (induction ts arbitrary: backoff s)
  case (Cons t ts)
  have step: "bmin \<le> min (backoff * 2) bmax" "min (backoff * 2) bmax \<le> bmax" using Cons.prems(1-4) by auto
  show ?case
  proof (cases "rt_read t")
    case (Inr streams)
    with Cons.prems have "Slept d \<in> set (fst (consumeLoop bmin bmax handle ts bmin (fold handle (concat streams) s)))"
      by (simp split: if_splits)
    from Cons.IH [OF assms(1,2) order_refl assms(2) this] show ?thesis .
  next
    case (Inl e)
    have "Slept d \<in> set (fst (consumeLoop bmin bmax handle ts backoff s)) \<or> d = backoff
          \<or> Slept d \<in> set (fst (consumeLoop bmin bmax handle ts (min (backoff * 2) bmax) s))"
      using Cons.prems(5) Inl by (auto simp: Let_def case_prod_beta split: if_split_asm)
    then show ?thesis
    proof (elim disjE)
      assume "Slept d \<in> set (fst (consumeLoop bmin bmax handle ts backoff s))"
      from Cons.IH [OF assms(1,2) Cons.prems(3,4) this] show ?thesis .
    next
      assume "d = backoff"
      then show ?thesis using Cons.prems(3,4) by blast
    next
      assume "Slept d \<in> set (fst (consumeLoop bmin bmax handle ts (min (backoff * 2) bmax) s))"
      from Cons.IH [OF assms(1,2) step this] show ?thesis .
    qed
  qed
qed simp

section \<open>The reclaim scan covers the pending list\<close>

text \<open>
  What \<^verbatim>\<open>XAUTOCLAIM\<close> documents, for a pending list \<open>pel\<close> with abandoned entries \<open>idle\<close>: a call
  from a position returns every abandoned entry not handled yet between that position and the
  next cursor, which is a later pending id, or is \<^verbatim>\<open>0-0\<close> when the end was reached.
\<close>

definition claim_law ::
  "sid set \<Rightarrow> sid set \<Rightarrow> ('s \<Rightarrow> string set) \<Rightarrow> (string \<Rightarrow> 's \<Rightarrow> (go_error + XMessage list \<times> string) \<times> 's) \<Rightarrow> bool" where
  "claim_law pel idle handled claim \<longleftrightarrow>
     (\<forall>i \<in> insert (0, 0) pel. \<forall>s. \<exists>msgs nxt s1.
        claim (show_sid i) s = (Inr (msgs, nxt), s1) \<and> handled s \<subseteq> handled s1 \<and>
        (nxt = initialReclaimCursor
           \<and> (\<forall>x \<in> idle. i \<le> x \<longrightarrow> show_sid x \<in> xm_ID ` set msgs \<union> handled s)
         \<or> (\<exists>j \<in> pel. i < j \<and> nxt = show_sid j
              \<and> (\<forall>x \<in> idle. i \<le> x \<and> x < j \<longrightarrow> show_sid x \<in> xm_ID ` set msgs \<union> handled s))))"

definition handler_law :: "('s \<Rightarrow> string set) \<Rightarrow> (XMessage \<Rightarrow> 's \<Rightarrow> 's) \<Rightarrow> bool" where
  "handler_law handled handle \<longleftrightarrow> (\<forall>m s. insert (xm_ID m) (handled s) \<subseteq> handled (handle m s))"

lemma fold_handled:
  "handler_law handled handle \<Longrightarrow> xm_ID ` set msgs \<union> handled s \<subseteq> handled (fold handle msgs s)"
proof (induction msgs arbitrary: s)
  case (Cons m msgs)
  have "insert (xm_ID m) (handled s) \<subseteq> handled (handle m s)"
    using Cons.prems by (simp add: handler_law_def)
  with Cons.IH [OF Cons.prems, of "handle m s"] show ?case by auto
qed simp

lemma show_sid_inject:
  assumes "sid_ok i" and "sid_ok j" and "show_sid i = show_sid j"
  shows "i = j"
proof -
  have "Inr i = parseStreamID (show_sid i)" by (rule parseStreamID_show [OF assms(1), symmetric])
  also have "\<dots> = parseStreamID (show_sid j)" by (rule arg_cong [OF assms(3)])
  also have "\<dots> = Inr j" by (rule parseStreamID_show [OF assms(2)])
  finally show ?thesis by (rule sum.inject(2) [THEN iffD1])
qed

lemma show_sid_initial: "show_sid (0, 0) = initialReclaimCursor"
  by (simp add: show_sid_def initialReclaimCursor_def show_nat.simps)

lemma show_sid_not_Nil: "show_sid i \<noteq> []"
  by (simp add: show_sid_def)

text \<open>Positions left to visit after \<open>i\<close>; every page that does not end the scan uses one up.\<close>

definition left_after :: "sid set \<Rightarrow> sid \<Rightarrow> nat" where
  "left_after pel i = card {p \<in> pel. i < p}"

lemma left_after_step: "finite pel \<Longrightarrow> j \<in> pel \<Longrightarrow> i < j \<Longrightarrow> left_after pel j < left_after pel i"
  unfolding left_after_def by (rule psubset_card_mono) auto

lemma reap_pages_progress:
  assumes claim: "claim_law pel idle handled claim" and hd: "handler_law handled handle"
    and fin: "finite pel" and ok: "\<forall>p \<in> pel. sid_ok p \<and> p \<noteq> (0, 0)"
  shows "i \<in> insert (0, 0) pel \<Longrightarrow> \<forall>x \<in> idle. x < i \<longrightarrow> show_sid x \<in> handled s
    \<Longrightarrow> reap_pages claim handle n (show_sid i) s = (cursor', out, s')
    \<Longrightarrow> handled s \<subseteq> handled s' \<and>
      (out = ReclaimTerminal \<and> cursor' = initialReclaimCursor \<and> show_sid ` idle \<subseteq> handled s'
       \<or> (\<exists>j \<in> insert (0, 0) pel. cursor' = show_sid j \<and> left_after pel j + n \<le> left_after pel i
            \<and> (\<forall>x \<in> idle. x < j \<longrightarrow> show_sid x \<in> handled s')))"
proof (induction n arbitrary: i s)
  case 0
  then show ?case by auto
next
  case (Suc n)
  obtain msgs nxt s1 where c: "claim (show_sid i) s = (Inr (msgs, nxt), s1)" "handled s \<subseteq> handled s1"
    and law: "nxt = initialReclaimCursor \<and> (\<forall>x \<in> idle. i \<le> x \<longrightarrow> show_sid x \<in> xm_ID ` set msgs \<union> handled s)
      \<or> (\<exists>j \<in> pel. i < j \<and> nxt = show_sid j
           \<and> (\<forall>x \<in> idle. i \<le> x \<and> x < j \<longrightarrow> show_sid x \<in> xm_ID ` set msgs \<union> handled s))"
    using claim [unfolded claim_law_def, THEN bspec, OF Suc.prems(1), THEN spec, of s] by (elim exE conjE) (rule that)
  let ?s2 = "fold handle msgs s1"
  have grow: "xm_ID ` set msgs \<union> handled s \<subseteq> handled ?s2"
    using fold_handled [OF hd, of msgs s1] c(2) by auto
  show ?case
  proof (cases "nxt = initialReclaimCursor")
    case True
    then have out: "cursor' = initialReclaimCursor" "out = ReclaimTerminal" "s' = ?s2"
      using Suc.prems(3) c(1) by (auto simp: Let_def)
    have "nxt \<noteq> show_sid j" if "j \<in> pel" for j
    proof
      assume "nxt = show_sid j"
      then have "show_sid (0, 0) = show_sid j" using True show_sid_initial by argo
      moreover have "sid_ok j" "j \<noteq> (0, 0)" using ok that by blast+
      moreover have "sid_ok (0, 0)" by (simp add: sid_ok_def)
      ultimately show False using show_sid_inject [of "(0, 0)" j] by argo
    qed
    with law have later: "\<forall>x \<in> idle. i \<le> x \<longrightarrow> show_sid x \<in> xm_ID ` set msgs \<union> handled s" by blast
    have "show_sid ` idle \<subseteq> handled ?s2"
    proof (rule image_subsetI)
      fix x assume "x \<in> idle"
      then have "show_sid x \<in> xm_ID ` set msgs \<union> handled s"
        using Suc.prems(2) later by (cases "x < i") (blast, meson linorder_not_less)
      then show "show_sid x \<in> handled ?s2" using grow by blast
    qed
    with out grow show ?thesis by blast
  next
    case False
    with law obtain j where j: "j \<in> pel" "i < j" "nxt = show_sid j"
      "\<forall>x \<in> idle. i \<le> x \<and> x < j \<longrightarrow> show_sid x \<in> xm_ID ` set msgs \<union> handled s" by blast
    have rec: "reap_pages claim handle n (show_sid j) ?s2 = (cursor', out, s')"
      using Suc.prems(3) False j(3) show_sid_not_Nil [of j] by (simp add: c(1) Let_def)
    have "\<forall>x \<in> idle. x < j \<longrightarrow> show_sid x \<in> handled ?s2"
    proof (intro ballI impI)
      fix x assume "x \<in> idle" "x < j"
      then have "show_sid x \<in> xm_ID ` set msgs \<union> handled s"
        using Suc.prems(2) j(4) by (cases "x < i") (blast, meson linorder_not_less)
      then show "show_sid x \<in> handled ?s2" using grow by blast
    qed
    from Suc.IH [OF insertI2 [OF j(1)] this rec] have IH: "handled ?s2 \<subseteq> handled s' \<and>
      (out = ReclaimTerminal \<and> cursor' = initialReclaimCursor \<and> show_sid ` idle \<subseteq> handled s'
       \<or> (\<exists>k \<in> insert (0, 0) pel. cursor' = show_sid k \<and> left_after pel k + n \<le> left_after pel j
            \<and> (\<forall>x \<in> idle. x < k \<longrightarrow> show_sid x \<in> handled s')))" .
    have less: "left_after pel j < left_after pel i" by (rule left_after_step [OF fin j(1,2)])
    have step: "left_after pel k + Suc n \<le> left_after pel i" if "left_after pel k + n \<le> left_after pel j" for k
      using that less by linarith
    from IH step grow show ?thesis by blast
  qed
qed

text \<open>Where a tick leaves the scan: at a position below which every abandoned entry was handed over.\<close>

lemma ReapOnce_position:
  assumes "claim_law pel idle handled claim" and "handler_law handled handle"
    and "finite pel" and "\<forall>p \<in> pel. sid_ok p \<and> p \<noteq> (0, 0)"
    and "i \<in> insert (0, 0) pel" and "\<forall>x \<in> idle. x < i \<longrightarrow> show_sid x \<in> handled s"
    and "ReapOnce claim handle budget (show_sid i) s = (cursor', out, s')"
  shows "handled s \<subseteq> handled s' \<and> (\<exists>j \<in> insert (0, 0) pel. cursor' = show_sid j
    \<and> (\<forall>x \<in> idle. x < j \<longrightarrow> show_sid x \<in> handled s')
    \<and> (show_sid ` idle \<subseteq> handled s' \<or> left_after pel j + budget \<le> left_after pel i))"
proof -
  have "reap_pages claim handle budget (show_sid i) s = (cursor', out, s')"
    using assms(7) show_sid_not_Nil [of i] by (simp add: ReapOnce_def)
  from reap_pages_progress [OF assms(1-6) this] have grow: "handled s \<subseteq> handled s'"
    and ends: "out = ReclaimTerminal \<and> cursor' = initialReclaimCursor \<and> show_sid ` idle \<subseteq> handled s'
       \<or> (\<exists>j \<in> insert (0, 0) pel. cursor' = show_sid j \<and> left_after pel j + budget \<le> left_after pel i
            \<and> (\<forall>x \<in> idle. x < j \<longrightarrow> show_sid x \<in> handled s'))" by argo+
  from ends show ?thesis
  proof (elim disjE)
    assume "out = ReclaimTerminal \<and> cursor' = initialReclaimCursor \<and> show_sid ` idle \<subseteq> handled s'"
    then have "cursor' = show_sid (0, 0)" "\<forall>x \<in> idle. show_sid x \<in> handled s'" "show_sid ` idle \<subseteq> handled s'"
      using show_sid_initial by (argo, blast, argo)
    with grow show ?thesis by (intro conjI bexI [where x = "(0, 0)"]) simp_all
  next
    assume "\<exists>j \<in> insert (0, 0) pel. cursor' = show_sid j \<and> left_after pel j + budget \<le> left_after pel i
            \<and> (\<forall>x \<in> idle. x < j \<longrightarrow> show_sid x \<in> handled s')"
    with grow show ?thesis by meson
  qed
qed

lemma reap_ticks_mono:
  assumes "claim_law pel idle handled claim" and "handler_law handled handle"
    and "finite pel" and "\<forall>p \<in> pel. sid_ok p \<and> p \<noteq> (0, 0)"
  shows "i \<in> insert (0, 0) pel \<Longrightarrow> \<forall>x \<in> idle. x < i \<longrightarrow> show_sid x \<in> handled s
    \<Longrightarrow> reap_ticks claim handle budget n (show_sid i) s = (cursor', s') \<Longrightarrow> handled s \<subseteq> handled s'"
proof (induction n arbitrary: i s)
  case (Suc n)
  obtain c1 o1 s1 where r: "ReapOnce claim handle budget (show_sid i) s = (c1, o1, s1)" by (metis prod_cases3)
  from ReapOnce_position [OF assms Suc.prems(1,2) r] obtain j where
    j: "j \<in> insert (0, 0) pel" "c1 = show_sid j" "\<forall>x \<in> idle. x < j \<longrightarrow> show_sid x \<in> handled s1"
    and grow: "handled s \<subseteq> handled s1" by blast
  have "reap_ticks claim handle budget n (show_sid j) s1 = (cursor', s')"
    using Suc.prems(3) r j(2) by simp
  from Suc.IH [OF j(1,3) this] grow show ?case by blast
qed simp

lemma reap_ticks_cover:
  assumes "claim_law pel idle handled claim" and "handler_law handled handle"
    and "finite pel" and "\<forall>p \<in> pel. sid_ok p \<and> p \<noteq> (0, 0)"
  shows "i \<in> insert (0, 0) pel \<Longrightarrow> \<forall>x \<in> idle. x < i \<longrightarrow> show_sid x \<in> handled s
    \<Longrightarrow> left_after pel i < n * budget
    \<Longrightarrow> reap_ticks claim handle budget n (show_sid i) s = (cursor', s') \<Longrightarrow> show_sid ` idle \<subseteq> handled s'"
proof (induction n arbitrary: i s)
  case (Suc n)
  obtain c1 o1 s1 where r: "ReapOnce claim handle budget (show_sid i) s = (c1, o1, s1)" by (metis prod_cases3)
  from ReapOnce_position [OF assms Suc.prems(1,2) r] obtain j where
    j: "j \<in> insert (0, 0) pel" "c1 = show_sid j" "\<forall>x \<in> idle. x < j \<longrightarrow> show_sid x \<in> handled s1"
    and progress: "show_sid ` idle \<subseteq> handled s1 \<or> left_after pel j + budget \<le> left_after pel i" by blast
  have rec: "reap_ticks claim handle budget n (show_sid j) s1 = (cursor', s')"
    using Suc.prems(4) r j(2) by simp
  from progress show ?case
  proof
    assume "show_sid ` idle \<subseteq> handled s1"
    with reap_ticks_mono [OF assms j(1,3) rec] show ?thesis by blast
  next
    assume "left_after pel j + budget \<le> left_after pel i"
    with Suc.prems(3) have "left_after pel j < n * budget" by simp
    from Suc.IH [OF j(1,3) this rec] show ?thesis .
  qed
qed simp

section \<open>Properties\<close>

text \<open>C19: Bounded reclaim ticks hand over every abandoned entry. With a page budget per tick, the
  cursor carried between ticks, and at least as many pages in all as there are pending entries
  (plus one), every entry that was idle long enough to be claimed has reached the handler,
  wherever it stands in the pending list.\<close>

theorem reclaim_reaches_every_abandoned_entry:
  assumes "claim_law pel idle handled claim" and "handler_law handled handle"
    and "finite pel" and "\<forall>p \<in> pel. sid_ok p \<and> p \<noteq> (0, 0)"
    and "card pel < n * budget"
    and "reap_ticks claim handle budget n initialReclaimCursor s = (cursor', s')"
  shows "show_sid ` idle \<subseteq> handled s'"
proof -
  have "left_after pel (0, 0) \<le> card pel"
    unfolding left_after_def using assms(3) by (intro card_mono) auto
  then have "left_after pel (0, 0) < n * budget" using assms(5) by simp
  moreover have "\<forall>x \<in> idle. x < (0, 0) \<longrightarrow> show_sid x \<in> handled s"
    by (auto simp: less_prod_def)
  ultimately show ?thesis
    using reap_ticks_cover [OF assms(1-4), of "(0, 0)" s n budget cursor' s'] assms(6)
    by (simp add: show_sid_initial)
qed

text \<open>A two-entry pending list served one entry per page.\<close>

definition page_claim :: "string \<Rightarrow> string list \<Rightarrow> (go_error + XMessage list \<times> string) \<times> string list" where
  "page_claim cursor log =
     (if cursor = ''0-0'' then (Inr ([\<lparr>xm_ID = ''3-0'', xm_Values = []\<rparr>], ''5-0''), log)
      else if cursor = ''3-0'' then (Inr ([\<lparr>xm_ID = ''3-0'', xm_Values = []\<rparr>], ''5-0''), log)
      else (Inr ([\<lparr>xm_ID = ''5-0'', xm_Values = []\<rparr>], ''0-0''), log))"

theorem reclaim_reaches_every_abandoned_entry_witness:
  "let claim = page_claim; handle = (\<lambda>m log. log @ [xm_ID m])
   in {''3-0'', ''5-0''} \<subseteq> set (snd (reap_ticks claim handle 1 3 initialReclaimCursor []))"
proof -
  let ?h = "\<lambda>m log. log @ [xm_ID m]"
  have sh: "show_sid (0, 0) = ''0-0''" "show_sid (3, 0) = ''3-0''" "show_sid (5, 0) = ''5-0''"
    by (simp_all add: show_sid_def show_nat.simps)
  have law: "claim_law {(3, 0), (5, 0)} {(3, 0), (5, 0)} set page_claim"
    by (auto simp: claim_law_def page_claim_def sh initialReclaimCursor_def)
  have hl: "handler_law set ?h" by (simp add: handler_law_def)
  have ok: "\<forall>p \<in> {(3, 0), (5, 0)}. sid_ok p \<and> p \<noteq> (0, 0)" by (simp add: sid_ok_def)
  have few: "card {(3, 0), (5 :: nat, 0 :: nat)} < 3 * 1" by simp
  have "show_sid ` {(3, 0), (5, 0)} \<subseteq> set (snd (reap_ticks page_claim ?h 1 3 initialReclaimCursor []))"
    by (rule reclaim_reaches_every_abandoned_entry [OF law hl _ ok few surjective_pairing]) simp
  then show ?thesis unfolding Let_def image_insert image_empty sh .
qed

end
