(* ===== verification/Core_Types.thy ===== *)
theory Core_Types
  imports Codohue_Prelude Complex_Main
begin

text \<open>
  Types several domains share: the namespace configuration
  (\<^verbatim>\<open>internal/core/namespace/types.go\<close>), the values \<^verbatim>\<open>encoding/json\<close> decodes into \<^verbatim>\<open>any\<close>, the
  dense sources of \<^verbatim>\<open>pkg/codohuetypes/densesource.go\<close> and Go's zero time. \<^verbatim>\<open>float64\<close> values are real
  numbers: no statement of the development depends on how they round.
\<close>

datatype json =
    JNull
  | JBool bool
  | JNum real
  | JStr string
  | JArr "json list"
  | JObj "(string \<times> json) list"

definition DenseSourceDisabled :: string where "DenseSourceDisabled = ''disabled''"
definition DenseSourceItem2Vec :: string where "DenseSourceItem2Vec = ''item2vec''"
definition DenseSourceSVD :: string where "DenseSourceSVD = ''svd''"
definition DenseSourceBYOE :: string where "DenseSourceBYOE = ''byoe''"
definition DenseSourceCatalog :: string where "DenseSourceCatalog = ''catalog''"

record Config =
  cfg_Namespace :: namespace
  cfg_Generation :: int
  cfg_ActionWeights :: "string \<rightharpoonup> real"
  cfg_Lambda :: real
  cfg_Gamma :: real
  cfg_MaxResults :: int
  cfg_SeenItemsDays :: int
  cfg_ExcludeAuthored :: bool
  cfg_Paused :: bool
  cfg_APIKeyHash :: string
  cfg_Alpha :: real
  cfg_DenseSource :: string
  cfg_EmbeddingDim :: int
  cfg_DenseDistance :: string
  cfg_TrendingWindow :: int
  cfg_TrendingTTL :: int
  cfg_LambdaTrending :: real
  cfg_CatalogStrategyID :: string
  cfg_CatalogStrategyVersion :: string
  cfg_CatalogStrategyParams :: "(string \<times> json) list"
  cfg_CatalogMaxAttempts :: int
  cfg_CatalogMaxContentBytes :: int

text \<open>The zero \<^verbatim>\<open>time.Time\<close> (January 1 of year 1, UTC) in nanoseconds of the Unix epoch.\<close>

definition zero_time :: time where
  "zero_time = - 62135596800 * 10 ^ 9"

definition seconds :: "int \<Rightarrow> int" where
  "seconds n = n * 10 ^ 9"

definition minutes :: "int \<Rightarrow> int" where
  "minutes n = seconds (n * 60)"

text \<open>A configuration with the schema's defaults, for concrete instances.\<close>

definition base_config :: "namespace \<Rightarrow> int \<Rightarrow> Config" where
  "base_config ns g =
     \<lparr>cfg_Namespace = ns, cfg_Generation = g, cfg_ActionWeights = Map.empty, cfg_Lambda = 0,
      cfg_Gamma = 0, cfg_MaxResults = 50, cfg_SeenItemsDays = 30, cfg_ExcludeAuthored = False,
      cfg_Paused = False, cfg_APIKeyHash = [], cfg_Alpha = 1, cfg_DenseSource = DenseSourceCatalog,
      cfg_EmbeddingDim = 64, cfg_DenseDistance = ''cosine'', cfg_TrendingWindow = 24,
      cfg_TrendingTTL = 600, cfg_LambdaTrending = 0, cfg_CatalogStrategyID = ''hashing'',
      cfg_CatalogStrategyVersion = ''v1'', cfg_CatalogStrategyParams = [],
      cfg_CatalogMaxAttempts = 0, cfg_CatalogMaxContentBytes = 0\<rparr>"

end
