(* ===== verification/Event_Ingest.thy ===== *)
theory Event_Ingest
  imports Core_Types Lifecycle_Service Stream_Consumer
begin

text \<open>
  Behavioural event ingest (\<^verbatim>\<open>internal/ingest\<close>): validation and weight resolution
  (\<^verbatim>\<open>service.go\<close>), the events table (\<^verbatim>\<open>repository.go\<close>), the live-tail buffer
  (\<^verbatim>\<open>event_publisher.go\<close>) and the stream worker's acknowledgement policy (\<^verbatim>\<open>worker.go\<close>). The
  decoding of the JSON payload and the configuration getter are arguments. The contract every
  gated stream worker keeps is a locale, shared with the catalog worker.
\<close>

section \<open>Payloads and events\<close>

record EventPayload =
  ep_Namespace :: namespace
  ep_NamespaceGeneration :: int
  ep_SubjectID :: string
  ep_ObjectID :: string
  ep_Action :: string
  ep_OccurredAt :: time
  ep_ObjectCreatedAt :: "time option"

record Event =
  ev_ID :: int
  ev_Namespace :: namespace
  ev_SubjectID :: string
  ev_ObjectID :: string
  ev_Action :: string
  ev_Weight :: real
  ev_OccurredAt :: time
  ev_ObjectCreatedAt :: "time option"

record EventTailMessage =
  et_ID :: int
  et_Namespace :: namespace
  et_NamespaceGeneration :: int
  et_SubjectID :: string
  et_ObjectID :: string
  et_Action :: string
  et_Weight :: real
  et_OccurredAt :: time

definition DefaultActionWeights :: "string \<rightharpoonup> real" where
  "DefaultActionWeights =
     [''VIEW'' \<mapsto> 1, ''LIKE'' \<mapsto> 5, ''COMMENT'' \<mapsto> 8, ''SHARE'' \<mapsto> 10, ''SKIP'' \<mapsto> - 2]"

definition maxOccurredAtSkew :: int where
  "maxOccurredAtSkew = minutes 5"

section \<open>The live-tail buffer\<close>

text \<open>\<^verbatim>\<open>Publish\<close> on the buffered channel: a send that would block takes the default branch.\<close>

record tail_buffer =
  tb_cap :: nat
  tb_queue :: "EventTailMessage list"
  tb_dropped :: nat

definition NewRedisEventTailPublisher :: "int \<Rightarrow> tail_buffer" where
  "NewRedisEventTailPublisher buffer =
     \<lparr>tb_cap = nat (if buffer \<le> 0 then 4096 else buffer), tb_queue = [], tb_dropped = 0\<rparr>"

definition Tail_Publish :: "EventTailMessage \<Rightarrow> tail_buffer \<Rightarrow> tail_buffer" where
  "Tail_Publish msg b =
     (if length (tb_queue b) < tb_cap b then b\<lparr>tb_queue := tb_queue b @ [msg]\<rparr>
      else b\<lparr>tb_dropped := tb_dropped b + 1\<rparr>)"

section \<open>The service\<close>

text \<open>
  The state a call works on: the lifecycle ledger, the events table with its id sequence, the
  tail buffer if one is wired, and the entry ids acknowledged so far.
\<close>

record ingest_world =
  iw_ledger :: ledger
  iw_events :: "Event list"
  iw_next_id :: int
  iw_tail :: "tail_buffer option"
  iw_acked :: "string list"

text \<open>
  What a call meets: the lifecycle service if one is wired (\<open>ie_lifecycle\<close>), the clock, the
  configuration getter, and the failures of the insert, the envelope's ledger read and the
  acknowledgement.
\<close>

record ingest_env =
  ie_lifecycle :: "svc_env option"
  ie_now :: time
  ie_get :: "lctx \<Rightarrow> namespace \<Rightarrow> go_error + Config option"
  ie_insert :: "go_error option"
  ie_envelope :: "go_error option"
  ie_ack :: "go_error option"

definition resolveWeight ::
  "(lctx \<Rightarrow> namespace \<Rightarrow> go_error + Config option) \<Rightarrow> lctx \<Rightarrow> namespace \<Rightarrow> string \<Rightarrow> go_error + real" where
  "resolveWeight get ctx ns action =
     (case get ctx ns of
        Inl e \<Rightarrow> Inl e
      | Inr None \<Rightarrow> Inl (IngestError IngestNamespaceNotFound)
      | Inr (Some cfg) \<Rightarrow>
          if cfg_Paused cfg then Inl (IngestError IngestNamespacePaused)
          else case cfg_ActionWeights cfg action of
                 Some w \<Rightarrow> Inr w
               | None \<Rightarrow> (case DefaultActionWeights action of
                            Some w \<Rightarrow> Inr w
                          | None \<Rightarrow> Inl (IngestError ErrUnknownAction)))"

text \<open>\<^verbatim>\<open>Repository.Insert\<close>: the row gets the next id of the sequence, which the event is stamped with.\<close>

definition Event_Insert ::
  "go_error option \<Rightarrow> Event \<Rightarrow> ingest_world \<Rightarrow> (go_error + Event) \<times> ingest_world" where
  "Event_Insert fault e w =
     (case fault of
        Some err \<Rightarrow> (Inl err, w)
      | None \<Rightarrow>
          let e' = e\<lparr>ev_ID := iw_next_id w\<rparr>
          in (Inr e', w\<lparr>iw_events := iw_events w @ [e'], iw_next_id := iw_next_id w + 1\<rparr>))"

definition processActive ::
  "ingest_env \<Rightarrow> lctx \<Rightarrow> EventPayload \<Rightarrow> ingest_world \<Rightarrow> (go_error + int) \<times> ingest_world" where
  "processActive env ctx payload w =
     (case resolveWeight (ie_get env) ctx (ep_Namespace payload) (ep_Action payload) of
        Inl e \<Rightarrow> (Inl e, w)
      | Inr weight \<Rightarrow>
          let event = \<lparr>ev_ID = 0, ev_Namespace = ep_Namespace payload,
                ev_SubjectID = ep_SubjectID payload, ev_ObjectID = ep_ObjectID payload,
                ev_Action = ep_Action payload, ev_Weight = weight,
                ev_OccurredAt = ep_OccurredAt payload, ev_ObjectCreatedAt = ep_ObjectCreatedAt payload\<rparr>
          in case Event_Insert (ie_insert env) event w of
               (Inl e, w1) \<Rightarrow> (Inl e, w1)
             | (Inr e1, w1) \<Rightarrow>
                 let msg = \<lparr>et_ID = ev_ID e1, et_Namespace = ev_Namespace e1,
                       et_NamespaceGeneration = ep_NamespaceGeneration payload,
                       et_SubjectID = ev_SubjectID e1, et_ObjectID = ev_ObjectID e1,
                       et_Action = ev_Action e1, et_Weight = ev_Weight e1,
                       et_OccurredAt = ev_OccurredAt e1\<rparr>
                 in (Inr (ev_ID e1), w1\<lparr>iw_tail := map_option (Tail_Publish msg) (iw_tail w1)\<rparr>))"

text \<open>The checks \<^verbatim>\<open>Process\<close> opens with, and the payload it goes on with: an omitted time is now.\<close>

definition checked_payload :: "time \<Rightarrow> EventPayload \<Rightarrow> go_error + EventPayload" where
  "checked_payload now payload =
     (if ep_Namespace payload = [] \<or> ep_SubjectID payload = [] \<or> ep_ObjectID payload = []
      then Inl (IngestError ErrInvalidPayload)
      else if ep_OccurredAt payload \<noteq> zero_time \<and> ep_OccurredAt payload > now + maxOccurredAtSkew
      then Inl (IngestError ErrInvalidPayload)
      else if (case ep_ObjectCreatedAt payload of None \<Rightarrow> False | Some t \<Rightarrow> t > now + maxOccurredAtSkew)
      then Inl (IngestError ErrInvalidObjectCreatedAt)
      else Inr (if ep_OccurredAt payload = zero_time then payload\<lparr>ep_OccurredAt := now\<rparr> else payload))"

definition Process ::
  "ingest_env \<Rightarrow> lctx \<Rightarrow> EventPayload \<Rightarrow> ingest_world \<Rightarrow> (go_error + int) \<times> ingest_world" where
  "Process env ctx payload w =
     (case checked_payload (ie_now env) payload of
        Inl e \<Rightarrow> (Inl e, w)
      | Inr payload1 \<Rightarrow>
          (case ie_lifecycle env of
             None \<Rightarrow> processActive env ctx payload1 w
           | Some svc \<Rightarrow>
               fst (WithWriter svc iw_ledger ctx (ep_Namespace payload1)
                 (\<lambda>leased lc w. processActive env leased
                    (payload1\<lparr>ep_NamespaceGeneration := lc_Generation lc\<rparr>) w) w)))"

section \<open>The stream worker\<close>

text \<open>
  \<^verbatim>\<open>decodeEventMessage\<close>: \<open>unmarshal\<close> is \<^verbatim>\<open>json.Unmarshal\<close> into the payload struct;
  \<^verbatim>\<open>fmt.Append\<close> of a string is that string.
\<close>

definition fmt_append :: "go_value \<Rightarrow> string" where
  "fmt_append v = (case v of GoString s \<Rightarrow> s | GoOther s \<Rightarrow> s)"

definition decodeEventMessage ::
  "(string \<Rightarrow> go_error + EventPayload) \<Rightarrow> XMessage \<Rightarrow> go_error + EventPayload" where
  "decodeEventMessage unmarshal msg =
     (case map_of (xm_Values msg) ''payload'' of
        None \<Rightarrow> Inl (Failure ''missing payload field'')
      | Some raw \<Rightarrow> unmarshal (fmt_append raw))"

definition ack :: "go_error option \<Rightarrow> string \<Rightarrow> ingest_world \<Rightarrow> ingest_world" where
  "ack fault i w = (case fault of Some e \<Rightarrow> w | None \<Rightarrow> w\<lparr>iw_acked := iw_acked w @ [i]\<rparr>)"

definition permanent_event_error :: "go_error \<Rightarrow> bool" where
  "permanent_event_error e \<longleftrightarrow>
     e = IngestError ErrInvalidPayload \<or> e = IngestError ErrUnknownAction \<or>
     e = IngestError IngestNamespaceNotFound \<or> e = IngestError IngestNamespacePaused \<or>
     e = IngestError ErrInvalidObjectCreatedAt"

definition stamped :: "int \<Rightarrow> int option" where
  "stamped g = (if g > 0 then Some g else None)"

definition event_verdict :: "ingest_env \<Rightarrow> EventPayload \<Rightarrow> ingest_world \<Rightarrow> go_error + EnvelopeDisposition" where
  "event_verdict env payload w =
     (if ie_lifecycle env = None then Inr EnvelopeProcess
      else EvaluateEnvelope (ie_envelope env) (iw_ledger w) (ep_Namespace payload)
             (stamped (ep_NamespaceGeneration payload)))"

definition handleMessage ::
  "ingest_env \<Rightarrow> (string \<Rightarrow> go_error + EventPayload) \<Rightarrow> lctx \<Rightarrow> XMessage \<Rightarrow> ingest_world \<Rightarrow> ingest_world" where
  "handleMessage env unmarshal ctx msg w =
     (case decodeEventMessage unmarshal msg of
        Inl e \<Rightarrow> ack (ie_ack env) (xm_ID msg) w
      | Inr payload \<Rightarrow>
          (case event_verdict env payload w of
             Inl e \<Rightarrow> w
           | Inr EnvelopeStale \<Rightarrow> ack (ie_ack env) (xm_ID msg) w
           | Inr EnvelopeProcess \<Rightarrow>
               (case Process env ctx payload w of
                  (Inl e, w1) \<Rightarrow> if permanent_event_error e then ack (ie_ack env) (xm_ID msg) w1 else w1
                | (Inr _, w1) \<Rightarrow> ack (ie_ack env) (xm_ID msg) w1)))"

section \<open>The contract of a gated stream worker\<close>

text \<open>A result after which an entry need not be delivered again.\<close>

fun settled :: "(go_error \<Rightarrow> bool) \<Rightarrow> go_error + 'r \<Rightarrow> bool" where
  "settled permanent (Inl e) = permanent e"
| "settled permanent (Inr _) = True"

text \<open>
  What the event and the catalog worker promise alike: an entry that cannot be decoded or is
  stale is acknowledged unprocessed, an unreadable verdict leaves it pending, and a processed one
  is acknowledged exactly when its result is settled.
\<close>

locale gated_worker =
  fixes handle :: "XMessage \<Rightarrow> 'w \<Rightarrow> 'w"
    and acked :: "'w \<Rightarrow> string list"
    and record_ack :: "string \<Rightarrow> 'w \<Rightarrow> 'w"
    and decode :: "XMessage \<Rightarrow> go_error + 'p"
    and verdict :: "'p \<Rightarrow> 'w \<Rightarrow> go_error + EnvelopeDisposition"
    and process :: "'p \<Rightarrow> 'w \<Rightarrow> (go_error + 'r) \<times> 'w"
    and permanent :: "go_error \<Rightarrow> bool"
  assumes undecodable: "decode m = Inl e \<Longrightarrow> handle m w = record_ack (xm_ID m) w"
    and unread: "decode m = Inr p \<Longrightarrow> verdict p w = Inl e \<Longrightarrow> handle m w = w"
    and stale: "decode m = Inr p \<Longrightarrow> verdict p w = Inr EnvelopeStale \<Longrightarrow> handle m w = record_ack (xm_ID m) w"
    and processed: "decode m = Inr p \<Longrightarrow> verdict p w = Inr EnvelopeProcess \<Longrightarrow> process p w = (r, w1) \<Longrightarrow>
      handle m w = (if settled permanent r then record_ack (xm_ID m) w1 else w1)"
    and process_acked: "acked (snd (process p w)) = acked w"
begin

text \<open>Only a settled delivery adds to the acknowledged entries.\<close>

lemma acked_settled:
  assumes "acked (handle m w) \<noteq> acked w"
  obtains (dropped) e where "decode m = Inl e" "handle m w = record_ack (xm_ID m) w"
  | (outdated) p where "decode m = Inr p" "verdict p w = Inr EnvelopeStale" "handle m w = record_ack (xm_ID m) w"
  | (handled) p r w1 where "decode m = Inr p" "verdict p w = Inr EnvelopeProcess" "process p w = (r, w1)"
      "settled permanent r" "handle m w = record_ack (xm_ID m) w1"
proof (cases "decode m")
  case (Inl e)
  from dropped [OF Inl undecodable [OF Inl]] show thesis .
next
  case (Inr p)
  show thesis
  proof (cases "verdict p w")
    case (Inl e)
    with unread [OF Inr Inl] assms show thesis by simp
  next
    case v: (Inr d)
    show thesis
    proof (cases d)
      case EnvelopeStale
      with v have v': "verdict p w = Inr EnvelopeStale" by simp
      from outdated [OF Inr v' stale [OF Inr v']] show thesis .
    next
      case EnvelopeProcess
      with v have v': "verdict p w = Inr EnvelopeProcess" by simp
      obtain r w1 where run: "process p w = (r, w1)" by fastforce
      then have "acked w1 = acked w" using process_acked [of p w] by simp
      with assms processed [OF Inr v' run] have s: "settled permanent r" by (auto split: if_splits)
      with processed [OF Inr v' run] have "handle m w = record_ack (xm_ID m) w1" by simp
      from handled [OF Inr v' run s this] show thesis .
    qed
  qed
qed

text \<open>An entry whose envelope cannot be judged is left exactly as it was, however often it comes back.\<close>

lemma unread_forever:
  assumes "decode m = Inr p" and "verdict p w = Inl e"
  shows "(handle m ^^ n) w = w"
  by (induction n) (simp_all add: unread [OF assms])

end

section \<open>What processing changes\<close>

lemma ack_simps [simp]:
  "iw_events (ack f i w) = iw_events w" "iw_ledger (ack f i w) = iw_ledger w"
  "iw_next_id (ack f i w) = iw_next_id w" "iw_tail (ack f i w) = iw_tail w"
  by (simp_all add: ack_def split: option.split)

text \<open>The row a processed payload becomes.\<close>

definition event_row :: "EventPayload \<Rightarrow> real \<Rightarrow> time \<Rightarrow> int \<Rightarrow> Event" where
  "event_row payload weight occurred i =
     \<lparr>ev_ID = i, ev_Namespace = ep_Namespace payload, ev_SubjectID = ep_SubjectID payload,
      ev_ObjectID = ep_ObjectID payload, ev_Action = ep_Action payload, ev_Weight = weight,
      ev_OccurredAt = occurred, ev_ObjectCreatedAt = ep_ObjectCreatedAt payload\<rparr>"

lemma processActive_cases:
  obtains (error) e where "processActive env ctx p w = (Inl e, w)"
  | (stored) weight w1 where "processActive env ctx p w = (Inr (iw_next_id w), w1)"
      "resolveWeight (ie_get env) ctx (ep_Namespace p) (ep_Action p) = Inr weight"
      "iw_events w1 = iw_events w @ [event_row p weight (ep_OccurredAt p) (iw_next_id w)]"
      "iw_next_id w1 = iw_next_id w + 1" "iw_ledger w1 = iw_ledger w" "iw_acked w1 = iw_acked w"
proof (cases "resolveWeight (ie_get env) ctx (ep_Namespace p) (ep_Action p)")
  case (Inl e)
  then show thesis using that(1) by (simp add: processActive_def)
next
  case (Inr weight)
  then show thesis
  proof (cases "ie_insert env")
    case (Some e)
    with Inr show thesis using that(1) by (simp add: processActive_def Event_Insert_def Let_def)
  next
    case None
    with Inr that(2) [of "snd (processActive env ctx p w)" weight] show thesis
      by (simp add: processActive_def Event_Insert_def Let_def event_row_def)
  qed
qed

lemma event_row_sel [simp]:
  "ev_ID (event_row p weight t i) = i" "ev_Namespace (event_row p weight t i) = ep_Namespace p"
  by (simp_all add: event_row_def)

lemma event_row_stamp [simp]:
  "event_row (p\<lparr>ep_NamespaceGeneration := g\<rparr>) weight t i = event_row p weight t i"
  by (simp add: event_row_def)

text \<open>The bounds every stored row keeps with respect to a clock reading.\<close>

definition event_bounded :: "time \<Rightarrow> Event \<Rightarrow> bool" where
  "event_bounded now e \<longleftrightarrow>
     ev_Namespace e \<noteq> [] \<and> ev_SubjectID e \<noteq> [] \<and> ev_ObjectID e \<noteq> [] \<and>
     ev_OccurredAt e \<le> now + maxOccurredAtSkew \<and>
     (case ev_ObjectCreatedAt e of None \<Rightarrow> True | Some t \<Rightarrow> t \<le> now + maxOccurredAtSkew)"

lemma event_bounded_mono: "event_bounded now e \<Longrightarrow> now \<le> now' \<Longrightarrow> event_bounded now' e"
  by (auto simp: event_bounded_def split: option.splits)

lemma skew_pos: "0 \<le> maxOccurredAtSkew"
  by (simp add: maxOccurredAtSkew_def minutes_def seconds_def)

text \<open>Who may store: behind the fence, only a caller leased for a generation the ledger has active.\<close>

definition may_store :: "ingest_env \<Rightarrow> lctx \<Rightarrow> namespace \<Rightarrow> ledger \<Rightarrow> bool" where
  "may_store env ctx ns L \<longleftrightarrow>
     ie_lifecycle env = None \<or>
     (\<exists>g. leased ctx ns g \<or> phase L ns = ActiveAt g \<and> sys_state (system_lifecycle L) = SystemActive)"

lemma checked_payload_ok:
  assumes "checked_payload now p = Inr q"
  shows "ep_Namespace q = ep_Namespace p" and "ep_Action q = ep_Action p"
    and "event_row q weight t i = event_row p weight t i"
    and "event_bounded now (event_row q weight (ep_OccurredAt q) i)"
  using assms skew_pos
  by (auto simp: checked_payload_def event_row_def event_bounded_def not_less split: if_splits option.splits)

text \<open>
  A processed payload is stored once, complete and within the clock bounds, or the state is as
  before.
\<close>

lemma Process_cases:
  obtains (error) e where "Process env ctx p w = (Inl e, w)"
  | (stored) e w1 where "Process env ctx p w = (Inr (iw_next_id w), w1)"
      "e = event_row p (ev_Weight e) (ev_OccurredAt e) (iw_next_id w)"
      "\<exists>ctx'. resolveWeight (ie_get env) ctx' (ep_Namespace p) (ep_Action p) = Inr (ev_Weight e)"
      "event_bounded (ie_now env) e" "may_store env ctx (ep_Namespace p) (iw_ledger w)"
      "iw_events w1 = iw_events w @ [e]" "iw_next_id w1 = iw_next_id w + 1"
      "iw_ledger w1 = iw_ledger w" "iw_acked w1 = iw_acked w"
proof (cases "checked_payload (ie_now env) p")
  case (Inl e)
  then show thesis using that(1) by (simp add: Process_def)
next
  case (Inr q)
  note q = checked_payload_ok [OF Inr] and fails = that(1) and stores = that(2)
  have active: thesis if "Process env ctx p w = processActive env ctx' r w" "may_store env ctx (ep_Namespace p) (iw_ledger w)"
    "r = q \<or> (\<exists>g. r = q\<lparr>ep_NamespaceGeneration := g\<rparr>)" for ctx' r
  proof (cases rule: processActive_cases [of env ctx' r w])
    case (error e)
    with that(1) show thesis by (intro fails) simp
  next
    case (stored weight w1)
    let ?e = "event_row q weight (ep_OccurredAt q) (iw_next_id w)"
    have r: "event_row r weight (ep_OccurredAt r) (iw_next_id w) = ?e" "ep_Namespace r = ep_Namespace p"
      "ep_Action r = ep_Action p"
      using that(3) q(1,2) by auto
    have "?e = event_row p (ev_Weight ?e) (ev_OccurredAt ?e) (iw_next_id w)" "ev_Weight ?e = weight"
      using q(3) by (simp_all add: event_row_def)
    then show thesis
      using stores [of w1 ?e] stored r q(4) that(1,2) by metis
  qed
  show thesis
  proof (cases "ie_lifecycle env")
    case None
    with Inr show thesis by (intro active [of ctx q]) (simp_all add: Process_def may_store_def)
  next
    case (Some svc)
    let ?fn = "\<lambda>leased lc w. processActive env leased (q\<lparr>ep_NamespaceGeneration := lc_Generation lc\<rparr>) w"
    have run: "Process env ctx p w = fst (WithWriter svc iw_ledger ctx (ep_Namespace p) ?fn w)"
      using Inr Some q(1) by (simp add: Process_def)
    from fence.runs_or_blocks [of svc iw_ledger ctx "ep_Namespace p" ?fn w] show thesis
    proof (elim disjE exE conjE)
      fix e assume "fst (WithWriter svc iw_ledger ctx (ep_Namespace p) ?fn w) = (Inl e, w)"
      with run show thesis by (intro fails) simp
    next
      fix ctx' lc
      assume r: "fst (WithWriter svc iw_ledger ctx (ep_Namespace p) ?fn w) = ?fn ctx' lc w"
        and "leased ctx (ep_Namespace p) (lc_Generation lc)"
      then have "may_store env ctx (ep_Namespace p) (iw_ledger w)" unfolding may_store_def by blast
      then show thesis using run r by (intro active) auto
    next
      fix ctx' lc
      assume r: "fst (WithWriter svc iw_ledger ctx (ep_Namespace p) ?fn w) = ?fn ctx' lc w"
        and "phase (iw_ledger w) (ep_Namespace p) = ActiveAt (lc_Generation lc)"
          "sys_state (system_lifecycle (iw_ledger w)) = SystemActive"
      then have "may_store env ctx (ep_Namespace p) (iw_ledger w)" unfolding may_store_def by blast
      then show thesis using run r by (intro active) auto
    qed
  qed
qed

lemma Process_acked: "iw_acked (snd (Process env ctx p w)) = iw_acked w"
  by (rule Process_cases [of env ctx p w]) simp_all

interpretation events: gated_worker "handleMessage env unmarshal ctx" iw_acked "ack (ie_ack env)"
  "decodeEventMessage unmarshal" "event_verdict env" "Process env ctx" permanent_event_error
  for env unmarshal ctx
proof
  fix m p w r w1
  assume "decodeEventMessage unmarshal m = Inr p" "event_verdict env p w = Inr EnvelopeProcess"
    "Process env ctx p w = (r, w1)"
  then show "handleMessage env unmarshal ctx m w
    = (if settled permanent_event_error r then ack (ie_ack env) (xm_ID m) w1 else w1)"
    by (cases r) (simp_all add: handleMessage_def)
qed (simp_all add: handleMessage_def Process_acked)

text \<open>Invariant of the events table: bounded rows, ids below the sequence and distinct.\<close>

definition events_wf :: "time \<Rightarrow> ingest_world \<Rightarrow> bool" where
  "events_wf horizon w \<longleftrightarrow>
     list_all (event_bounded horizon) (iw_events w) \<and> list_all (\<lambda>e. ev_ID e < iw_next_id w) (iw_events w)
     \<and> distinct (map ev_ID (iw_events w))"

lemma events_wf_ack [simp]: "events_wf h (ack f i w) = events_wf h w"
  by (simp add: events_wf_def)

lemma events_wf_Process:
  assumes "events_wf horizon w" and "ie_now env \<le> horizon"
  shows "events_wf horizon (snd (Process env ctx p w))"
proof (cases rule: Process_cases [of env ctx p w])
  case (stored e w1)
  have "ev_ID e = iw_next_id w" using arg_cong [OF stored(2), of ev_ID] by simp
  moreover have "event_bounded horizon e" using stored(4) assms(2) by (rule event_bounded_mono)
  moreover have "ev_ID x < iw_next_id w + 1" if "x \<in> set (iw_events w)" for x
    using that assms(1) by (fastforce simp: events_wf_def list_all_iff)
  ultimately show ?thesis
    using assms(1) stored(1,6,7) by (fastforce simp: events_wf_def list_all_iff)
qed (use assms in simp)

lemma events_wf_handle:
  assumes "events_wf horizon w" and "ie_now env \<le> horizon"
  shows "events_wf horizon (handleMessage env unmarshal ctx m w)"
  using assms events_wf_Process [OF assms]
  by (auto simp: handleMessage_def split: sum.split EnvelopeDisposition.split prod.split) (metis snd_conv)+

section \<open>The HTTP handler\<close>

text \<open>
  \<^verbatim>\<open>Handler.Ingest\<close> and the lifecycle answers of \<^verbatim>\<open>httpapi.WriteLifecycleError\<close>: the status and
  the error code of the response. \<open>body\<close> is what \<^verbatim>\<open>DecodeStrict\<close> returned.
\<close>

definition WriteLifecycleError :: "go_error \<Rightarrow> (nat \<times> string) option" where
  "WriteLifecycleError e =
     (case e of
        ErrNamespaceNotFound \<Rightarrow> Some (404, ''namespace_not_found'')
      | ErrNamespaceNotActive \<Rightarrow> Some (409, ''namespace_not_active'')
      | ErrSystemResetting \<Rightarrow> Some (409, ''namespace_not_active'')
      | _ \<Rightarrow> None)"

definition isClientPayloadError :: "go_error \<Rightarrow> bool" where
  "isClientPayloadError e \<longleftrightarrow>
     e = IngestError ErrInvalidPayload \<or> e = IngestError ErrUnknownAction \<or> e = IngestError IngestNamespaceNotFound"

definition Handler_Ingest ::
  "ingest_env \<Rightarrow> lctx \<Rightarrow> namespace \<Rightarrow> go_error + EventPayload \<Rightarrow> ingest_world \<Rightarrow> (nat \<times> string) \<times> ingest_world" where
  "Handler_Ingest env ctx ns body w =
     (if ns = [] then ((400, ''missing_namespace''), w)
      else case body of
             Inl _ \<Rightarrow> ((400, ''invalid_request''), w)
           | Inr payload \<Rightarrow>
               (case Process env ctx (payload\<lparr>ep_Namespace := ns\<rparr>) w of
                  (Inl e, w1) \<Rightarrow>
                    (case WriteLifecycleError e of
                       Some answer \<Rightarrow> (answer, w1)
                     | None \<Rightarrow>
                         if e = IngestError ErrInvalidObjectCreatedAt then ((400, ''invalid_object_created_at''), w1)
                         else if isClientPayloadError e then ((400, ''invalid_event''), w1)
                         else ((500, ''internal_error''), w1))
                | (Inr i, w1) \<Rightarrow> ((202, []), w1)))"

text \<open>Accepted means stored, under the namespace of the path; any other answer leaves the table alone.\<close>

lemma Handler_Ingest_accepts:
  assumes "Handler_Ingest env ctx ns body w = (answer, w1)"
  shows "if fst answer = 202
         then \<exists>e. iw_events w1 = iw_events w @ [e] \<and> ev_Namespace e = ns \<and> event_bounded (ie_now env) e
         else w1 = w"
proof (cases "ns = [] \<or> (\<exists>e. body = Inl e)")
  case True
  with assms show ?thesis by (auto simp: Handler_Ingest_def split: if_splits)
next
  case False
  then obtain p where p: "ns \<noteq> []" "body = Inr p" by (cases body) auto
  show ?thesis
  proof (cases rule: Process_cases [of env ctx "p\<lparr>ep_Namespace := ns\<rparr>" w])
    case (error e)
    with assms p show ?thesis
      by (auto simp: Handler_Ingest_def WriteLifecycleError_def split: go_error.splits if_splits)
  next
    case (stored e w2)
    have "ev_Namespace e = ns" using arg_cong [OF stored(2), of ev_Namespace] by simp
    with assms p stored show ?thesis by (auto simp: Handler_Ingest_def)
  qed
qed

lemma tail_drops_newest:
  "length (tb_queue b) \<ge> tb_cap b \<Longrightarrow> tb_queue (Tail_Publish msg b) = tb_queue b \<and> tb_dropped (Tail_Publish msg b) = tb_dropped b + 1"
  by (simp add: Tail_Publish_def)

section \<open>Properties\<close>

text \<open>C20: A stream entry is acknowledged only when nothing is left to do for it: it cannot be decoded,
  or its generation is stale, or the service refused it for good, and then no row was written; or
  exactly one row was written, carrying the payload's ids and action with the weight resolved for
  them, while the ledger allowed a writer in. So an entry that meets a lost database or a lost lock
  stays pending and is delivered again.\<close>

theorem event_acked_only_when_settled:
  assumes "handleMessage env unmarshal ctx m w = w'" and "iw_acked w' \<noteq> iw_acked w"
  shows "(iw_events w' = iw_events w \<and>
           ((\<exists>e. decodeEventMessage unmarshal m = Inl e) \<or>
            (\<exists>p. decodeEventMessage unmarshal m = Inr p \<and>
               (event_verdict env p w = Inr EnvelopeStale \<or>
                (\<exists>e. fst (Process env ctx p w) = Inl e \<and> permanent_event_error e)))))
       \<or> (\<exists>p e. decodeEventMessage unmarshal m = Inr p \<and> iw_events w' = iw_events w @ [e] \<and>
            e = event_row p (ev_Weight e) (ev_OccurredAt e) (iw_next_id w) \<and>
            (\<exists>ctx'. resolveWeight (ie_get env) ctx' (ep_Namespace p) (ep_Action p) = Inr (ev_Weight e)) \<and>
            event_bounded (ie_now env) e \<and> may_store env ctx (ep_Namespace p) (iw_ledger w))"
proof -
  have "iw_acked (handleMessage env unmarshal ctx m w) \<noteq> iw_acked w" using assms by simp
  then show ?thesis
  proof (cases rule: events.acked_settled)
    case (dropped e)
    have "iw_events w' = iw_events w" unfolding assms(1) [symmetric] dropped(2) by simp
    with dropped(1) show ?thesis by blast
  next
    case (outdated p)
    have "iw_events w' = iw_events w" unfolding assms(1) [symmetric] outdated(3) by simp
    with outdated(1,2) show ?thesis by blast
  next
    case (handled p r w1)
    have w': "iw_events w' = iw_events w1" unfolding assms(1) [symmetric] handled(5) by simp
    show ?thesis
    proof (cases rule: Process_cases [of env ctx p w])
      case (error e)
      then have "w1 = w" "r = Inl e" using handled(3) by simp_all
      then have "iw_events w' = iw_events w" "fst (Process env ctx p w) = Inl e" "permanent_event_error e"
        using w' error handled(4) by simp_all
      with handled(1) show ?thesis by blast
    next
      case (stored e w2)
      then have "iw_events w' = iw_events w @ [e]" using handled(3) w' by simp
      with stored(2-5) handled(1) show ?thesis by blast
    qed
  qed
qed

text \<open>A like of one object, delivered to a healthy worker of the namespace \<^verbatim>\<open>shop\<close>.\<close>

definition shop_env :: ingest_env where
  "shop_env = \<lparr>ie_lifecycle = Some healthy, ie_now = 1000, ie_get = (\<lambda>ctx ns. Inr (Some (base_config ns 1))),
     ie_insert = None, ie_envelope = None, ie_ack = None\<rparr>"

definition shop_like :: EventPayload where
  "shop_like = \<lparr>ep_Namespace = ''shop'', ep_NamespaceGeneration = 0, ep_SubjectID = ''u'', ep_ObjectID = ''o'',
     ep_Action = ''LIKE'', ep_OccurredAt = zero_time, ep_ObjectCreatedAt = None\<rparr>"

definition shop_world :: ingest_world where
  "shop_world = \<lparr>iw_ledger = shop_ledger, iw_events = [], iw_next_id = 7, iw_tail = None, iw_acked = []\<rparr>"

definition shop_entry :: XMessage where
  "shop_entry = \<lparr>xm_ID = ''9-0'', xm_Values = [(''payload'', GoString ''like'')]\<rparr>"

lemma shop_like_processed:
  "Process shop_env background shop_like shop_world =
     (Inr 7, shop_world\<lparr>iw_events := [event_row shop_like 5 1000 7], iw_next_id := 8\<rparr>)"
proof -
  have "checked_payload 1000 shop_like = Inr (shop_like\<lparr>ep_OccurredAt := 1000\<rparr>)"
    by (simp add: checked_payload_def shop_like_def)
  moreover have "Process shop_env background shop_like shop_world =
      processActive shop_env (with_lease background ''shop'' 1 LockShared)
        (shop_like\<lparr>ep_OccurredAt := 1000, ep_NamespaceGeneration := 1\<rparr>) shop_world"
    if "checked_payload 1000 shop_like = Inr (shop_like\<lparr>ep_OccurredAt := 1000\<rparr>)"
    using that by (simp add: Process_def shop_env_def shop_writer shop_world_def shop_like_def background_def)
      (simp add: shop_lifecycle_def)
  ultimately show ?thesis
    by (simp add: processActive_def shop_env_def resolveWeight_def base_config_def DefaultActionWeights_def
        Event_Insert_def Let_def event_row_def shop_like_def shop_world_def)
qed

lemma shop_entry_handled:
  "handleMessage shop_env (\<lambda>_. Inr shop_like) background shop_entry shop_world =
     shop_world\<lparr>iw_events := [event_row shop_like 5 1000 7], iw_next_id := 8, iw_acked := [''9-0'']\<rparr>"
proof -
  have "event_verdict shop_env shop_like shop_world = Inr EnvelopeProcess"
    by (simp add: event_verdict_def shop_env_def shop_like_def shop_world_def EvaluateEnvelope_def shop_ledger_get
        stamped_def) (simp add: shop_lifecycle_def)
  then show ?thesis
    by (simp add: handleMessage_def decodeEventMessage_def shop_entry_def shop_like_processed)
      (simp add: ack_def shop_env_def shop_world_def)
qed

theorem event_acked_only_when_settled_witness:
  "let w' = handleMessage shop_env (\<lambda>_. Inr shop_like) background shop_entry shop_world
   in iw_acked w' = [''9-0''] \<and> (\<exists>e. iw_events w' = [e] \<and> ev_Weight e = 5 \<and> event_bounded 1000 e)"
proof -
  let ?w' = "handleMessage shop_env (\<lambda>_. Inr shop_like) background shop_entry shop_world"
  have new: "iw_acked ?w' \<noteq> iw_acked shop_world" "iw_events ?w' \<noteq> iw_events shop_world"
    unfolding shop_entry_handled by (simp_all add: shop_world_def)
  obtain e where "iw_events ?w' = iw_events shop_world @ [e]" "event_bounded (ie_now shop_env) e"
    using event_acked_only_when_settled [OF refl new(1)] new(2) by blast
  then show ?thesis
    unfolding shop_entry_handled by (auto simp: shop_world_def shop_env_def event_row_def Let_def)
qed

text \<open>C21: Whatever is delivered, in whatever order and with whatever failures, the events table keeps
  its rows in bounds: complete ids, distinct row ids below the sequence, and no timestamp more than
  the permitted five minutes ahead of the latest clock reading, so no decay exponent grows past it.\<close>

theorem stored_events_stay_bounded:
  assumes "events_wf horizon w"
    and "list_all (\<lambda>(env, unmarshal, ctx, m). ie_now env \<le> horizon) deliveries"
  shows "events_wf horizon (fold (\<lambda>(env, unmarshal, ctx, m). handleMessage env unmarshal ctx m) deliveries w)"
  using assms
proof (induction deliveries arbitrary: w)
  case (Cons d ds)
  obtain env unmarshal ctx m where d: "d = (env, unmarshal, ctx, m)" by (rule prod_cases4)
  from Cons.prems have "events_wf horizon (handleMessage env unmarshal ctx m w)"
    by (intro events_wf_handle) (simp_all add: d)
  with Cons.IH Cons.prems(2) show ?case by (simp add: d)
qed simp

theorem stored_events_stay_bounded_witness:
  "let w = handleMessage shop_env (\<lambda>_. Inr shop_like) background shop_entry
             (handleMessage shop_env (\<lambda>_. Inr shop_like) background shop_entry shop_world)
   in events_wf 1000 w"
proof -
  have "events_wf 1000 shop_world" by (simp add: events_wf_def shop_world_def)
  from stored_events_stay_bounded [OF this,
      of "[(shop_env, \<lambda>_. Inr shop_like, background, shop_entry), (shop_env, \<lambda>_. Inr shop_like, background, shop_entry)]"]
  show ?thesis by (simp add: shop_env_def Let_def)
qed

end
