(* ===== verification/Utf8_Text.thy ===== *)
theory Utf8_Text
  imports Core_Types "HOL-Library.AList"
begin

text \<open>
  Go strings as byte sequences: the UTF-8 decoder of \<^verbatim>\<open>unicode/utf8\<close>, \<^verbatim>\<open>utf8.ValidString\<close>,
  \<^verbatim>\<open>strings.ToValidUTF8\<close> and \<^verbatim>\<open>strings.TrimSpace\<close> as the catalog uses them, and the catalog's
  own sanitizing of what PostgreSQL cannot store (\<^verbatim>\<open>internal/catalog/service.go\<close>). Sanitizing is
  shown to yield storable values and to leave storable ones alone.
\<close>

section \<open>Decoding\<close>

definition byte :: "char \<Rightarrow> nat" where
  "byte c = of_char c"

definition in_range :: "nat \<Rightarrow> nat \<Rightarrow> char \<Rightarrow> bool" where
  "in_range lo hi c \<longleftrightarrow> lo \<le> byte c \<and> byte c \<le> hi"

definition cont :: "char \<Rightarrow> bool" where
  "cont = in_range 0x80 0xBF"

text \<open>
  The length of the well-formed sequence a string starts with, or nothing when the decoder
  reports an encoding error (which it does with width 1). \<open>second\<close> is the range the lead byte
  leaves for the second byte, \<open>width\<close> the length it announces.
\<close>

definition second :: "char \<Rightarrow> char \<Rightarrow> bool" where
  "second a = (if byte a = 0xE0 then in_range 0xA0 0xBF
               else if byte a = 0xED then in_range 0x80 0x9F
               else if byte a = 0xF0 then in_range 0x90 0xBF
               else if byte a = 0xF4 then in_range 0x80 0x8F
               else cont)"

definition width :: "char \<Rightarrow> nat" where
  "width a = (if byte a < 0x80 then 1
              else if in_range 0xC2 0xDF a then 2
              else if in_range 0xE0 0xEF a then 3
              else if in_range 0xF0 0xF4 a then 4
              else 0)"

definition rune_size :: "string \<Rightarrow> nat option" where
  "rune_size s =
     (case s of
        [] \<Rightarrow> None
      | a # r \<Rightarrow>
          let n = width a; tail = take (n - 1) r
          in if n = 0 then None
             else if n = 1 then Some 1
             else if length tail = n - 1 \<and> second a (hd tail) \<and> list_all cont (tl tail)
             then Some n else None)"

lemma rune_size_SomeD: "rune_size s = Some n \<Longrightarrow> 0 < n \<and> n \<le> length s"
  by (auto simp: rune_size_def Let_def split: list.splits if_splits)

lemma rune_size_take: "rune_size s = Some n \<Longrightarrow> rune_size (take n s @ t) = Some n"
  by (cases s; cases n) (auto simp: rune_size_def Let_def split: if_splits)

text \<open>The code point of a well-formed sequence.\<close>

definition rune_value :: "string \<Rightarrow> nat" where
  "rune_value bs =
     (case map byte bs of
        [a] \<Rightarrow> a
      | [a, b] \<Rightarrow> (a mod 0x20) * 0x40 + b mod 0x40
      | [a, b, c] \<Rightarrow> ((a mod 0x10) * 0x40 + b mod 0x40) * 0x40 + c mod 0x40
      | [a, b, c, d] \<Rightarrow> (((a mod 0x08) * 0x40 + b mod 0x40) * 0x40 + c mod 0x40) * 0x40 + d mod 0x40
      | _ \<Rightarrow> 0xFFFD)"

text \<open>
  The pieces the decoder cuts a string into: each well-formed sequence as \<open>Inr\<close>, each byte it
  reports as an encoding error as \<open>Inl\<close>.
\<close>

function pieces :: "string \<Rightarrow> (char + string) list" where
  "pieces s =
     (if s = [] then []
      else case rune_size s of
             None \<Rightarrow> Inl (hd s) # pieces (tl s)
           | Some n \<Rightarrow> Inr (take n s) # pieces (drop n s))"
  by pat_completeness auto
termination
proof (relation "measure length", goal_cases)
  case (3 s n)
  then show ?case using rune_size_SomeD [of s n] by simp
qed simp_all

declare pieces.simps [simp del]

lemma pieces_Nil [simp]: "pieces [] = []"
  by (subst pieces.simps) simp

lemma pieces_ascii: "byte c < 0x80 \<Longrightarrow> pieces (c # s) = Inr [c] # pieces s"
  by (subst pieces.simps) (simp add: rune_size_def width_def)

text \<open>\<^verbatim>\<open>utf8.ValidString\<close> and \<^verbatim>\<open>strings.ToValidUTF8(s, "")\<close>.\<close>

definition ValidString :: "string \<Rightarrow> bool" where
  "ValidString s = list_all (\<lambda>p. \<not> isl p) (pieces s)"

definition ToValidUTF8 :: "string \<Rightarrow> string" where
  "ToValidUTF8 s = concat (map (case_sum (\<lambda>_. []) (\<lambda>r. r)) (pieces s))"

text \<open>\<^verbatim>\<open>unicode.IsSpace\<close> and \<^verbatim>\<open>strings.TrimSpace\<close>.\<close>

definition IsSpace :: "nat \<Rightarrow> bool" where
  "IsSpace r \<longleftrightarrow> r \<in> {0x09, 0x0A, 0x0B, 0x0C, 0x0D, 0x20, 0x85, 0xA0, 0x1680, 0x2028, 0x2029, 0x202F, 0x205F, 0x3000}
     \<or> 0x2000 \<le> r \<and> r \<le> 0x200A"

definition space_piece :: "char + string \<Rightarrow> bool" where
  "space_piece p = (case p of Inl _ \<Rightarrow> False | Inr r \<Rightarrow> IsSpace (rune_value r))"

definition TrimSpace :: "string \<Rightarrow> string" where
  "TrimSpace s =
     concat (map (case_sum (\<lambda>c. [c]) (\<lambda>r. r))
       (rev (dropWhile space_piece (rev (dropWhile space_piece (pieces s))))))"

section \<open>Sanitizing\<close>

definition NUL :: char where "NUL = CHR 0x00"

definition isStorable :: "string \<Rightarrow> bool" where
  "isStorable s \<longleftrightarrow> NUL \<notin> set s \<and> ValidString s"

definition sanitizeStorable :: "string \<Rightarrow> string" where
  "sanitizeStorable s = ToValidUTF8 (filter (\<lambda>c. c \<noteq> NUL) s)"

text \<open>
  A metadata map is the list of its entries in the order Go's iteration visits them; an
  assignment to a key that is already there overwrites it.
\<close>

fun sanitizeStorableValue :: "json \<Rightarrow> json" where
  "sanitizeStorableValue (JStr s) = JStr (sanitizeStorable s)"
| "sanitizeStorableValue (JObj m) =
     JObj (fold (\<lambda>(k, v) out. AList.update k v out)
             (map (\<lambda>(k, v). (sanitizeStorable k, sanitizeStorableValue v)) m) [])"
| "sanitizeStorableValue (JArr xs) = JArr (map sanitizeStorableValue xs)"
| "sanitizeStorableValue v = v"

definition sanitizeStorableMetadata :: "(string \<times> json) list option \<Rightarrow> (string \<times> json) list option" where
  "sanitizeStorableMetadata m =
     (case m of
        None \<Rightarrow> None
      | Some entries \<Rightarrow>
          Some (fold (\<lambda>(k, v) out. AList.update k v out)
                  (map (\<lambda>(k, v). (sanitizeStorable k, sanitizeStorableValue v)) entries) []))"

section \<open>What the decoder cuts\<close>

definition piece_bytes :: "char + string \<Rightarrow> string" where
  "piece_bytes = case_sum (\<lambda>c. [c]) (\<lambda>r. r)"

definition well_formed :: "string \<Rightarrow> bool" where
  "well_formed r \<longleftrightarrow> rune_size r = Some (length r)"

lemma pieces_bad: "s \<noteq> [] \<Longrightarrow> rune_size s = None \<Longrightarrow> pieces s = Inl (hd s) # pieces (tl s)"
  by (subst pieces.simps) simp

lemma pieces_good: "rune_size s = Some n \<Longrightarrow> pieces s = Inr (take n s) # pieces (drop n s)"
  by (subst pieces.simps) (auto simp: rune_size_def)

lemma rune_size_whole: "rune_size s = Some n \<Longrightarrow> well_formed (take n s)"
  using rune_size_take [of s n "[]"] rune_size_SomeD [of s n] by (simp add: well_formed_def)

lemma pieces_induct [case_names empty bad good]:
  assumes "P []" and "\<And>s. s \<noteq> [] \<Longrightarrow> rune_size s = None \<Longrightarrow> P (tl s) \<Longrightarrow> P s"
    and "\<And>s n. rune_size s = Some n \<Longrightarrow> P (drop n s) \<Longrightarrow> P s"
  shows "P s"
proof (induction s rule: pieces.induct)
  case (1 s)
  then show ?case using assms by (cases "s = []"; cases "rune_size s") auto
qed

lemma pieces_bytes: "concat (map piece_bytes (pieces s)) = s"
proof (induction s rule: pieces_induct)
  case (bad s)
  then show ?case by (simp add: pieces_bad piece_bytes_def)
next
  case (good s n)
  then show ?case by (simp add: pieces_good piece_bytes_def)
qed simp

lemma pieces_well_formed: "Inr r \<in> set (pieces s) \<Longrightarrow> well_formed r"
proof (induction s rule: pieces_induct)
  case (good s n)
  then show ?case by (auto simp: pieces_good rune_size_whole)
qed (auto simp: pieces_bad)

lemma pieces_concat: "list_all well_formed rs \<Longrightarrow> pieces (concat rs) = map Inr rs"
proof (induction rs)
  case (Cons r rs)
  then have "rune_size r = Some (length r)" by (simp add: well_formed_def)
  then have "rune_size (r @ concat rs) = Some (length r)"
    using rune_size_take [of r "length r" "concat rs"] by simp
  with Cons show ?case by (simp add: pieces_good)
qed simp

text \<open>The runes of a string, in order.\<close>

definition runes :: "string \<Rightarrow> string list" where
  "runes s = map projr (filter (\<lambda>p. \<not> isl p) (pieces s))"

lemma runes_well_formed: "list_all well_formed (runes s)"
  using pieces_well_formed [of _ s] by (auto simp: runes_def list_all_iff isl_def)

lemma ToValidUTF8_runes: "ToValidUTF8 s = concat (runes s)"
proof -
  have "concat (map (case_sum (\<lambda>_. []) (\<lambda>r. r)) ps) = concat (map projr (filter (\<lambda>p. \<not> isl p) ps))" for ps :: "(char + string) list"
    by (induction ps) (auto split: sum.splits)
  then show ?thesis by (simp add: ToValidUTF8_def runes_def)
qed

lemma ValidString_concat: "list_all well_formed rs \<Longrightarrow> ValidString (concat rs)"
  by (simp add: ValidString_def pieces_concat list_all_iff)

lemma ToValidUTF8_valid: "ValidString (ToValidUTF8 s)"
  by (simp add: ToValidUTF8_runes ValidString_concat runes_well_formed)

lemma ToValidUTF8_id:
  assumes "ValidString s"
  shows "ToValidUTF8 s = s"
proof -
  have "map (case_sum (\<lambda>_. []) (\<lambda>r. r)) (pieces s) = map piece_bytes (pieces s)"
    using assms by (auto simp: ValidString_def list_all_iff piece_bytes_def split: sum.splits)
  then show ?thesis unfolding ToValidUTF8_def by (simp only: pieces_bytes)
qed

lemma ToValidUTF8_subset: "set (ToValidUTF8 s) \<subseteq> set s"
proof -
  have "set (concat (map (case_sum (\<lambda>_. []) (\<lambda>r. r)) ps)) \<subseteq> set (concat (map piece_bytes ps))" for ps :: "(char + string) list"
    by (induction ps) (auto simp: piece_bytes_def split: sum.splits)
  from this [of "pieces s"] show ?thesis by (simp add: ToValidUTF8_def pieces_bytes)
qed

lemma sanitizeStorable_storable [simp]: "isStorable (sanitizeStorable s)"
  using ToValidUTF8_subset [of "filter (\<lambda>c. c \<noteq> NUL) s"]
  by (auto simp: isStorable_def sanitizeStorable_def ToValidUTF8_valid)

lemma sanitizeStorable_id_iff: "sanitizeStorable s = s \<longleftrightarrow> isStorable s"
proof
  assume "isStorable s"
  then have "filter (\<lambda>c. c \<noteq> NUL) s = s" "ValidString s" by (auto simp: isStorable_def filter_id_conv)
  then show "sanitizeStorable s = s" by (simp add: sanitizeStorable_def ToValidUTF8_id)
qed (metis sanitizeStorable_storable)

lemma trim_Nil_iff: "rev (dropWhile P (rev (dropWhile P xs))) = [] \<longleftrightarrow> list_all P xs"
proof (cases "dropWhile P xs")
  case Nil
  then have "\<forall>x \<in> set xs. P x" by (simp add: dropWhile_eq_Nil_conv)
  then show ?thesis unfolding Nil by (simp add: list_all_iff)
next
  case (Cons y ys)
  then have "\<not> P y" "y \<in> set xs" by (auto simp: dropWhile_eq_Cons_conv) (metis in_set_conv_decomp)
  then show ?thesis unfolding Cons by (auto simp: list_all_iff dropWhile_eq_Nil_conv)
qed

lemma TrimSpace_Nil_iff: "TrimSpace s = [] \<longleftrightarrow> list_all space_piece (pieces s)"
proof -
  let ?ps = "rev (dropWhile space_piece (rev (dropWhile space_piece (pieces s))))"
  have "piece_bytes p \<noteq> []" if "p \<in> set (pieces s)" for p
  proof (cases p)
    case (Inr r)
    with that have "well_formed r" using pieces_well_formed by blast
    with Inr show ?thesis by (auto simp: piece_bytes_def well_formed_def rune_size_def)
  qed (simp add: piece_bytes_def)
  moreover have "set ?ps \<subseteq> set (pieces s)" by (auto dest!: set_dropWhileD)
  ultimately have "concat (map piece_bytes ?ps) = [] \<longleftrightarrow> ?ps = []"
    unfolding concat_eq_Nil_conv by (metis list.set_intros(1) list.set_map image_eqI list.map_disc_iff neq_Nil_conv subsetD empty_iff list.set(1) imageE)
  then show ?thesis unfolding TrimSpace_def trim_Nil_iff piece_bytes_def .
qed

section \<open>Metadata\<close>

fun json_storable :: "json \<Rightarrow> bool" where
  "json_storable (JStr s) = isStorable s"
| "json_storable (JArr xs) = list_all json_storable xs"
| "json_storable (JObj m) = (list_all (\<lambda>(k, v). isStorable k \<and> json_storable v) m \<and> distinct (map fst m))"
| "json_storable v = True"

lemma update_storable:
  "isStorable k \<Longrightarrow> Q v \<Longrightarrow> list_all (\<lambda>(k, v). isStorable k \<and> Q v) out
   \<Longrightarrow> list_all (\<lambda>(k, v). isStorable k \<and> Q v) (AList.update k v out)"
  by (induction out) (auto split: if_splits)

lemma fold_update_storable:
  assumes "list_all (\<lambda>(k, v). isStorable k \<and> Q v) kvs" and "list_all (\<lambda>(k, v). isStorable k \<and> Q v) out"
    and "distinct (map fst out)"
  shows "list_all (\<lambda>(k, v). isStorable k \<and> Q v) (fold (\<lambda>(k, v) out. AList.update k v out) kvs out)
         \<and> distinct (map fst (fold (\<lambda>(k, v) out. AList.update k v out) kvs out))"
  using assms
proof (induction kvs arbitrary: out)
  case (Cons kv kvs)
  obtain k v where kv: "kv = (k, v)" by fastforce
  have "list_all (\<lambda>(k, v). isStorable k \<and> Q v) (AList.update k v out)"
    using Cons.prems(1,2) unfolding kv by (intro update_storable) simp_all
  with Cons.IH [of "AList.update k v out"] Cons.prems show ?case by (simp add: kv distinct_update)
qed simp

lemma sanitizeStorableValue_storable: "json_storable (sanitizeStorableValue v)"
proof (induction v rule: sanitizeStorableValue.induct)
  case (2 m)
  then have "list_all (\<lambda>(k, v). isStorable k \<and> json_storable v)
      (map (\<lambda>(k, v). (sanitizeStorable k, sanitizeStorableValue v)) m)"
    by (auto simp: list_all_iff)
  from fold_update_storable [OF this] show ?case by simp
qed (auto simp: list_all_iff)

lemma fold_update_append:
  assumes "distinct (map fst (out @ kvs))"
  shows "fold (\<lambda>(k, v) out. AList.update k v out) kvs out = out @ kvs"
  using assms
proof (induction kvs arbitrary: out)
  case (Cons kv kvs)
  obtain k v where kv: "kv = (k, v)" by fastforce
  have "AList.update k v out = out @ [(k, v)]" if "k \<notin> fst ` set out" for out :: "('a \<times> 'b) list"
    using that by (induction out) auto
  with Cons show ?case by (auto simp: kv)
qed simp

lemma sanitizeStorableValue_id: "json_storable v \<Longrightarrow> sanitizeStorableValue v = v"
proof (induction v rule: sanitizeStorableValue.induct)
  case (2 m)
  then have "map (\<lambda>(k, v). (sanitizeStorable k, sanitizeStorableValue v)) m = m"
    by (intro map_idI) (auto simp: list_all_iff sanitizeStorable_id_iff)
  with 2 show ?case using fold_update_append [of "[]" m] by simp
qed (auto simp: sanitizeStorable_id_iff list_all_iff intro: map_idI)

lemma sanitizeStorableMetadata_value:
  "sanitizeStorableMetadata (Some m) = Some m' \<longleftrightarrow> sanitizeStorableValue (JObj m) = JObj m'"
  by (auto simp: sanitizeStorableMetadata_def)

section \<open>Properties\<close>

text \<open>Whatever bytes a client sends, sanitized content is free of NUL and valid UTF-8, and sanitized
  metadata is so at every depth, keys included, with no key twice; and exactly the values that were
  storable already come out unchanged, so nothing storable is ever rewritten.\<close>

lemma sanitizing_makes_storable:
  "isStorable (sanitizeStorable s) \<and> (sanitizeStorable s = s \<longleftrightarrow> isStorable s)
   \<and> json_storable (sanitizeStorableValue v) \<and> (sanitizeStorableValue v = v \<longleftrightarrow> json_storable v)
   \<and> (\<exists>m'. sanitizeStorableMetadata (Some m) = Some m' \<and> json_storable (JObj m'))"
proof -
  obtain m' where m': "sanitizeStorableMetadata (Some m) = Some m'"
    by (simp add: sanitizeStorableMetadata_def)
  then have "json_storable (JObj m')"
    unfolding sanitizeStorableMetadata_value by (metis sanitizeStorableValue_storable)
  with m' show ?thesis
    by (metis sanitizeStorable_id_iff sanitizeStorable_storable sanitizeStorableValue_id sanitizeStorableValue_storable)
qed

end
