(* ===== verification/Catalog_Items.thy ===== *)
theory Catalog_Items
  imports Utf8_Text Sql_Table
begin

text \<open>
  The table \<^verbatim>\<open>catalog_items\<close> and the statements \<^verbatim>\<open>internal/catalog/repository.go\<close> issues on it: the
  content-hash upsert and the reconciliation read. A statement is atomic and a failed one has no
  effect. The table \<^verbatim>\<open>objects\<close> of \<^verbatim>\<open>internal/objects/repository.go\<close> is here too, because a
  catalog write may carry an attribution in the same transaction.
\<close>

section \<open>Rows\<close>

datatype item_state = StatePending | StateInFlight | StateEmbedded | StateFailed | StateDeadLetter

record catalog_row =
  ci_id :: int
  ci_namespace :: namespace
  ci_object_id :: string
  ci_content :: string
  ci_content_hash :: string
  ci_metadata :: "(string \<times> json) list"
  ci_state :: item_state
  ci_strategy_id :: "string option"
  ci_strategy_version :: "string option"
  ci_embedded_at :: "time option"
  ci_attempt_count :: int
  ci_last_error :: "string option"
  ci_created_at :: time
  ci_updated_at :: time

text \<open>The rows and the next value of the id sequence.\<close>

record catalog_table =
  ct_rows :: "catalog_row list"
  ct_seq :: int

record Item =
  it_ID :: int
  it_Namespace :: namespace
  it_ObjectID :: string
  it_Content :: string
  it_ContentHash :: string
  it_Metadata :: "(string \<times> json) list option"
  it_State :: item_state
  it_StrategyID :: string
  it_StrategyVersion :: string
  it_EmbeddedAt :: "time option"
  it_AttemptCount :: int
  it_LastError :: string
  it_CreatedAt :: time
  it_UpdatedAt :: time

record UpsertResult =
  ur_Item :: Item
  ur_NeedsPublish :: bool

definition item_key :: "catalog_row \<Rightarrow> namespace \<times> string" where
  "item_key r = (ci_namespace r, ci_object_id r)"

abbreviation item_of :: "catalog_table \<Rightarrow> namespace \<Rightarrow> string \<Rightarrow> catalog_row option" where
  "item_of t ns oid \<equiv> lookup_row item_key (ct_rows t) (ns, oid)"

section \<open>The upsert\<close>

text \<open>Metadata is stored as a JSON object: an absent map as the empty one, which reads back as absent.\<close>

definition marshalMetadata :: "(string \<times> json) list option \<Rightarrow> (string \<times> json) list" where
  "marshalMetadata m = (case m of None \<Rightarrow> [] | Some entries \<Rightarrow> entries)"

definition unmarshalMetadata :: "(string \<times> json) list \<Rightarrow> (string \<times> json) list option" where
  "unmarshalMetadata entries = (if entries = [] then None else Some entries)"

definition coalesce :: "string option \<Rightarrow> string" where
  "coalesce v = (case v of None \<Rightarrow> [] | Some s \<Rightarrow> s)"

definition scan_item :: "catalog_row \<Rightarrow> Item" where
  "scan_item r =
     \<lparr>it_ID = ci_id r, it_Namespace = ci_namespace r, it_ObjectID = ci_object_id r,
      it_Content = ci_content r, it_ContentHash = ci_content_hash r,
      it_Metadata = unmarshalMetadata (ci_metadata r), it_State = ci_state r,
      it_StrategyID = coalesce (ci_strategy_id r), it_StrategyVersion = coalesce (ci_strategy_version r),
      it_EmbeddedAt = ci_embedded_at r, it_AttemptCount = ci_attempt_count r,
      it_LastError = coalesce (ci_last_error r), it_CreatedAt = ci_created_at r, it_UpdatedAt = ci_updated_at r\<rparr>"

definition fresh_row ::
  "int \<Rightarrow> time \<Rightarrow> namespace \<Rightarrow> string \<Rightarrow> string \<Rightarrow> string \<Rightarrow> (string \<times> json) list \<Rightarrow> catalog_row" where
  "fresh_row i now ns oid content hash meta =
     \<lparr>ci_id = i, ci_namespace = ns, ci_object_id = oid, ci_content = content, ci_content_hash = hash,
      ci_metadata = meta, ci_state = StatePending, ci_strategy_id = None, ci_strategy_version = None,
      ci_embedded_at = None, ci_attempt_count = 0, ci_last_error = None, ci_created_at = now, ci_updated_at = now\<rparr>"

definition conflict_row :: "time \<Rightarrow> string \<Rightarrow> string \<Rightarrow> (string \<times> json) list \<Rightarrow> catalog_row \<Rightarrow> catalog_row" where
  "conflict_row now content hash meta r =
     (let same = (ci_content_hash r = hash)
      in r\<lparr>ci_content := content, ci_content_hash := hash, ci_metadata := meta,
           ci_state := (if same then ci_state r else StatePending),
           ci_attempt_count := (if same then ci_attempt_count r else 0),
           ci_last_error := (if same then ci_last_error r else None),
           ci_updated_at := now\<rparr>)"

text \<open>
  \<^verbatim>\<open>Upsert\<close>: the id default is drawn from the sequence before the conflict is found, so every
  executed statement uses up a value.
\<close>

definition Upsert ::
  "go_error option \<Rightarrow> time \<Rightarrow> namespace \<Rightarrow> string \<Rightarrow> string \<Rightarrow> string \<Rightarrow> (string \<times> json) list option
   \<Rightarrow> catalog_table \<Rightarrow> (go_error + UpsertResult) \<times> catalog_table" where
  "Upsert fault now ns oid content hash metadata t =
     (case fault of
        Some e \<Rightarrow> (Inl e, t)
      | None \<Rightarrow>
          let meta = marshalMetadata metadata
          in case item_of t ns oid of
               None \<Rightarrow>
                 let r = fresh_row (ct_seq t) now ns oid content hash meta
                 in (Inr \<lparr>ur_Item = scan_item r, ur_NeedsPublish = True\<rparr>,
                     t\<lparr>ct_rows := ct_rows t @ [r], ct_seq := ct_seq t + 1\<rparr>)
             | Some r \<Rightarrow>
                 (Inr \<lparr>ur_Item = scan_item (conflict_row now content hash meta r),
                       ur_NeedsPublish = (ci_content_hash r \<noteq> hash)\<rparr>,
                  t\<lparr>ct_rows := update_where (\<lambda>x. item_key x = (ns, oid))
                       (conflict_row now content hash meta) (ct_rows t),
                    ct_seq := ct_seq t + 1\<rparr>))"

section \<open>Attribution\<close>

record object_row =
  ob_namespace :: namespace
  ob_object_id :: string
  ob_author :: "string option"
  ob_created_at :: time
  ob_updated_at :: time

definition object_key :: "object_row \<Rightarrow> namespace \<times> string" where
  "object_key r = (ob_namespace r, ob_object_id r)"

definition nullif_empty :: "string \<Rightarrow> string option" where
  "nullif_empty s = (if s = [] then None else Some s)"

definition Object_Upsert ::
  "go_error option \<Rightarrow> time \<Rightarrow> namespace \<Rightarrow> string \<Rightarrow> string \<Rightarrow> object_row list \<Rightarrow> (go_error + object_row) \<times> object_row list" where
  "Object_Upsert fault now ns oid author t =
     (case fault of
        Some e \<Rightarrow> (Inl e, t)
      | None \<Rightarrow>
          (case lookup_row object_key t (ns, oid) of
             None \<Rightarrow>
               let r = \<lparr>ob_namespace = ns, ob_object_id = oid, ob_author = nullif_empty author,
                     ob_created_at = now, ob_updated_at = now\<rparr>
               in (Inr r, t @ [r])
           | Some r \<Rightarrow>
               let f = (\<lambda>r. r\<lparr>ob_author := nullif_empty author, ob_updated_at := now\<rparr>)
               in (Inr (f r), update_where (\<lambda>x. object_key x = (ns, oid)) f t)))"

definition Object_Delete :: "go_error option \<Rightarrow> namespace \<Rightarrow> string \<Rightarrow> object_row list \<Rightarrow> (go_error + unit) \<times> object_row list" where
  "Object_Delete fault ns oid t =
     (case fault of
        Some e \<Rightarrow> (Inl e, t)
      | None \<Rightarrow> (Inr (), delete_where (\<lambda>x. object_key x = (ns, oid)) t))"

text \<open>
  \<^verbatim>\<open>UpsertWithAttribution\<close> on both tables: without an author hook the upsert alone, with one the
  upsert and the hook in one transaction, whose failure at either statement or at the commit
  restores both tables. (The id sequence is not transactional.)
\<close>

definition UpsertWithAttribution ::
  "go_error option \<Rightarrow> go_error option \<Rightarrow> time \<Rightarrow> namespace \<Rightarrow> string \<Rightarrow> string \<Rightarrow> string
   \<Rightarrow> (string \<times> json) list option \<Rightarrow> (object_row list \<Rightarrow> (go_error + unit) \<times> object_row list) option
   \<Rightarrow> catalog_table \<times> object_row list \<Rightarrow> (go_error + UpsertResult) \<times> (catalog_table \<times> object_row list)" where
  "UpsertWithAttribution fault commit now ns oid content hash metadata writeAuthor = (\<lambda>(t, objs).
     case writeAuthor of
       None \<Rightarrow> (case Upsert fault now ns oid content hash metadata t of (r, t') \<Rightarrow> (r, (t', objs)))
     | Some write \<Rightarrow>
         (case Upsert fault now ns oid content hash metadata t of
            (Inl e, t') \<Rightarrow> (Inl e, (t', objs))
          | (Inr res, t') \<Rightarrow>
              let rolled_back = (t\<lparr>ct_seq := ct_seq t'\<rparr>, objs)
              in case write objs of
                   (Inl e, _) \<Rightarrow> (Inl e, rolled_back)
                 | (Inr _, objs') \<Rightarrow>
                     (case commit of Some e \<Rightarrow> (Inl e, rolled_back) | None \<Rightarrow> (Inr res, (t', objs')))))"

section \<open>The reconciliation read\<close>

record ObjectRow =
  or_ID :: int
  or_ObjectID :: string
  or_UpdatedAt :: time

definition object_row_of :: "catalog_row \<Rightarrow> ObjectRow" where
  "object_row_of r = \<lparr>or_ID = ci_id r, or_ObjectID = ci_object_id r, or_UpdatedAt = ci_updated_at r\<rparr>"

definition row_key :: "ObjectRow \<Rightarrow> time \<times> int" where
  "row_key r = (or_UpdatedAt r, or_ID r)"

text \<open>The rows the \<^verbatim>\<open>WHERE\<close> clause without the cursor selects, in the order of the query.\<close>

definition object_rows :: "namespace \<Rightarrow> time option \<Rightarrow> catalog_table \<Rightarrow> ObjectRow list" where
  "object_rows ns since t =
     sort_key row_key (map object_row_of (filter (\<lambda>r. ci_namespace r = ns
       \<and> (case since of None \<Rightarrow> True | Some s \<Rightarrow> s < ci_updated_at r)) (ct_rows t)))"

definition ListObjects ::
  "go_error option \<Rightarrow> namespace \<Rightarrow> time option \<Rightarrow> int \<Rightarrow> int \<Rightarrow> (time \<times> int) option \<Rightarrow> catalog_table
   \<Rightarrow> go_error + ObjectRow list \<times> int" where
  "ListObjects fault ns since limit offset cursor t =
     (case fault of
        Some e \<Rightarrow> Inl e
      | None \<Rightarrow>
          let rows = object_rows ns since t
          in Inr (take (nat limit) (drop (nat offset)
                   (filter (\<lambda>r. case cursor of None \<Rightarrow> True | Some c \<Rightarrow> c < row_key r) rows)),
                  int (length rows)))"

section \<open>What the upsert keeps\<close>

text \<open>The table's constraints: primary key, unique object per namespace, ids below the sequence.\<close>

definition catalog_wf :: "catalog_table \<Rightarrow> bool" where
  "catalog_wf t \<longleftrightarrow> keyed ci_id (ct_rows t) \<and> keyed item_key (ct_rows t)
     \<and> list_all (\<lambda>r. 1 \<le> ci_id r \<and> ci_id r < ct_seq t \<and> 0 \<le> ci_attempt_count r) (ct_rows t) \<and> 1 \<le> ct_seq t"

lemma conflict_row_key [simp]:
  "ci_id (conflict_row now c h m r) = ci_id r" "ci_namespace (conflict_row now c h m r) = ci_namespace r"
  "ci_object_id (conflict_row now c h m r) = ci_object_id r"
  "ci_strategy_id (conflict_row now c h m r) = ci_strategy_id r"
  "ci_strategy_version (conflict_row now c h m r) = ci_strategy_version r"
  "ci_embedded_at (conflict_row now c h m r) = ci_embedded_at r"
  "ci_created_at (conflict_row now c h m r) = ci_created_at r"
  "ci_content (conflict_row now c h m r) = c" "ci_content_hash (conflict_row now c h m r) = h"
  "item_key (conflict_row now c h m r) = item_key r"
  by (simp_all add: conflict_row_def item_key_def Let_def)

lemma fresh_row_key [simp]:
  "item_key (fresh_row i now ns oid c h m) = (ns, oid)" "ci_id (fresh_row i now ns oid c h m) = i"
  "ci_attempt_count (fresh_row i now ns oid c h m) = 0"
  by (simp_all add: fresh_row_def item_key_def)

lemma Upsert_wf: "catalog_wf t \<Longrightarrow> catalog_wf (snd (Upsert fault now ns oid content hash metadata t))"
proof (cases fault)
  case None
  assume wf: "catalog_wf t"
  show ?thesis
  proof (cases "item_of t ns oid")
    case new: None
    let ?r = "fresh_row (ct_seq t) now ns oid content hash (marshalMetadata metadata)"
    have "ct_seq t \<notin> ci_id ` set (ct_rows t)" using wf by (auto simp: catalog_wf_def list_all_iff)
    then have "keyed ci_id (ct_rows t @ [?r])" using wf by (auto simp: keyed_def catalog_wf_def)
    moreover have "keyed item_key (ct_rows t @ [?r])"
      using wf new by (intro keyed_snoc) (simp_all add: catalog_wf_def)
    ultimately show ?thesis
      using wf new None by (auto simp: Upsert_def catalog_wf_def list_all_iff Let_def)
  next
    case (Some r)
    let ?u = "update_where (\<lambda>x. item_key x = (ns, oid)) (conflict_row now content hash (marshalMetadata metadata)) (ct_rows t)"
    have "list_all (\<lambda>r. 1 \<le> ci_id r \<and> ci_id r < ct_seq t + 1 \<and> 0 \<le> ci_attempt_count r) (ct_rows t)"
      using wf by (auto simp: catalog_wf_def list_all_iff intro: less_imp_le)
    then have "list_all (\<lambda>r. 1 \<le> ci_id r \<and> ci_id r < ct_seq t + 1 \<and> 0 \<le> ci_attempt_count r) ?u"
      by (rule list_all_update) (simp add: conflict_row_def Let_def)
    with Some wf None show ?thesis by (simp add: Upsert_def catalog_wf_def Let_def)
  qed
qed (simp add: Upsert_def)

text \<open>What a lookup sees after an executed upsert: the row of its own key, every other key as before.\<close>

lemma Upsert_lookup:
  assumes "Upsert None now ns oid content hash metadata t = (Inr res, t')"
  shows "item_of t' ns oid = Some (case item_of t ns oid of
             None \<Rightarrow> fresh_row (ct_seq t) now ns oid content hash (marshalMetadata metadata)
           | Some r \<Rightarrow> conflict_row now content hash (marshalMetadata metadata) r)"
    and "(ns', oid') \<noteq> (ns, oid) \<Longrightarrow> item_of t' ns' oid' = item_of t ns' oid'"
    and "ur_NeedsPublish res = (case item_of t ns oid of None \<Rightarrow> True | Some r \<Rightarrow> ci_content_hash r \<noteq> hash)"
    and "item_of t' ns oid = Some r' \<Longrightarrow> ur_Item res = scan_item r'"
proof -
  note upd = lookup_row_update_key [of item_key "conflict_row now content hash (marshalMetadata metadata)" "(ns, oid)"]
  show "item_of t' ns oid = Some (case item_of t ns oid of
             None \<Rightarrow> fresh_row (ct_seq t) now ns oid content hash (marshalMetadata metadata)
           | Some r \<Rightarrow> conflict_row now content hash (marshalMetadata metadata) r)"
    using assms by (auto simp: Upsert_def Let_def lookup_row_snoc upd simp del: lookup_row_update split: option.splits)
  show "item_of t' ns' oid' = item_of t ns' oid'" if "(ns', oid') \<noteq> (ns, oid)"
    using assms that by (auto simp: Upsert_def Let_def lookup_row_snoc upd simp del: lookup_row_update split: option.splits)
  show "ur_NeedsPublish res = (case item_of t ns oid of None \<Rightarrow> True | Some r \<Rightarrow> ci_content_hash r \<noteq> hash)"
    using assms by (auto simp: Upsert_def Let_def split: option.splits)
  show "ur_Item res = scan_item r'" if "item_of t' ns oid = Some r'"
    using assms that by (auto simp: Upsert_def Let_def lookup_row_snoc upd simp del: lookup_row_update split: option.splits)
qed

section \<open>The read is a keyset source\<close>

lemma distinct_map_sort_key: "distinct (map f xs) \<Longrightarrow> distinct (map f (sort_key k xs))"
  unfolding distinct_map by simp

lemma object_rows_sorted:
  assumes "catalog_wf t"
  shows "sorted_wrt (\<lambda>a b. row_key a < row_key b) (object_rows ns since t)"
proof -
  let ?P = "\<lambda>r. ci_namespace r = ns \<and> (case since of None \<Rightarrow> True | Some s \<Rightarrow> s < ci_updated_at r)"
  have "distinct (map ci_id (filter ?P (ct_rows t)))"
    using assms by (simp add: catalog_wf_def keyed_def distinct_map_filter)
  then have "distinct (map or_ID (map object_row_of (filter ?P (ct_rows t))))"
    by (simp add: object_row_of_def comp_def)
  then have "distinct (map or_ID (object_rows ns since t))"
    unfolding object_rows_def by (rule distinct_map_sort_key)
  then have "distinct (map row_key (object_rows ns since t))"
    by (auto simp: distinct_map row_key_def inj_on_def)
  moreover have "sorted (map row_key (object_rows ns since t))" by (simp add: object_rows_def)
  ultimately have "sorted_wrt (<) (map row_key (object_rows ns since t))" by (simp only: strict_sorted_iff)
  then show ?thesis by (simp only: sorted_wrt_map)
qed

interpretation objs: keyset_source catalog_wf "object_rows ns since" row_key
  "\<lambda>t c n. fst (projr (ListObjects None ns since (int n) 0 (Some c) t))" for ns since
  by unfold_locales (simp_all add: object_rows_sorted ListObjects_def Let_def)

end
