(* ===== verification/Catalog_Ingest.thy ===== *)
theory Catalog_Ingest
  imports Catalog_Items Event_Ingest
begin

text \<open>
  The catalog domain (\<^verbatim>\<open>internal/catalog\<close>): validation, the fenced upsert with attribution, the
  publish to the generation's embed stream, batches, the page cursor of the reconciliation read;
  the adapter that feeds stream items into it (\<^verbatim>\<open>cmd/api/catalog_stream_adapter.go\<close>) and the
  catalog stream worker (\<^verbatim>\<open>internal/ingest/catalog_worker.go\<close>). The hash is an argument, as are
  the JSON codec of the cursor and the two time formats.
\<close>

section \<open>Requests, state and environment\<close>

record IngestRequest =
  ir_ObjectID :: string
  ir_Content :: string
  ir_AuthorSubjectID :: string
  ir_Metadata :: "(string \<times> json) list option"

text \<open>The fields of an entry on the embed stream.\<close>

record embed_entry =
  ee_catalog_item_id :: int
  ee_namespace :: namespace
  ee_namespace_generation :: int
  ee_object_id :: string
  ee_strategy_id :: string
  ee_strategy_version :: string
  ee_enqueued_at :: time

record catalog_world =
  cw_ledger :: ledger
  cw_items :: catalog_table
  cw_objects :: "object_row list"
  cw_streams :: "(string \<times> embed_entry) list"
  cw_acked :: "string list"

record catalog_env =
  ce_lifecycle :: "svc_env option"
  ce_now :: time
  ce_get :: "lctx \<Rightarrow> namespace \<Rightarrow> go_error + Config option"
  ce_hash :: "string \<Rightarrow> string"
  ce_default_max :: int
  ce_authors :: "svc_env option option"
  ce_upsert :: "go_error option"
  ce_author :: "go_error option"
  ce_commit :: "go_error option"
  ce_xadd :: "go_error option"
  ce_envelope :: "go_error option"
  ce_ack :: "go_error option"

section \<open>Attribution\<close>

text \<open>
  \<^verbatim>\<open>SetAuthorWithRepo\<close> of the objects service on the transaction's table: a blank author writes
  nothing, and the service's own fence applies again (reentrantly, under the caller's lease).
\<close>

definition SetAuthorWithRepo ::
  "svc_env option \<Rightarrow> ledger \<Rightarrow> go_error option \<Rightarrow> time \<Rightarrow> lctx \<Rightarrow> namespace \<Rightarrow> string \<Rightarrow> string
   \<Rightarrow> object_row list \<Rightarrow> (go_error + unit) \<times> object_row list" where
  "SetAuthorWithRepo lifecycle L fault now ctx ns oid authorSubjectID objs =
     (let author = TrimSpace authorSubjectID;
          write = (\<lambda>objs. case Object_Upsert fault now ns oid author objs of
                             (Inl e, o') \<Rightarrow> (Inl e, o') | (Inr _, o') \<Rightarrow> (Inr (), o'))
      in if author = [] then (Inr (), objs)
         else case lifecycle of
                None \<Rightarrow> write objs
              | Some svc \<Rightarrow> fst (WithWriter svc (\<lambda>_. L) ctx ns (\<lambda>_ _ objs. write objs) objs))"

section \<open>Ingest\<close>

definition isDataException :: "go_error \<Rightarrow> bool" where
  "isDataException e = (case e of PgError code \<Rightarrow> prefix ''22'' code | _ \<Rightarrow> False)"

text \<open>\<^verbatim>\<open>generationStreamName\<close>: \<^verbatim>\<open>MustPhysicalName\<close> does not panic, the kind is known and the name not empty.\<close>

definition generationStreamName :: "namespace \<Rightarrow> int \<Rightarrow> string" where
  "generationStreamName ns g = the (inc_MustPhysicalName (NewIncarnation ns g) KindEmbedStream)"

definition publish ::
  "go_error option \<Rightarrow> time \<Rightarrow> namespace \<Rightarrow> Item \<Rightarrow> Config \<Rightarrow> catalog_world \<Rightarrow> (go_error + unit) \<times> catalog_world" where
  "publish fault now ns item cfg w =
     (case fault of
        Some e \<Rightarrow> (Inl e, w)
      | None \<Rightarrow>
          let entry = \<lparr>ee_catalog_item_id = it_ID item, ee_namespace = ns,
                ee_namespace_generation = cfg_Generation cfg, ee_object_id = it_ObjectID item,
                ee_strategy_id = cfg_CatalogStrategyID cfg,
                ee_strategy_version = cfg_CatalogStrategyVersion cfg, ee_enqueued_at = now\<rparr>
          in (Inr (), w\<lparr>cw_streams := cw_streams w @ [(generationStreamName ns (cfg_Generation cfg), entry)]\<rparr>))"

definition max_content :: "catalog_env \<Rightarrow> Config \<Rightarrow> int" where
  "max_content env cfg =
     (if cfg_CatalogMaxContentBytes cfg \<le> 0 then ce_default_max env else cfg_CatalogMaxContentBytes cfg)"

text \<open>The gate \<^verbatim>\<open>ingestActive\<close> passes before it writes: configuration, pause, mode and size.\<close>

definition ingest_gate :: "catalog_env \<Rightarrow> lctx \<Rightarrow> namespace \<Rightarrow> IngestRequest \<Rightarrow> go_error + Config" where
  "ingest_gate env ctx ns req =
     (case ce_get env ctx ns of
        Inl e \<Rightarrow> Inl e
      | Inr None \<Rightarrow> Inl (CatalogError CatalogNamespaceNotFound)
      | Inr (Some cfg) \<Rightarrow>
          if cfg_Paused cfg then Inl (CatalogError CatalogNamespacePaused)
          else if cfg_DenseSource cfg \<noteq> DenseSourceCatalog then Inl (CatalogError ErrNamespaceNotEnabled)
          else if max_content env cfg > 0 \<and> int (length (ir_Content req)) > max_content env cfg
          then Inl (CatalogError ErrContentTooLarge)
          else Inr cfg)"

definition ingestActive ::
  "catalog_env \<Rightarrow> lctx \<Rightarrow> namespace \<Rightarrow> IngestRequest \<Rightarrow> catalog_world \<Rightarrow> (go_error + Item) \<times> catalog_world" where
  "ingestActive env ctx ns req w =
     (case ingest_gate env ctx ns req of
        Inl e \<Rightarrow> (Inl e, w)
      | Inr cfg \<Rightarrow>
          let writeAuthor =
                (case ce_authors env of
                   None \<Rightarrow> None
                 | Some lifecycle \<Rightarrow>
                     if ir_AuthorSubjectID req = [] then None
                     else Some (SetAuthorWithRepo lifecycle (cw_ledger w) (ce_author env) (ce_now env) ctx ns
                                  (ir_ObjectID req) (ir_AuthorSubjectID req)))
          in case UpsertWithAttribution (ce_upsert env) (ce_commit env) (ce_now env) ns (ir_ObjectID req)
                    (ir_Content req) (ce_hash env (ir_Content req)) (ir_Metadata req) writeAuthor
                    (cw_items w, cw_objects w) of
               (Inl e, (items, objs)) \<Rightarrow>
                 (Inl (if isDataException e then CatalogError ErrUnstorable else e),
                  w\<lparr>cw_items := items, cw_objects := objs\<rparr>)
             | (Inr res, (items, objs)) \<Rightarrow>
                 let w1 = w\<lparr>cw_items := items, cw_objects := objs\<rparr>
                 in if ur_NeedsPublish res
                    then (case publish (ce_xadd env) (ce_now env) ns (ur_Item res) cfg w1 of
                            (Inl e, w2) \<Rightarrow> (Inl e, w2) | (Inr _, w2) \<Rightarrow> (Inr (ur_Item res), w2))
                    else (Inr (ur_Item res), w1))"

text \<open>The checks and the sanitizing \<^verbatim>\<open>Ingest\<close> opens with.\<close>

definition checked_request :: "namespace \<Rightarrow> IngestRequest option \<Rightarrow> go_error + IngestRequest" where
  "checked_request ns req =
     (if ns = [] then Inl (CatalogError ErrInvalidRequest)
      else case req of
             None \<Rightarrow> Inl (CatalogError ErrInvalidRequest)
           | Some r \<Rightarrow>
               if ir_ObjectID r = [] then Inl (CatalogError ErrInvalidRequest)
               else if \<not> isStorable (ir_ObjectID r) then Inl (CatalogError ErrInvalidRequest)
               else if \<not> isStorable (ir_AuthorSubjectID r) then Inl (CatalogError ErrInvalidRequest)
               else let r' = r\<lparr>ir_Content := sanitizeStorable (ir_Content r),
                               ir_Metadata := sanitizeStorableMetadata (ir_Metadata r)\<rparr>
                    in if TrimSpace (ir_Content r') = [] then Inl (CatalogError ErrEmptyContent)
                       else Inr r')"

definition Ingest ::
  "catalog_env \<Rightarrow> lctx \<Rightarrow> namespace \<Rightarrow> IngestRequest option \<Rightarrow> catalog_world \<Rightarrow> (go_error + Item) \<times> catalog_world" where
  "Ingest env ctx ns req w =
     (case checked_request ns req of
        Inl e \<Rightarrow> (Inl e, w)
      | Inr r \<Rightarrow>
          (case ce_lifecycle env of
             None \<Rightarrow> ingestActive env ctx ns r w
           | Some svc \<Rightarrow> fst (WithWriter svc cw_ledger ctx ns (\<lambda>leased _ w. ingestActive env leased ns r w) w)))"

section \<open>Batches\<close>

record CatalogBatchItemResult =
  br_ObjectID :: string
  br_Accepted :: bool
  br_Error :: string

record CatalogBatchIngestResponse =
  bi_Namespace :: namespace
  bi_Accepted :: int
  bi_Rejected :: int
  bi_Results :: "CatalogBatchItemResult list"

definition CatalogBatchMaxItems :: nat where
  "CatalogBatchMaxItems = 100"

definition itemErrorCode :: "go_error \<Rightarrow> string" where
  "itemErrorCode e =
     (case e of
        CatalogError ErrEmptyContent \<Rightarrow> ''empty_content''
      | CatalogError ErrContentTooLarge \<Rightarrow> ''content_too_large''
      | CatalogError ErrInvalidRequest \<Rightarrow> ''invalid_request''
      | CatalogError ErrUnstorable \<Rightarrow> ''invalid_request''
      | _ \<Rightarrow> ''internal_error'')"

text \<open>
  The loop of \<^verbatim>\<open>IngestBatch\<close>. Every call meets its own clock and failures: \<open>env i\<close> is the
  environment of the item at position \<open>i\<close>.
\<close>

fun batch_items ::
  "(nat \<Rightarrow> catalog_env) \<Rightarrow> lctx \<Rightarrow> namespace \<Rightarrow> nat \<Rightarrow> IngestRequest list \<Rightarrow> CatalogBatchIngestResponse \<Rightarrow> catalog_world
   \<Rightarrow> (go_error + CatalogBatchIngestResponse) \<times> catalog_world" where
  "batch_items env ctx ns i [] resp w = (Inr resp, w)"
| "batch_items env ctx ns i (item # items) resp w =
     (case Ingest (env i) ctx ns (Some item) w of
        (Inr _, w1) \<Rightarrow>
          batch_items env ctx ns (Suc i) items
            (resp\<lparr>bi_Accepted := bi_Accepted resp + 1,
                  bi_Results := bi_Results resp @ [\<lparr>br_ObjectID = ir_ObjectID item, br_Accepted = True, br_Error = []\<rparr>]\<rparr>) w1
      | (Inl e, w1) \<Rightarrow>
          if e = CatalogError CatalogNamespaceNotFound \<or> e = CatalogError ErrNamespaceNotEnabled then (Inl e, w1)
          else batch_items env ctx ns (Suc i) items
            (resp\<lparr>bi_Rejected := bi_Rejected resp + 1,
                  bi_Results := bi_Results resp @ [\<lparr>br_ObjectID = ir_ObjectID item, br_Accepted = False,
                                                     br_Error = itemErrorCode e\<rparr>]\<rparr>) w1)"

definition IngestBatch ::
  "(nat \<Rightarrow> catalog_env) \<Rightarrow> lctx \<Rightarrow> namespace \<Rightarrow> IngestRequest list option \<Rightarrow> catalog_world
   \<Rightarrow> (go_error + CatalogBatchIngestResponse) \<times> catalog_world" where
  "IngestBatch env ctx ns req w =
     (case req of
        None \<Rightarrow> (Inl (CatalogError ErrInvalidRequest), w)
      | Some items \<Rightarrow>
          if items = [] \<or> length items > CatalogBatchMaxItems then (Inl (CatalogError ErrInvalidRequest), w)
          else batch_items env ctx ns 0 items
                 \<lparr>bi_Namespace = ns, bi_Accepted = 0, bi_Rejected = 0, bi_Results = []\<rparr> w)"

section \<open>The reconciliation read\<close>

record objectCursor =
  oc_Version :: int
  oc_Namespace :: namespace
  oc_ChangedSince :: string
  oc_UpdatedAt :: time
  oc_ID :: int

text \<open>
  The JSON codec of the cursor struct and the two formats: \<^verbatim>\<open>time.RFC3339Nano\<close> of the requested
  lower bound, \<^verbatim>\<open>time.RFC3339\<close> of the listed times.
\<close>

record cursor_codec =
  cc_marshal :: "objectCursor \<Rightarrow> string"
  cc_unmarshal :: "string \<Rightarrow> objectCursor option"
  cc_since :: "time \<Rightarrow> string"
  cc_time :: "time \<Rightarrow> string"

definition encodeObjectCursor :: "cursor_codec \<Rightarrow> objectCursor \<Rightarrow> string" where
  "encodeObjectCursor codec cursor = RawURLEncode (cc_marshal codec cursor)"

definition decodeObjectCursor ::
  "cursor_codec \<Rightarrow> string \<Rightarrow> namespace \<Rightarrow> string \<Rightarrow> go_error + objectCursor option" where
  "decodeObjectCursor codec rawc ns changedSince =
     (if rawc = [] then Inr None
      else case RawURLDecode rawc of
             None \<Rightarrow> Inl (CatalogError ErrInvalidRequest)
           | Some decoded \<Rightarrow>
               (case cc_unmarshal codec decoded of
                  None \<Rightarrow> Inl (CatalogError ErrInvalidRequest)
                | Some cursor \<Rightarrow>
                    if oc_Version cursor \<noteq> 1 \<or> oc_ID cursor < 1 \<or> oc_UpdatedAt cursor = zero_time
                    then Inl (CatalogError ErrInvalidRequest)
                    else if oc_Namespace cursor \<noteq> ns \<or> oc_ChangedSince cursor \<noteq> changedSince
                    then Inl (CatalogError ErrInvalidRequest)
                    else Inr (Some cursor)))"

record CatalogObjectsResponse =
  ors_Namespace :: namespace
  ors_Items :: "(string \<times> string) list"
  ors_Total :: int
  ors_Limit :: int
  ors_Offset :: int
  ors_NextCursor :: string

definition ListObjectsPage ::
  "cursor_codec \<Rightarrow> (namespace \<Rightarrow> go_error + Config option) \<Rightarrow> go_error option \<Rightarrow> namespace \<Rightarrow> time option \<Rightarrow> int \<Rightarrow> int
   \<Rightarrow> string \<Rightarrow> catalog_table \<Rightarrow> go_error + CatalogObjectsResponse" where
  "ListObjectsPage codec get fault ns changedSince limit offset rawCursor t =
     (if ns = [] then Inl (CatalogError ErrInvalidRequest)
      else case get ns of
             Inl e \<Rightarrow> Inl e
           | Inr None \<Rightarrow> Inl (CatalogError CatalogNamespaceNotFound)
           | Inr (Some _) \<Rightarrow>
               let sinceKey = (case changedSince of None \<Rightarrow> [] | Some s \<Rightarrow> cc_since codec s)
               in case decodeObjectCursor codec rawCursor ns sinceKey of
                    Inl e \<Rightarrow> Inl e
                  | Inr cursor \<Rightarrow>
                      if cursor \<noteq> None \<and> offset \<noteq> 0 then Inl (CatalogError ErrInvalidRequest)
                      else case ListObjects fault ns changedSince limit offset
                                  (map_option (\<lambda>c. (oc_UpdatedAt c, oc_ID c)) cursor) t of
                             Inl e \<Rightarrow> Inl e
                           | Inr (rows, count) \<Rightarrow>
                               Inr \<lparr>ors_Namespace = ns,
                                 ors_Items = map (\<lambda>r. (or_ObjectID r, cc_time codec (or_UpdatedAt r))) rows,
                                 ors_Total = count, ors_Limit = limit, ors_Offset = offset,
                                 ors_NextCursor =
                                   (if int (length rows) = limit \<and> rows \<noteq> []
                                    then encodeObjectCursor codec
                                           \<lparr>oc_Version = 1, oc_Namespace = ns, oc_ChangedSince = sinceKey,
                                            oc_UpdatedAt = or_UpdatedAt (last rows), oc_ID = or_ID (last rows)\<rparr>
                                    else [])\<rparr>)"

section \<open>HTTP answers\<close>

definition catalog_writeError :: "go_error \<Rightarrow> nat \<times> string" where
  "catalog_writeError e =
     (case WriteLifecycleError e of
        Some answer \<Rightarrow> answer
      | None \<Rightarrow>
          (case e of
             CatalogError ErrInvalidRequest \<Rightarrow> (400, ''invalid_request'')
           | CatalogError ErrUnstorable \<Rightarrow> (400, ''invalid_request'')
           | CatalogError ErrEmptyContent \<Rightarrow> (422, ''empty_content'')
           | CatalogError ErrContentTooLarge \<Rightarrow> (413, ''content_too_large'')
           | CatalogError CatalogNamespaceNotFound \<Rightarrow> (404, ''namespace_not_enabled'')
           | CatalogError ErrNamespaceNotEnabled \<Rightarrow> (404, ''namespace_not_enabled'')
           | _ \<Rightarrow> (500, ''internal_error'')))"

definition Catalog_Handler_Ingest ::
  "catalog_env \<Rightarrow> lctx \<Rightarrow> namespace \<Rightarrow> go_error + IngestRequest \<Rightarrow> catalog_world \<Rightarrow> (nat \<times> string) \<times> catalog_world" where
  "Catalog_Handler_Ingest env ctx ns body w =
     (if ns = [] then ((400, ''missing_namespace''), w)
      else case body of
             Inl _ \<Rightarrow> ((400, ''invalid_request''), w)
           | Inr req \<Rightarrow> (case Ingest env ctx ns (Some req) w of
                            (Inl e, w1) \<Rightarrow> (catalog_writeError e, w1)
                          | (Inr _, w1) \<Rightarrow> ((202, []), w1)))"

definition Catalog_Handler_BatchIngest ::
  "(nat \<Rightarrow> catalog_env) \<Rightarrow> lctx \<Rightarrow> namespace \<Rightarrow> go_error + IngestRequest list \<Rightarrow> catalog_world
   \<Rightarrow> ((nat \<times> string) + CatalogBatchIngestResponse) \<times> catalog_world" where
  "Catalog_Handler_BatchIngest env ctx ns body w =
     (if ns = [] then (Inl (400, ''missing_namespace''), w)
      else case body of
             Inl _ \<Rightarrow> (Inl (400, ''invalid_request''), w)
           | Inr items \<Rightarrow> (case IngestBatch env ctx ns (Some items) w of
                              (Inl e, w1) \<Rightarrow> (Inl (catalog_writeError e), w1)
                            | (Inr resp, w1) \<Rightarrow> (Inr resp, w1)))"

section \<open>The stream path\<close>

record CatalogStreamItem =
  cs_Namespace :: namespace
  cs_NamespaceGeneration :: int
  cs_ObjectID :: string
  cs_Content :: string
  cs_AuthorSubjectID :: string
  cs_Metadata :: "(string \<times> json) list option"

definition stream_permanent :: "go_error \<Rightarrow> bool" where
  "stream_permanent e \<longleftrightarrow>
     e \<in> CatalogError ` {ErrInvalidRequest, ErrEmptyContent, ErrContentTooLarge, CatalogNamespaceNotFound,
                        CatalogNamespacePaused, ErrNamespaceNotEnabled, ErrUnstorable}"

definition IngestStreamItem ::
  "catalog_env \<Rightarrow> lctx \<Rightarrow> CatalogStreamItem \<Rightarrow> catalog_world \<Rightarrow> (go_error + unit) \<times> catalog_world" where
  "IngestStreamItem env ctx item w =
     (case Ingest env ctx (cs_Namespace item)
             (Some \<lparr>ir_ObjectID = cs_ObjectID item, ir_Content = cs_Content item,
                    ir_AuthorSubjectID = cs_AuthorSubjectID item, ir_Metadata = cs_Metadata item\<rparr>) w of
        (Inr _, w1) \<Rightarrow> (Inr (), w1)
      | (Inl e, w1) \<Rightarrow> (Inl (if stream_permanent e then IngestError ErrCatalogItemRejected else e), w1))"

definition decodeCatalogMessage ::
  "(string \<Rightarrow> go_error + CatalogStreamItem) \<Rightarrow> XMessage \<Rightarrow> go_error + CatalogStreamItem" where
  "decodeCatalogMessage unmarshal msg =
     (case map_of (xm_Values msg) ''payload'' of
        None \<Rightarrow> Inl (Failure ''missing payload field'')
      | Some val \<Rightarrow>
          (case unmarshal (fmt_append val) of
             Inl e \<Rightarrow> Inl e
           | Inr item \<Rightarrow> if cs_Namespace item = [] then Inl (Failure ''missing namespace'') else Inr item))"

definition catalog_ack :: "go_error option \<Rightarrow> string \<Rightarrow> catalog_world \<Rightarrow> catalog_world" where
  "catalog_ack fault i w = (case fault of Some e \<Rightarrow> w | None \<Rightarrow> w\<lparr>cw_acked := cw_acked w @ [i]\<rparr>)"

definition catalog_verdict ::
  "catalog_env \<Rightarrow> CatalogStreamItem \<Rightarrow> catalog_world \<Rightarrow> go_error + EnvelopeDisposition" where
  "catalog_verdict env item w =
     (if ce_lifecycle env = None then Inr EnvelopeProcess
      else EvaluateEnvelope (ce_envelope env) (cw_ledger w) (cs_Namespace item)
             (stamped (cs_NamespaceGeneration item)))"

definition catalog_handleMessage ::
  "catalog_env \<Rightarrow> (string \<Rightarrow> go_error + CatalogStreamItem) \<Rightarrow> lctx \<Rightarrow> XMessage \<Rightarrow> catalog_world \<Rightarrow> catalog_world" where
  "catalog_handleMessage env unmarshal ctx msg w =
     (case decodeCatalogMessage unmarshal msg of
        Inl e \<Rightarrow> catalog_ack (ce_ack env) (xm_ID msg) w
      | Inr item \<Rightarrow>
          (case catalog_verdict env item w of
             Inl e \<Rightarrow> w
           | Inr EnvelopeStale \<Rightarrow> catalog_ack (ce_ack env) (xm_ID msg) w
           | Inr EnvelopeProcess \<Rightarrow>
               (case IngestStreamItem env ctx item w of
                  (Inl e, w1) \<Rightarrow>
                    if e = IngestError ErrCatalogItemRejected then catalog_ack (ce_ack env) (xm_ID msg) w1 else w1
                | (Inr _, w1) \<Rightarrow> catalog_ack (ce_ack env) (xm_ID msg) w1)))"

section \<open>What an ingest changes\<close>

text \<open>The data of the state is as before; only the id sequence may have moved on.\<close>

definition same_data :: "catalog_world \<Rightarrow> catalog_world \<Rightarrow> bool" where
  "same_data w w1 \<longleftrightarrow> ct_rows (cw_items w1) = ct_rows (cw_items w) \<and> cw_objects w1 = cw_objects w
     \<and> cw_streams w1 = cw_streams w \<and> cw_ledger w1 = cw_ledger w \<and> cw_acked w1 = cw_acked w
     \<and> ct_seq (cw_items w) \<le> ct_seq (cw_items w1)"

lemma same_data_refl [simp]: "same_data w w"
  by (simp add: same_data_def)

text \<open>
  The row an executed ingest leaves, whether it needs an embed entry, and what the entry is.
\<close>

definition ingested_row :: "catalog_env \<Rightarrow> namespace \<Rightarrow> IngestRequest \<Rightarrow> catalog_table \<Rightarrow> catalog_row" where
  "ingested_row env ns r t =
     (case item_of t ns (ir_ObjectID r) of
        None \<Rightarrow> fresh_row (ct_seq t) (ce_now env) ns (ir_ObjectID r) (ir_Content r)
                  (ce_hash env (ir_Content r)) (marshalMetadata (ir_Metadata r))
      | Some x \<Rightarrow> conflict_row (ce_now env) (ir_Content r) (ce_hash env (ir_Content r))
                    (marshalMetadata (ir_Metadata r)) x)"

definition content_changed :: "catalog_env \<Rightarrow> namespace \<Rightarrow> IngestRequest \<Rightarrow> catalog_table \<Rightarrow> bool" where
  "content_changed env ns r t \<longleftrightarrow>
     (case item_of t ns (ir_ObjectID r) of None \<Rightarrow> True | Some x \<Rightarrow> ci_content_hash x \<noteq> ce_hash env (ir_Content r))"

definition embed_entry_of :: "catalog_env \<Rightarrow> namespace \<Rightarrow> Config \<Rightarrow> catalog_row \<Rightarrow> string \<times> embed_entry" where
  "embed_entry_of env ns cfg row =
     (generationStreamName ns (cfg_Generation cfg),
      \<lparr>ee_catalog_item_id = ci_id row, ee_namespace = ns, ee_namespace_generation = cfg_Generation cfg,
       ee_object_id = ci_object_id row, ee_strategy_id = cfg_CatalogStrategyID cfg,
       ee_strategy_version = cfg_CatalogStrategyVersion cfg, ee_enqueued_at = ce_now env\<rparr>)"

definition row_written :: "catalog_env \<Rightarrow> namespace \<Rightarrow> IngestRequest \<Rightarrow> catalog_world \<Rightarrow> catalog_world \<Rightarrow> bool" where
  "row_written env ns r w w1 \<longleftrightarrow>
     item_of (cw_items w1) ns (ir_ObjectID r) = Some (ingested_row env ns r (cw_items w))
     \<and> (\<forall>ns' oid'. (ns', oid') \<noteq> (ns, ir_ObjectID r) \<longrightarrow> item_of (cw_items w1) ns' oid' = item_of (cw_items w) ns' oid')
     \<and> (catalog_wf (cw_items w) \<longrightarrow> catalog_wf (cw_items w1))
     \<and> cw_ledger w1 = cw_ledger w \<and> cw_acked w1 = cw_acked w"

lemma Upsert_Inl: "Upsert f now ns oid c h m t = (Inl e, t') \<Longrightarrow> t' = t"
  by (auto simp: Upsert_def Let_def split: option.splits)

lemma Upsert_seq: "ct_seq t \<le> ct_seq (snd (Upsert f now ns oid c h m t))"
  by (auto simp: Upsert_def Let_def split: option.splits)

lemma Upsert_fault: "Upsert f now ns oid c h m t = (Inr res, t') \<Longrightarrow> f = None"
  by (auto simp: Upsert_def split: option.splits)

lemma UpsertWithAttribution_cases:
  assumes "UpsertWithAttribution f cm now ns oid c h m hook (t, objs) = (r, (t', objs'))"
  obtains (failed) e where "r = Inl e" "ct_rows t' = ct_rows t" "objs' = objs" "ct_seq t \<le> ct_seq t'"
  | (stored) res where "r = Inr res" "Upsert None now ns oid c h m t = (Inr res, t')"
proof (cases "Upsert f now ns oid c h m t")
  case (Pair r1 t1)
  show thesis
  proof (cases r1)
    case (Inl e)
    with Pair assms Upsert_Inl [of f now ns oid c h m t e t1] show thesis
      by (intro failed) (auto simp: UpsertWithAttribution_def split: option.splits)
  next
    case (Inr res)
    with Pair have up: "Upsert None now ns oid c h m t = (Inr res, t1)" using Upsert_fault by metis
    show thesis
    proof (cases hook)
      case None
      with Pair Inr assms up show thesis by (intro stored) (auto simp: UpsertWithAttribution_def)
    next
      case (Some wr)
      have "ct_seq t \<le> ct_seq t1" using Upsert_seq [of t f now ns oid c h m] Pair by simp
      with Some Pair Inr assms up show thesis
        by (auto simp: UpsertWithAttribution_def Let_def intro: failed stored split: prod.splits sum.splits option.splits)
    qed
  qed
qed

lemma scan_item_sel [simp]: "it_ID (scan_item r) = ci_id r" "it_ObjectID (scan_item r) = ci_object_id r"
  by (simp_all add: scan_item_def)

text \<open>
  An ingest is refused without touching the data, or its statement or commit fails without
  touching the data, or the row is written: then an entry is published exactly when the content
  changed, unless the publish itself fails.
\<close>

lemma ingestActive_cases:
  assumes "ingestActive env ctx ns r w = (res, w1)"
  obtains (refused) e where "res = Inl e" "same_data w w1"
  | (unpublished) cfg e where "ingest_gate env ctx ns r = Inr cfg" "res = Inl e" "ce_xadd env = Some e"
      "row_written env ns r w w1" "content_changed env ns r (cw_items w)" "cw_streams w1 = cw_streams w"
  | (stored) cfg where "ingest_gate env ctx ns r = Inr cfg"
      "res = Inr (scan_item (ingested_row env ns r (cw_items w)))" "row_written env ns r w w1"
      "cw_streams w1 = cw_streams w @ (if content_changed env ns r (cw_items w)
         then [embed_entry_of env ns cfg (ingested_row env ns r (cw_items w))] else [])"
proof (cases "ingest_gate env ctx ns r")
  case (Inl e)
  with assms show thesis by (intro refused) (auto simp: ingestActive_def)
next
  case (Inr cfg)
  let ?oid = "ir_ObjectID r" and ?h = "ce_hash env (ir_Content r)" and ?t = "cw_items w"
  define hook where "hook = (case ce_authors env of None \<Rightarrow> None
      | Some lifecycle \<Rightarrow> if ir_AuthorSubjectID r = [] then None
          else Some (SetAuthorWithRepo lifecycle (cw_ledger w) (ce_author env) (ce_now env) ctx ns ?oid (ir_AuthorSubjectID r)))"
  obtain u t' objs' where u: "UpsertWithAttribution (ce_upsert env) (ce_commit env) (ce_now env) ns ?oid
      (ir_Content r) ?h (ir_Metadata r) hook (?t, cw_objects w) = (u, (t', objs'))" by (metis surj_pair)
  let ?w1 = "w\<lparr>cw_items := t', cw_objects := objs'\<rparr>"
  have run: "(res, w1) = (case u of
       Inl e \<Rightarrow> (Inl (if isDataException e then CatalogError ErrUnstorable else e), ?w1)
     | Inr ur \<Rightarrow> if ur_NeedsPublish ur
         then (case publish (ce_xadd env) (ce_now env) ns (ur_Item ur) cfg ?w1 of
                 (Inl e, w2) \<Rightarrow> (Inl e, w2) | (Inr _, w2) \<Rightarrow> (Inr (ur_Item ur), w2))
         else (Inr (ur_Item ur), ?w1))"
    using assms u unfolding ingestActive_def Inr hook_def by (auto simp: Let_def split: sum.splits)
  from u show thesis
  proof (cases rule: UpsertWithAttribution_cases)
    case (failed e)
    with run show thesis by (intro refused) (auto simp: same_data_def)
  next
    case (stored ur)
    note look = Upsert_lookup [OF stored(2)]
    have row: "item_of t' ns ?oid = Some (ingested_row env ns r ?t)"
      using look(1) by (simp add: ingested_row_def)
    have np: "ur_NeedsPublish ur = content_changed env ns r ?t" using look(3) by (simp add: content_changed_def)
    have it: "ur_Item ur = scan_item (ingested_row env ns r ?t)" by (rule look(4) [OF row])
    have wf: "catalog_wf ?t \<longrightarrow> catalog_wf t'"
      using Upsert_wf [of ?t None "ce_now env" ns ?oid "ir_Content r" ?h "ir_Metadata r"] stored(2) by simp
    have written: "row_written env ns r w w2" if "cw_items w2 = t'" "cw_ledger w2 = cw_ledger w" "cw_acked w2 = cw_acked w" for w2
      using that row look(2) wf by (auto simp: row_written_def)
    show thesis
    proof (cases "ur_NeedsPublish ur \<and> ce_xadd env \<noteq> None")
      case True
      then obtain e where "ce_xadd env = Some e" by blast
      with True run stored(1) show thesis
        by (intro unpublished [OF Inr, of e]) (auto simp: publish_def np written)
    next
      case False
      with run stored(1) show thesis
        by (intro that(3) [OF Inr])
          (auto simp: publish_def np written it embed_entry_of_def Let_def split: if_splits)
    qed
  qed
qed

lemma Ingest_cases:
  assumes "Ingest env ctx ns req w = (res, w1)"
  obtains (refused) e where "res = Inl e" "same_data w w1"
  | (unpublished) r cfg ctx' e where "checked_request ns req = Inr r" "ingest_gate env ctx' ns r = Inr cfg"
      "res = Inl e" "ce_xadd env = Some e" "row_written env ns r w w1" "content_changed env ns r (cw_items w)"
      "cw_streams w1 = cw_streams w"
  | (stored) r cfg ctx' where "checked_request ns req = Inr r" "ingest_gate env ctx' ns r = Inr cfg"
      "res = Inr (scan_item (ingested_row env ns r (cw_items w)))" "row_written env ns r w w1"
      "cw_streams w1 = cw_streams w @ (if content_changed env ns r (cw_items w)
         then [embed_entry_of env ns cfg (ingested_row env ns r (cw_items w))] else [])"
proof (cases "checked_request ns req")
  case (Inl e)
  with assms show thesis by (intro refused) (auto simp: Ingest_def)
next
  case (Inr r)
  consider (blocked) e where "Ingest env ctx ns req w = (Inl e, w)"
    | (runs) ctx' where "Ingest env ctx ns req w = ingestActive env ctx' ns r w"
  proof (cases "ce_lifecycle env")
    case None
    with Inr runs [of ctx] show thesis by (simp add: Ingest_def)
  next
    case (Some svc)
    let ?fn = "\<lambda>leased lc w. ingestActive env leased ns r w"
    have "Ingest env ctx ns req w = fst (WithWriter svc cw_ledger ctx ns ?fn w)"
      using Inr Some by (simp add: Ingest_def)
    with fence.runs_or_blocks [of svc cw_ledger ctx ns ?fn w] blocked runs show thesis by auto
  qed
  then show thesis
  proof cases
    case blocked
    with assms show thesis by (intro refused) auto
  next
    case (runs ctx')
    then have "ingestActive env ctx' ns r w = (res, w1)" using assms by simp
    then show thesis
      by (cases rule: ingestActive_cases) (use Inr refused unpublished stored in blast)+
  qed
qed

lemma Ingest_acked: "cw_acked (snd (Ingest env ctx ns req w)) = cw_acked w"
proof -
  obtain res w1 where run: "Ingest env ctx ns req w = (res, w1)" by fastforce
  then have "cw_acked w1 = cw_acked w"
    by (cases rule: Ingest_cases) (simp_all add: same_data_def row_written_def)
  with run show ?thesis by simp
qed

lemma same_data_wf: "same_data w w1 \<Longrightarrow> catalog_wf (cw_items w) \<Longrightarrow> catalog_wf (cw_items w1)"
  by (fastforce simp: same_data_def catalog_wf_def list_all_iff)

lemma Ingest_wf:
  assumes "catalog_wf (cw_items w)" and "Ingest env ctx ns req w = (res, w1)"
  shows "catalog_wf (cw_items w1)"
  using assms(2) by (cases rule: Ingest_cases) (use assms(1) same_data_wf in \<open>auto simp: row_written_def\<close>)

lemma IngestStreamItem_acked: "cw_acked (snd (IngestStreamItem env ctx item w)) = cw_acked w"
  using Ingest_acked [of env ctx "cs_Namespace item"
      "Some \<lparr>ir_ObjectID = cs_ObjectID item, ir_Content = cs_Content item,
         ir_AuthorSubjectID = cs_AuthorSubjectID item, ir_Metadata = cs_Metadata item\<rparr>" w]
  by (auto simp: IngestStreamItem_def split: prod.split sum.split)

lemma catalog_ack_simps [simp]:
  "cw_items (catalog_ack f i w) = cw_items w" "cw_streams (catalog_ack f i w) = cw_streams w"
  "cw_objects (catalog_ack f i w) = cw_objects w" "cw_ledger (catalog_ack f i w) = cw_ledger w"
  by (simp_all add: catalog_ack_def split: option.split)

interpretation catalog: gated_worker "catalog_handleMessage env unmarshal ctx" cw_acked "catalog_ack (ce_ack env)"
  "decodeCatalogMessage unmarshal" "catalog_verdict env" "IngestStreamItem env ctx"
  "\<lambda>e. e = IngestError ErrCatalogItemRejected"
  for env unmarshal ctx
proof
  fix m p w r w1
  assume "decodeCatalogMessage unmarshal m = Inr p" "catalog_verdict env p w = Inr EnvelopeProcess"
    "IngestStreamItem env ctx p w = (r, w1)"
  then show "catalog_handleMessage env unmarshal ctx m w
    = (if settled (\<lambda>e. e = IngestError ErrCatalogItemRejected) r then catalog_ack (ce_ack env) (xm_ID m) w1 else w1)"
    by (cases r) (simp_all add: catalog_handleMessage_def)
qed (simp_all add: catalog_handleMessage_def IngestStreamItem_acked)

text \<open>The request a stream item becomes.\<close>

definition stream_request :: "CatalogStreamItem \<Rightarrow> IngestRequest" where
  "stream_request item = \<lparr>ir_ObjectID = cs_ObjectID item, ir_Content = cs_Content item,
     ir_AuthorSubjectID = cs_AuthorSubjectID item, ir_Metadata = cs_Metadata item\<rparr>"

lemma IngestStreamItem_settled:
  assumes "IngestStreamItem env ctx item w = (res, w1)" and "settled (\<lambda>e. e = IngestError ErrCatalogItemRejected) res"
    and "\<forall>e. ce_xadd env = Some e \<longrightarrow> \<not> stream_permanent e \<and> e \<noteq> IngestError ErrCatalogItemRejected"
  obtains (rejected) "same_data w w1"
  | (stored) r cfg where "checked_request (cs_Namespace item) (Some (stream_request item)) = Inr r"
      "row_written env (cs_Namespace item) r w w1"
      "cw_streams w1 = cw_streams w @ (if content_changed env (cs_Namespace item) r (cw_items w)
         then [embed_entry_of env (cs_Namespace item) cfg (ingested_row env (cs_Namespace item) r (cw_items w))] else [])"
proof -
  obtain res' where run: "Ingest env ctx (cs_Namespace item) (Some (stream_request item)) w = (res', w1)"
    and res: "res = (case res' of Inl e \<Rightarrow> Inl (if stream_permanent e then IngestError ErrCatalogItemRejected else e) | Inr _ \<Rightarrow> Inr ())"
    using assms(1) by (auto simp: IngestStreamItem_def stream_request_def split: prod.splits sum.splits)
  from run show thesis
  proof (cases rule: Ingest_cases)
    case (refused e)
    then show thesis using rejected by blast
  next
    case (unpublished r cfg ctx' e)
    with res assms(2,3) show thesis by (auto split: if_splits)
  next
    case (stored r cfg ctx')
    then show thesis using that(2) by blast
  qed
qed

section \<open>Walking the reconciliation read\<close>

text \<open>
  What \<^verbatim>\<open>encoding/json\<close> documents for the cursor struct: it reads back what it wrote when the strings
  are valid UTF-8, the integers are 64-bit and the time is in the years RFC 3339 covers; what it
  wrote is not empty, and a formatted time is plain text.
\<close>

definition json_time :: "time \<Rightarrow> bool" where
  "json_time s \<longleftrightarrow> zero_time \<le> s \<and> s < zero_time + seconds (3652059 * 86400)"

definition int64 :: "int \<Rightarrow> bool" where
  "int64 i \<longleftrightarrow> - (2 ^ 63) \<le> i \<and> i < 2 ^ 63"

definition jsonable :: "objectCursor \<Rightarrow> bool" where
  "jsonable c \<longleftrightarrow> int64 (oc_Version c) \<and> ValidString (oc_Namespace c) \<and> ValidString (oc_ChangedSince c)
     \<and> json_time (oc_UpdatedAt c) \<and> int64 (oc_ID c)"

definition codec_law :: "cursor_codec \<Rightarrow> bool" where
  "codec_law codec \<longleftrightarrow> (\<forall>c. jsonable c \<longrightarrow> cc_unmarshal codec (cc_marshal codec c) = Some c)
     \<and> (\<forall>c. cc_marshal codec c \<noteq> []) \<and> (\<forall>s. ValidString (cc_since codec s))"

text \<open>A row whose keyset position the cursor can carry.\<close>

definition listable_row :: "catalog_row \<Rightarrow> bool" where
  "listable_row r \<longleftrightarrow> ci_updated_at r \<noteq> zero_time \<and> json_time (ci_updated_at r) \<and> ci_id r < 2 ^ 63"

text \<open>A client's repair pass: it asks for pages and follows the cursors until none is returned.\<close>

fun walk_pages ::
  "cursor_codec \<Rightarrow> (namespace \<Rightarrow> go_error + Config option) \<Rightarrow> namespace \<Rightarrow> time option \<Rightarrow> int \<Rightarrow> nat \<Rightarrow> string \<Rightarrow> catalog_table
   \<Rightarrow> (string \<times> string) list list option" where
  "walk_pages codec get ns since limit 0 cursor t = None"
| "walk_pages codec get ns since limit (Suc n) cursor t =
     (case ListObjectsPage codec get None ns since limit 0 cursor t of
        Inl e \<Rightarrow> None
      | Inr resp \<Rightarrow>
          if ors_NextCursor resp = [] then Some [ors_Items resp]
          else map_option ((#) (ors_Items resp)) (walk_pages codec get ns since limit n (ors_NextCursor resp) t))"

definition beyond :: "(time \<times> int) option \<Rightarrow> ObjectRow \<Rightarrow> bool" where
  "beyond c r = (case c of None \<Rightarrow> True | Some k \<Rightarrow> k < row_key r)"

lemma sorted_take_split:
  assumes "sorted_wrt (\<lambda>a b. key a < key b) xs" and "take n xs \<noteq> []"
  shows "filter (\<lambda>r. key (last (take n xs)) < (key r :: 'k :: linorder)) xs = drop n xs"
proof -
  let ?l = "last (take n xs)"
  have mem: "?l \<in> set (take n xs)" using assms(2) by (rule last_in_set)
  have "sorted_wrt (\<lambda>a b. key a < key b) (take n xs @ drop n xs)" using assms(1) by simp
  then have lt: "\<forall>a \<in> set (take n xs). \<forall>b \<in> set (drop n xs). key a < key b"
    and st: "sorted_wrt (\<lambda>a b. key a < key b) (take n xs)"
    unfolding sorted_wrt_append by blast+
  have "\<not> key ?l < key a" if "a \<in> set (take n xs)" for a
  proof -
    define ys where "ys = butlast (take n xs)"
    have ys: "take n xs = ys @ [?l]" using assms(2) by (simp add: ys_def)
    have "sorted_wrt (\<lambda>a b. key a < key b) (ys @ [?l])" using st unfolding ys [symmetric] .
    moreover have "a \<in> set (ys @ [?l])" using that unfolding ys [symmetric] .
    ultimately have "a = ?l \<or> key a < key ?l" unfolding sorted_wrt_append by auto
    then show ?thesis by auto
  qed
  then have "filter (\<lambda>r. key ?l < key r) (take n xs) = []" by (simp add: filter_empty_conv)
  moreover have "filter (\<lambda>r. key ?l < key r) (drop n xs) = drop n xs"
    using lt mem by (simp add: filter_id_conv)
  ultimately show ?thesis by (metis append_Nil append_take_drop_id filter_append)
qed

lemma RawURLEncode_Nil_iff [simp]: "RawURLEncode s = [] \<longleftrightarrow> s = []"
  using RawURLEncode_inject [of s "[]"] by (simp add: RawURLEncode_def)

lemma decode_encode_cursor:
  assumes "codec_law codec" and "jsonable c" and "oc_Version c = 1" and "1 \<le> oc_ID c" and "oc_UpdatedAt c \<noteq> zero_time"
  shows "decodeObjectCursor codec (encodeObjectCursor codec c) (oc_Namespace c) (oc_ChangedSince c) = Inr (Some c)"
    and "encodeObjectCursor codec c \<noteq> []"
  using assms by (simp_all add: decodeObjectCursor_def encodeObjectCursor_def codec_law_def RawURLDecode_Encode)

text \<open>A summary line of the response.\<close>

definition summary_line :: "cursor_codec \<Rightarrow> ObjectRow \<Rightarrow> string \<times> string" where
  "summary_line codec r = (or_ObjectID r, cc_time codec (or_UpdatedAt r))"

definition since_key :: "cursor_codec \<Rightarrow> time option \<Rightarrow> string" where
  "since_key codec since = (case since of None \<Rightarrow> [] | Some s \<Rightarrow> cc_since codec s)"

lemma ListObjectsPage_page:
  assumes "ns \<noteq> []" and "get ns = Inr (Some cfg)"
    and "decodeObjectCursor codec rawc ns (since_key codec since) = Inr cur"
  shows "ListObjectsPage codec get None ns since limit 0 rawc t =
    (let rows = take (nat limit) (filter (beyond (map_option (\<lambda>c. (oc_UpdatedAt c, oc_ID c)) cur)) (object_rows ns since t))
     in Inr \<lparr>ors_Namespace = ns, ors_Items = map (summary_line codec) rows,
          ors_Total = int (length (object_rows ns since t)), ors_Limit = limit, ors_Offset = 0,
          ors_NextCursor = (if int (length rows) = limit \<and> rows \<noteq> []
             then encodeObjectCursor codec \<lparr>oc_Version = 1, oc_Namespace = ns, oc_ChangedSince = since_key codec since,
                    oc_UpdatedAt = or_UpdatedAt (last rows), oc_ID = or_ID (last rows)\<rparr>
             else [])\<rparr>)"
  using assms unfolding ListObjectsPage_def since_key_def [symmetric]
  by (simp add: ListObjects_def Let_def summary_line_def beyond_def [abs_def] comp_def)

lemma walk_pages_rest:
  assumes "codec_law codec" and wf: "catalog_wf t" and "list_all listable_row (ct_rows t)"
    and "ns \<noteq> []" and "get ns = Inr (Some cfg)" and "0 < limit" and "ValidString ns"
  shows "decodeObjectCursor codec rawc ns (since_key codec since) = Inr cur
    \<Longrightarrow> rest = filter (beyond (map_option (\<lambda>c. (oc_UpdatedAt c, oc_ID c)) cur)) (object_rows ns since t)
    \<Longrightarrow> length rest < n
    \<Longrightarrow> \<exists>pages. walk_pages codec get ns since limit n rawc t = Some pages
          \<and> concat pages = map (summary_line codec) rest \<and> list_all (\<lambda>p. int (length p) \<le> limit) pages"
proof (induction n arbitrary: rawc cur rest)
  case (Suc n)
  define rows where "rows = take (nat limit) rest"
  note page = ListObjectsPage_page [of ns get cfg codec rawc since cur limit t, OF assms(4,5) Suc.prems(1),
      folded Suc.prems(2), folded rows_def]
  have items: "list_all (\<lambda>r. 1 \<le> or_ID r \<and> or_UpdatedAt r \<noteq> zero_time \<and> json_time (or_UpdatedAt r) \<and> or_ID r < 2 ^ 63)
      (object_rows ns since t)"
    using wf assms(3) by (auto simp: object_rows_def list_all_iff object_row_of_def catalog_wf_def listable_row_def)
  have "ValidString (since_key codec since)"
    using assms(1) by (simp add: since_key_def codec_law_def ValidString_def split: option.split)
  have srt: "sorted_wrt (\<lambda>a b. row_key a < row_key b) rest"
    unfolding Suc.prems(2) by (intro sorted_wrt_filter object_rows_sorted wf)
  show ?case
  proof (cases "int (length rows) = limit \<and> rows \<noteq> []")
    case True
    let ?c = "\<lparr>oc_Version = 1, oc_Namespace = ns, oc_ChangedSince = since_key codec since,
      oc_UpdatedAt = or_UpdatedAt (last rows), oc_ID = or_ID (last rows)\<rparr>"
    have "last rows \<in> set rows" using True by (intro last_in_set) blast
    then have "last rows \<in> set rest" unfolding rows_def by (rule in_set_takeD)
    then have mem: "last rows \<in> set (object_rows ns since t)"
      and bey: "beyond (map_option (\<lambda>c. (oc_UpdatedAt c, oc_ID c)) cur) (last rows)"
      unfolding Suc.prems(2) by simp_all
    from mem have ok: "1 \<le> oc_ID ?c" "oc_UpdatedAt ?c \<noteq> zero_time" using items by (auto simp: list_all_iff)
    moreover have "jsonable ?c"
      using mem items assms(7) \<open>ValidString (since_key codec since)\<close> by (auto simp: jsonable_def int64_def list_all_iff)
    ultimately have dec:
      "decodeObjectCursor codec (encodeObjectCursor codec ?c) ns (since_key codec since) = Inr (Some ?c)"
      "encodeObjectCursor codec ?c \<noteq> []"
      using decode_encode_cursor [OF assms(1), of ?c] by simp_all
    have "filter (beyond (Some (row_key (last rows)))) (object_rows ns since t)
          = filter (\<lambda>r. row_key (last rows) < row_key r) rest"
    proof -
      from bey have "beyond (map_option (\<lambda>c. (oc_UpdatedAt c, oc_ID c)) cur) r" if "row_key (last rows) < row_key r" for r
        using that by (auto simp: beyond_def split: option.splits)
      then show ?thesis unfolding Suc.prems(2) filter_filter by (auto simp: beyond_def intro!: filter_cong)
    qed
    also have "\<dots> = drop (nat limit) rest"
      using sorted_take_split [OF srt, of "nat limit"] True unfolding rows_def by blast
    finally have rest': "drop (nat limit) rest
        = filter (beyond (map_option (\<lambda>c. (oc_UpdatedAt c, oc_ID c)) (Some ?c))) (object_rows ns since t)"
      by (simp add: row_key_def)
    have "1 \<le> length rest" "1 \<le> nat limit" using True assms(6) by (auto simp: rows_def Suc_le_eq)
    then have "length (drop (nat limit) rest) < n" using Suc.prems(3) by (simp only: length_drop)
    from Suc.IH [OF dec(1) rest' this] obtain pages where
      "walk_pages codec get ns since limit n (encodeObjectCursor codec ?c) t = Some pages"
      "concat pages = map (summary_line codec) (drop (nat limit) rest)" "list_all (\<lambda>p. int (length p) \<le> limit) pages"
      by blast
    moreover have "map (summary_line codec) rows @ map (summary_line codec) (drop (nat limit) rest)
        = map (summary_line codec) rest"
      unfolding rows_def map_append [symmetric] append_take_drop_id ..
    ultimately show ?thesis using True dec(2) page by (simp add: Let_def)
  next
    case False
    then have "rows = rest" using assms(6) by (auto simp: rows_def)
    with False page assms(6) Suc.prems(3) show ?thesis
      by (auto simp: Let_def rows_def)
  qed
qed simp

section \<open>Properties\<close>


text \<open>A text for one object of the namespace \<^verbatim>\<open>shop\<close>, with the identity as the hash.\<close>

definition shop_cenv :: "time \<Rightarrow> catalog_env" where
  "shop_cenv now = \<lparr>ce_lifecycle = Some healthy, ce_now = now, ce_get = (\<lambda>ctx ns. Inr (Some (base_config ns 1))),
     ce_hash = (\<lambda>c. c), ce_default_max = 100, ce_authors = None, ce_upsert = None, ce_author = None,
     ce_commit = None, ce_xadd = None, ce_envelope = None, ce_ack = None\<rparr>"

definition shop_cworld :: catalog_world where
  "shop_cworld = \<lparr>cw_ledger = shop_ledger, cw_items = \<lparr>ct_rows = [], ct_seq = 3\<rparr>, cw_objects = [],
     cw_streams = [], cw_acked = []\<rparr>"

definition shop_text :: IngestRequest where
  "shop_text = \<lparr>ir_ObjectID = ''o'', ir_Content = ''hi'', ir_AuthorSubjectID = [], ir_Metadata = None\<rparr>"

definition shop_item :: CatalogStreamItem where
  "shop_item = \<lparr>cs_Namespace = ''shop'', cs_NamespaceGeneration = 0, cs_ObjectID = ''o'', cs_Content = ''hi'',
     cs_AuthorSubjectID = [], cs_Metadata = None\<rparr>"

definition shop_stored :: "time \<Rightarrow> catalog_world \<Rightarrow> catalog_world" where
  "shop_stored now w = w\<lparr>cw_items := \<lparr>ct_rows = [fresh_row 3 now ''shop'' ''o'' ''hi'' ''hi'' []], ct_seq = 4\<rparr>,
     cw_streams := [embed_entry_of (shop_cenv now) ''shop'' (base_config ''shop'' 1)
                      (fresh_row 3 now ''shop'' ''o'' ''hi'' ''hi'' [])]\<rparr>"

lemma shop_text_checked: "checked_request ''shop'' (Some shop_text) = Inr shop_text"
proof -
  have "isStorable ''o''" "isStorable []" "sanitizeStorable ''hi'' = ''hi''" "TrimSpace ''hi'' \<noteq> []"
    by (simp_all add: isStorable_def sanitizeStorable_def ValidString_def ToValidUTF8_def TrimSpace_def NUL_def
        pieces_ascii byte_def space_piece_def rune_value_def IsSpace_def)
  then show ?thesis by (simp add: checked_request_def shop_text_def sanitizeStorableMetadata_def Let_def)
qed

lemma shop_Ingest:
  assumes "cw_ledger w = shop_ledger"
  shows "Ingest (shop_cenv now) background ''shop'' (Some shop_text) w
         = ingestActive (shop_cenv now) (with_lease background ''shop'' 1 LockShared) ''shop'' shop_text w"
  using assms by (simp add: Ingest_def shop_text_checked)
    (simp add: shop_cenv_def shop_writer background_def)

lemma shop_text_ingested:
  "Ingest (shop_cenv now) background ''shop'' (Some shop_text) shop_cworld =
     (Inr (scan_item (fresh_row 3 now ''shop'' ''o'' ''hi'' ''hi'' [])), shop_stored now shop_cworld)"
proof -
  have "cw_ledger shop_cworld = shop_ledger" by (simp add: shop_cworld_def)
  note shop_Ingest [OF this]
  also have "ingestActive (shop_cenv now) (with_lease background ''shop'' 1 LockShared) ''shop'' shop_text shop_cworld =
     (Inr (scan_item (fresh_row 3 now ''shop'' ''o'' ''hi'' ''hi'' [])), shop_stored now shop_cworld)"
    by (simp add: ingestActive_def ingest_gate_def shop_cenv_def base_config_def max_content_def shop_text_def
        UpsertWithAttribution_def Upsert_def shop_cworld_def marshalMetadata_def publish_def shop_stored_def
        embed_entry_of_def Let_def)
  finally show ?thesis .
qed

lemma shop_item_handled:
  "catalog_handleMessage (shop_cenv 9) (\<lambda>_. Inr shop_item) background shop_entry shop_cworld =
     (shop_stored 9 shop_cworld)\<lparr>cw_acked := [''9-0'']\<rparr>"
proof -
  have "catalog_verdict (shop_cenv 9) shop_item shop_cworld = Inr EnvelopeProcess"
    by (simp add: catalog_verdict_def shop_cenv_def shop_item_def shop_cworld_def EvaluateEnvelope_def
        shop_ledger_get stamped_def) (simp add: shop_lifecycle_def)
  moreover have "decodeCatalogMessage (\<lambda>_. Inr shop_item) shop_entry = Inr shop_item"
    by (simp add: decodeCatalogMessage_def shop_entry_def shop_item_def)
  moreover have "IngestStreamItem (shop_cenv 9) background shop_item shop_cworld = (Inr (), shop_stored 9 shop_cworld)"
    using shop_text_ingested [of 9] by (simp add: IngestStreamItem_def shop_item_def shop_text_def)
  ultimately show ?thesis
    by (simp add: catalog_handleMessage_def)
      (simp add: catalog_ack_def shop_cenv_def shop_entry_def shop_stored_def shop_cworld_def)
qed




text \<open>C24: A repair pass that follows the page cursors terminates and sees every object of the namespace
  changed since its bound exactly once, in update order, with no page over the limit: the cursor each
  full page returns is accepted again and resumes right behind the page's last row.\<close>

theorem reconciliation_walk_is_complete:
  assumes "codec_law codec" and "catalog_wf t" and "list_all listable_row (ct_rows t)"
    and "ns \<noteq> []" and "get ns = Inr (Some cfg)" and "0 < limit" and "ValidString ns"
    and "length (object_rows ns since t) < n"
  shows "\<exists>pages. walk_pages codec get ns since limit n [] t = Some pages
           \<and> concat pages = map (summary_line codec) (object_rows ns since t)
           \<and> list_all (\<lambda>p. int (length p) \<le> limit) pages"
  by (rule walk_pages_rest [of codec t ns get cfg limit "[]" since None "object_rows ns since t" n, OF assms(1-7)])
    (use assms(8) in \<open>simp_all add: decodeObjectCursor_def beyond_def [abs_def]\<close>)

text \<open>A codec with the law: the fields, separated by colons.\<close>

definition upto_colon :: "string \<Rightarrow> string" where
  "upto_colon = takeWhile (\<lambda>c. c \<noteq> CHR '':'')"

definition past_colon :: "string \<Rightarrow> string" where
  "past_colon s = tl (dropWhile (\<lambda>c. c \<noteq> CHR '':'') s)"

definition show_offset :: "int \<Rightarrow> string" where
  "show_offset i = show_nat (nat (i + 10 ^ 21))"

definition read_offset :: "string \<Rightarrow> int" where
  "read_offset s = int (the (parse_digits 0 s)) - 10 ^ 21"

definition colon_codec :: cursor_codec where
  "colon_codec = \<lparr>
     cc_marshal = (\<lambda>c. RawURLEncode (oc_Namespace c) @ '':'' @ RawURLEncode (oc_ChangedSince c) @ '':''
       @ show_offset (oc_Version c) @ '':'' @ show_offset (oc_UpdatedAt c) @ '':'' @ show_offset (oc_ID c)),
     cc_unmarshal = (\<lambda>s. let s1 = past_colon s; s2 = past_colon s1; s3 = past_colon s2; s4 = past_colon s3
       in Option.bind (RawURLDecode (upto_colon s)) (\<lambda>ns. Option.bind (RawURLDecode (upto_colon s1)) (\<lambda>since.
            Some \<lparr>oc_Version = read_offset (upto_colon s2), oc_Namespace = ns, oc_ChangedSince = since,
              oc_UpdatedAt = read_offset (upto_colon s3), oc_ID = read_offset s4\<rparr>))),
     cc_since = show_nat \<circ> nat, cc_time = show_nat \<circ> nat\<rparr>"

lemma colon_split:
  assumes "CHR '':'' \<notin> set a"
  shows "upto_colon (a @ CHR '':'' # b) = a" and "past_colon (a @ CHR '':'' # b) = b"
  using assms by (induction a) (auto simp: upto_colon_def past_colon_def)

lemma colonless:
  "CHR '':'' \<notin> set (RawURLEncode s)" "CHR '':'' \<notin> set (show_offset i)"
proof -
  show "CHR '':'' \<notin> set (RawURLEncode s)" using RawURLEncode_plain [of s] by (auto simp: list_all_iff)
  have "\<not> is_digit (CHR '':'')" by code_simp
  then show "CHR '':'' \<notin> set (show_offset i)"
    using show_nat_digits [of "nat (i + 10 ^ 21)"] by (auto simp: list_all_iff show_offset_def)
qed

lemma read_show_offset: "- (10 ^ 21) \<le> i \<Longrightarrow> read_offset (show_offset i) = i"
  by (simp add: read_offset_def show_offset_def parse_digits_show_nat)

lemma ValidString_show_nat: "ValidString (show_nat n)"
proof -
  have "pieces s = map (\<lambda>c. Inr [c]) s" if "list_all is_digit s" for s
    using that
  proof (induction s)
    case (Cons c s)
    then have "byte c < 0x80" by (simp add: is_digit_def byte_def)
    with Cons show ?case by (simp add: pieces_ascii)
  qed simp
  from this [OF show_nat_digits] show ?thesis by (simp add: ValidString_def list_all_iff)
qed

lemma colon_codec_law: "codec_law colon_codec"
proof -
  have "cc_unmarshal colon_codec (cc_marshal colon_codec c) = Some c" if "jsonable c" for c
  proof -
    have "- (10 ^ 21) \<le> oc_Version c" "- (10 ^ 21) \<le> oc_UpdatedAt c" "- (10 ^ 21) \<le> oc_ID c"
      using that by (auto simp: jsonable_def int64_def json_time_def zero_time_def)
    then show ?thesis by (simp add: colon_codec_def Let_def colon_split colonless RawURLDecode_Encode read_show_offset)
  qed
  then show ?thesis by (simp add: codec_law_def) (simp add: colon_codec_def ValidString_show_nat)
qed

definition three_rows :: catalog_table where
  "three_rows = \<lparr>ct_rows = map (\<lambda>(i, at_time, oid). fresh_row i at_time ''shop'' oid ''hi'' ''hi'' [])
     [(1, 30, ''a''), (2, 10, ''b''), (3, 20, ''c'')], ct_seq = 4\<rparr>"

theorem reconciliation_walk_is_complete_witness:
  "\<exists>pages. walk_pages colon_codec (\<lambda>_. Inr (Some (base_config ''shop'' 1))) ''shop'' None 2 4 [] three_rows = Some pages
     \<and> concat pages = [(''b'', ''10''), (''c'', ''20''), (''a'', ''30'')] \<and> list_all (\<lambda>p. int (length p) \<le> 2) pages"
proof -
  let ?rows = "object_rows ''shop'' None three_rows"
  have wf: "catalog_wf three_rows" by (simp add: three_rows_def catalog_wf_def fresh_row_def item_key_def keyed_def)
  have ok: "list_all listable_row (ct_rows three_rows)"
    by (simp add: three_rows_def listable_row_def fresh_row_def json_time_def zero_time_def seconds_def)
  have valid: "ValidString ''shop''" by (simp add: ValidString_def pieces_ascii byte_def)
  have rows: "map (summary_line colon_codec) ?rows = [(''b'', ''10''), (''c'', ''20''), (''a'', ''30'')]"
    by (simp add: object_rows_def three_rows_def fresh_row_def object_row_of_def row_key_def summary_line_def
        colon_codec_def show_nat.simps)
  from arg_cong [OF this, of length] have "length ?rows < 4" by simp
  from reconciliation_walk_is_complete [of colon_codec three_rows "''shop''" "\<lambda>_. Inr (Some (base_config ''shop'' 1))",
      OF colon_codec_law wf ok _ refl _ valid this, of 2]
  show ?thesis unfolding rows by simp
qed

end
