(* ===== verification/Id_Mapping.thy ===== *)
theory Id_Mapping
  imports Lifecycle_Service
begin

text \<open>
  Numeric identities of subjects and objects (\<^verbatim>\<open>internal/core/idmap/repository.go\<close> and
  \<^verbatim>\<open>service.go\<close>, table \<^verbatim>\<open>id_mappings\<close> of the migrations). The read-first,
  insert-on-miss, re-read protocol runs between other writers: two functions of the environment
  are what they do to the table before the insert and before the re-read. A resolved identity is
  shown to be the table's, to be shared with no other, and never to change.
\<close>

section \<open>The table\<close>

record id_row =
  im_string_id :: string
  im_namespace :: namespace
  im_entity_type :: string
  im_numeric_id :: int

definition im_key :: "id_row \<Rightarrow> namespace \<times> string \<times> string" where
  "im_key r = (im_namespace r, im_entity_type r, im_string_id r)"

record id_table =
  idt_rows :: "id_row list"
  idt_seq :: int

text \<open>\<^verbatim>\<open>MAXVALUE\<close> of the sequence: numeric ids also index sparse vectors, with 32 bits.\<close>

definition numeric_id_max :: int where
  "numeric_id_max = 4294967295"

definition id_of :: "id_table \<Rightarrow> namespace \<Rightarrow> string \<Rightarrow> string \<Rightarrow> int option" where
  "id_of t ns entity sid = map_option im_numeric_id (lookup_row im_key (idt_rows t) (ns, entity, sid))"

text \<open>
  The insert: \<^verbatim>\<open>nextval\<close> is drawn for every candidate row, also for one that conflicts and is
  skipped; drawing past the cap fails the statement with SQLSTATE 2200H. The rows inserted are
  returned.
\<close>

fun insert_ids ::
  "namespace \<Rightarrow> string \<Rightarrow> string list \<Rightarrow> id_table \<Rightarrow> (go_error + (string \<times> int) list) \<times> id_table" where
  "insert_ids ns entity [] t = (Inr [], t)"
| "insert_ids ns entity (sid # sids) t =
     (if idt_seq t > numeric_id_max then (Inl (PgError ''2200H''), t)
      else let t1 = t\<lparr>idt_seq := idt_seq t + 1\<rparr>
           in if id_of t ns entity sid \<noteq> None then insert_ids ns entity sids t1
              else case insert_ids ns entity sids
                          (t1\<lparr>idt_rows := idt_rows t @ [\<lparr>im_string_id = sid, im_namespace = ns,
                             im_entity_type = entity, im_numeric_id = idt_seq t\<rparr>]\<rparr>) of
                     (Inl e, t2) \<Rightarrow> (Inl e, t2)
                   | (Inr rows, t2) \<Rightarrow> (Inr ((sid, idt_seq t) # rows), t2))"

section \<open>The repository\<close>

record id_env =
  id_lookup :: "go_error option"
  id_before_insert :: "id_table \<Rightarrow> id_table"
  id_insert :: "go_error option"
  id_before_reread :: "id_table \<Rightarrow> id_table"
  id_reread :: "go_error option"

definition Lookup ::
  "go_error option \<Rightarrow> string \<Rightarrow> namespace \<Rightarrow> string \<Rightarrow> id_table \<Rightarrow> go_error + int option" where
  "Lookup fault stringID ns entityType t =
     (case fault of Some e \<Rightarrow> Inl e | None \<Rightarrow> Inr (id_of t ns entityType stringID))"

definition LookupBatch ::
  "go_error option \<Rightarrow> string list \<Rightarrow> namespace \<Rightarrow> string \<Rightarrow> id_table \<Rightarrow> go_error + (string \<rightharpoonup> int)" where
  "LookupBatch fault stringIDs ns entityType t =
     (if stringIDs = [] then Inr Map.empty
      else case fault of
             Some e \<Rightarrow> Inl e
           | None \<Rightarrow> Inr (\<lambda>sid. if sid \<in> set stringIDs then id_of t ns entityType sid else None))"

definition missingFrom :: "string list \<Rightarrow> (string \<rightharpoonup> int) \<Rightarrow> string list" where
  "missingFrom ids have = filter (\<lambda>i. have i = None) ids"

text \<open>The deduplication loop: first occurrences, in order.\<close>

fun distinct_ids :: "string list \<Rightarrow> string list \<Rightarrow> string list" where
  "distinct_ids seen [] = []"
| "distinct_ids seen (i # is) =
     (if i \<in> set seen then distinct_ids seen is else i # distinct_ids (i # seen) is)"

definition GetOrCreateBatch ::
  "id_env \<Rightarrow> lctx \<Rightarrow> string list \<Rightarrow> namespace \<Rightarrow> string \<Rightarrow> id_table \<Rightarrow> (go_error + (string \<rightharpoonup> int)) \<times> id_table" where
  "GetOrCreateBatch env ctx stringIDs ns entityType t =
     (if stringIDs = [] then (Inr Map.empty, t)
      else case RequireNamespaceLease ctx ns of
        Inl e \<Rightarrow> (Inl e, t)
      | Inr _ \<Rightarrow>
          let distinct = distinct_ids [] stringIDs
          in case LookupBatch (id_lookup env) distinct ns entityType t of
               Inl e \<Rightarrow> (Inl e, t)
             | Inr out \<Rightarrow>
                 let missing = missingFrom distinct out; t0 = id_before_insert env t
                 in if missing = [] then (Inr out, t)
                    else case id_insert env of
                      Some e \<Rightarrow> (Inl e, t0)
                    | None \<Rightarrow>
                        (case insert_ids ns entityType missing t0 of
                           (Inl e, t1) \<Rightarrow> (Inl e, t0\<lparr>idt_seq := idt_seq t1\<rparr>)
                         | (Inr rows, t1) \<Rightarrow>
                             let out1 = out ++ map_of rows; raced = missingFrom missing out1
                             in if raced = [] then (Inr out1, t1)
                                else let t2 = id_before_reread env t1
                                     in case LookupBatch (id_reread env) raced ns entityType t2 of
                                          Inl e \<Rightarrow> (Inl e, t2)
                                        | Inr won \<Rightarrow> (Inr (out1 ++ won), t2)))"

definition GetOrCreate ::
  "id_env \<Rightarrow> lctx \<Rightarrow> string \<Rightarrow> namespace \<Rightarrow> string \<Rightarrow> id_table \<Rightarrow> (go_error + int) \<times> id_table" where
  "GetOrCreate env ctx stringID ns entityType t =
     (case GetOrCreateBatch env ctx [stringID] ns entityType t of
        (Inl e, t1) \<Rightarrow> (Inl e, t1)
      | (Inr ids, t1) \<Rightarrow>
          (case ids stringID of
             None \<Rightarrow> (Inl (Failure ''insert conflicted but no mapping exists''), t1)
           | Some i \<Rightarrow> (Inr i, t1)))"

section \<open>The service\<close>

definition LookupSubjectID :: "go_error option \<Rightarrow> string \<Rightarrow> namespace \<Rightarrow> id_table \<Rightarrow> go_error + int option" where
  "LookupSubjectID fault subjectID ns t = Lookup fault subjectID ns ''subject'' t"

definition LookupObjectID :: "go_error option \<Rightarrow> string \<Rightarrow> namespace \<Rightarrow> id_table \<Rightarrow> go_error + int option" where
  "LookupObjectID fault objectID ns t = Lookup fault objectID ns ''object'' t"

definition GetOrCreateSubjectID ::
  "id_env \<Rightarrow> lctx \<Rightarrow> string \<Rightarrow> namespace \<Rightarrow> id_table \<Rightarrow> (go_error + int) \<times> id_table" where
  "GetOrCreateSubjectID env ctx subjectID ns t = GetOrCreate env ctx subjectID ns ''subject'' t"

definition GetOrCreateObjectID ::
  "id_env \<Rightarrow> lctx \<Rightarrow> string \<Rightarrow> namespace \<Rightarrow> id_table \<Rightarrow> (go_error + int) \<times> id_table" where
  "GetOrCreateObjectID env ctx objectID ns t = GetOrCreate env ctx objectID ns ''object'' t"

definition GetOrCreateSubjectIDs ::
  "id_env \<Rightarrow> lctx \<Rightarrow> string list \<Rightarrow> namespace \<Rightarrow> id_table \<Rightarrow> (go_error + (string \<rightharpoonup> int)) \<times> id_table" where
  "GetOrCreateSubjectIDs env ctx subjectIDs ns t = GetOrCreateBatch env ctx subjectIDs ns ''subject'' t"

definition GetOrCreateObjectIDs ::
  "id_env \<Rightarrow> lctx \<Rightarrow> string list \<Rightarrow> namespace \<Rightarrow> id_table \<Rightarrow> (go_error + (string \<rightharpoonup> int)) \<times> id_table" where
  "GetOrCreateObjectIDs env ctx objectIDs ns t = GetOrCreateBatch env ctx objectIDs ns ''object'' t"

definition LookupObjectIDs ::
  "go_error option \<Rightarrow> string list \<Rightarrow> namespace \<Rightarrow> id_table \<Rightarrow> go_error + (string \<rightharpoonup> int)" where
  "LookupObjectIDs fault objectIDs ns t = LookupBatch fault objectIDs ns ''object'' t"

section \<open>Well-formed tables\<close>

definition idmap_wf :: "id_table \<Rightarrow> bool" where
  "idmap_wf t \<longleftrightarrow> keyed im_key (idt_rows t) \<and> keyed im_numeric_id (idt_rows t)
     \<and> list_all (\<lambda>r. 1 \<le> im_numeric_id r \<and> im_numeric_id r < idt_seq t) (idt_rows t)
     \<and> 1 \<le> idt_seq t \<and> idt_seq t \<le> numeric_id_max + 1"

text \<open>A later table: well-formed, with every identity of the earlier one as it was.\<close>

definition id_extends :: "id_table \<Rightarrow> id_table \<Rightarrow> bool" where
  "id_extends t t' \<longleftrightarrow> (idmap_wf t \<longrightarrow> idmap_wf t' \<and> set (idt_rows t) \<subseteq> set (idt_rows t'))"

lemma id_extends_refl [simp]: "id_extends t t"
  by (simp add: id_extends_def)

lemma id_extends_trans [trans]: "id_extends t t' \<Longrightarrow> id_extends t' t'' \<Longrightarrow> id_extends t t''"
  by (auto simp: id_extends_def)

lemma id_of_iff:
  assumes "idmap_wf t"
  shows "id_of t ns entity sid = Some n \<longleftrightarrow>
    \<lparr>im_string_id = sid, im_namespace = ns, im_entity_type = entity, im_numeric_id = n\<rparr> \<in> set (idt_rows t)"
    (is "_ \<longleftrightarrow> ?r \<in> _")
proof
  assume "id_of t ns entity sid = Some n"
  then obtain r where r: "lookup_row im_key (idt_rows t) (ns, entity, sid) = Some r" "im_numeric_id r = n"
    by (auto simp: id_of_def)
  then have "r \<in> set (idt_rows t)" "im_key r = (ns, entity, sid)" using lookup_row_SomeD by metis+
  with r show "?r \<in> set (idt_rows t)" by (cases r) (simp add: im_key_def)
next
  assume "?r \<in> set (idt_rows t)"
  moreover have "keyed im_key (idt_rows t)" using assms by (simp add: idmap_wf_def)
  ultimately have "lookup_row im_key (idt_rows t) (im_key ?r) = Some ?r" by (rule lookup_row_mem [rotated])
  then show "id_of t ns entity sid = Some n" by (simp add: id_of_def im_key_def)
qed

lemma id_of_extends:
  assumes "idmap_wf t" and "id_extends t t'" and "id_of t ns entity sid = Some n"
  shows "id_of t' ns entity sid = Some n"
  using assms by (auto simp: id_of_iff id_extends_def)

text \<open>Two identities never share a number.\<close>

lemma id_of_inject:
  assumes "idmap_wf t" and "id_of t ns entity sid = Some n" and "id_of t ns' entity' sid' = Some n"
  shows "(ns, entity, sid) = (ns', entity', sid')"
proof -
  let ?r = "\<lparr>im_string_id = sid, im_namespace = ns, im_entity_type = entity, im_numeric_id = n\<rparr>"
  let ?r' = "\<lparr>im_string_id = sid', im_namespace = ns', im_entity_type = entity', im_numeric_id = n\<rparr>"
  have "?r \<in> set (idt_rows t)" "?r' \<in> set (idt_rows t)" using assms by (simp_all add: id_of_iff)
  moreover have "inj_on im_numeric_id (set (idt_rows t))"
    using assms(1) by (simp add: idmap_wf_def keyed_def distinct_map)
  moreover have "im_numeric_id ?r = im_numeric_id ?r'" by simp
  ultimately have "?r = ?r'" by (meson inj_onD)
  then show ?thesis by simp
qed

lemma insert_ids_extends: "insert_ids ns entity sids t = (res, t') \<Longrightarrow> idmap_wf t \<Longrightarrow>
    idmap_wf t' \<and> set (idt_rows t) \<subseteq> set (idt_rows t') \<and> idt_seq t \<le> idt_seq t'"
proof (induction sids arbitrary: t res t')
  case (Cons sid sids)
  let ?r = "\<lparr>im_string_id = sid, im_namespace = ns, im_entity_type = entity, im_numeric_id = idt_seq t\<rparr>"
  let ?t1 = "t\<lparr>idt_seq := idt_seq t + 1\<rparr>"
  show ?case
  proof (cases "idt_seq t > numeric_id_max")
    case False
    have wf1: "idmap_wf ?t1" using Cons.prems(2) False by (auto simp: idmap_wf_def list_all_iff)
    show ?thesis
    proof (cases "id_of t ns entity sid")
      case None
      have "lookup_row im_key (idt_rows t) (im_key ?r) = None" using None by (simp add: id_of_def im_key_def)
      then have "keyed im_key (idt_rows t @ [?r])"
        using Cons.prems(2) by (intro keyed_snoc) (simp_all add: idmap_wf_def)
      moreover have "keyed im_numeric_id (idt_rows t @ [?r])"
        using Cons.prems(2) by (auto simp: idmap_wf_def keyed_def list_all_iff)
      ultimately have "idmap_wf (?t1\<lparr>idt_rows := idt_rows t @ [?r]\<rparr>)"
        using wf1 Cons.prems(2) by (simp add: idmap_wf_def)
      from Cons.IH [OF _ this] Cons.prems(1) False None show ?thesis
        by (fastforce simp: Let_def split: prod.splits sum.splits)
    next
      case (Some n)
      with Cons.IH [OF _ wf1] Cons.prems(1) False show ?thesis by (fastforce simp: Let_def)
    qed
  qed (use Cons.prems in simp)
qed simp

lemma insert_ids_result:
  "insert_ids ns entity sids t = (Inr rows, t') \<Longrightarrow> idmap_wf t \<Longrightarrow>
     (\<forall>sid n. map_of rows sid = Some n \<longrightarrow> id_of t' ns entity sid = Some n)
     \<and> (\<forall>sid \<in> set sids. map_of rows sid = None \<longrightarrow> id_of t ns entity sid \<noteq> None) \<and> fst ` set rows \<subseteq> set sids"
proof (induction sids arbitrary: t rows t')
  case (Cons sid sids)
  let ?r = "\<lparr>im_string_id = sid, im_namespace = ns, im_entity_type = entity, im_numeric_id = idt_seq t\<rparr>"
  let ?t1 = "t\<lparr>idt_seq := idt_seq t + 1\<rparr>"
  have seq: "\<not> idt_seq t > numeric_id_max" using Cons.prems(1) by (auto split: if_splits)
  have same: "id_of ?t1 = id_of t" by (simp add: id_of_def [abs_def])
  show ?case
  proof (cases "id_of t ns entity sid")
    case (Some n)
    have wf1: "idmap_wf ?t1" using Cons.prems(2) seq by (auto simp: idmap_wf_def list_all_iff)
    from Cons.IH [OF _ wf1] Cons.prems(1) seq Some show ?thesis by (auto simp: same Let_def)
  next
    case None
    let ?t2 = "?t1\<lparr>idt_rows := idt_rows t @ [?r]\<rparr>"
    obtain rows' where rows': "insert_ids ns entity sids ?t2 = (Inr rows', t')" "rows = (sid, idt_seq t) # rows'"
      using Cons.prems(1) seq None by (auto simp: Let_def split: prod.splits sum.splits)
    have wf2: "idmap_wf ?t2" using insert_ids_extends [of ns entity "[sid]" t _ ?t2] Cons.prems(2) seq None by (simp add: Let_def)
    have new: "id_of ?t2 ns entity sid' = (if sid' = sid then Some (idt_seq t) else id_of t ns entity sid')" for sid'
      using None by (auto simp: id_of_def lookup_row_snoc im_key_def split: option.split)
    have "id_extends ?t2 t'" using insert_ids_extends [OF rows'(1)] by (simp add: id_extends_def)
    from id_of_extends [OF wf2 this] have "id_of t' ns entity sid = Some (idt_seq t)" by (simp add: new)
    with Cons.IH [OF rows'(1) wf2] rows'(2) show ?thesis by (auto simp: new split: if_splits)
  qed
qed simp

lemma set_distinct_ids: "set (distinct_ids seen is) = set is - set seen"
  by (induction seen "is" rule: distinct_ids.induct) auto

text \<open>Other writers only add identities.\<close>

definition only_adds :: "id_env \<Rightarrow> bool" where
  "only_adds env \<longleftrightarrow> (\<forall>t. id_extends t (id_before_insert env t)) \<and> (\<forall>t. id_extends t (id_before_reread env t))"

lemma GetOrCreateBatch_extends:
  assumes "only_adds env" and "GetOrCreateBatch env ctx ids ns entity t = (res, t')"
  shows "id_extends t t'"
proof -
  let ?t0 = "id_before_insert env t"
  have pre: "id_extends t ?t0" using assms(1) by (simp add: only_adds_def)
  have ins: "id_extends ?t0 t1" "id_extends ?t0 (?t0\<lparr>idt_seq := idt_seq t1\<rparr>)"
    if "insert_ids ns entity sids ?t0 = (r, t1)" for sids r t1
  proof -
    show "id_extends ?t0 t1" using insert_ids_extends [OF that] by (simp add: id_extends_def)
    show "id_extends ?t0 (?t0\<lparr>idt_seq := idt_seq t1\<rparr>)"
      using insert_ids_extends [OF that] by (auto simp: id_extends_def idmap_wf_def list_all_iff)
  qed
  have re: "id_extends t1 (id_before_reread env t1)" for t1 using assms(1) by (simp add: only_adds_def)
  from assms(2) pre show ?thesis unfolding GetOrCreateBatch_def
    by (auto simp: Let_def split: if_splits sum.splits option.splits prod.splits
        intro: id_extends_trans [OF pre] ins id_extends_trans [OF id_extends_trans [OF pre]] re)
qed

lemma GetOrCreateBatch_cases:
  assumes "GetOrCreateBatch env ctx ids ns entity t = (Inr m, t')" and "ids \<noteq> []"
  defines "sids \<equiv> distinct_ids [] ids" and "out \<equiv> \<lambda>sid. if sid \<in> set ids then id_of t ns entity sid else None"
  obtains (known) "missingFrom sids out = []" "m = out" "t' = t"
  | (minted) rows where "insert_ids ns entity (missingFrom sids out) (id_before_insert env t) = (Inr rows, t')"
      "missingFrom (missingFrom sids out) (out ++ map_of rows) = []" "m = out ++ map_of rows"
  | (raced) rows t1 where "insert_ids ns entity (missingFrom sids out) (id_before_insert env t) = (Inr rows, t1)"
      "t' = id_before_reread env t1"
      "m = (out ++ map_of rows) ++ (\<lambda>sid. if sid \<in> set (missingFrom (missingFrom sids out) (out ++ map_of rows))
                                       then id_of t' ns entity sid else None)"
proof -
  have sids: "set sids = set ids" "sids \<noteq> []"
    using set_distinct_ids [of "[]" ids] assms(2) by (auto simp: sids_def)
  have look: "LookupBatch f sids ns entity t = (case f of Some e \<Rightarrow> Inl e | None \<Rightarrow> Inr out)" for f
    unfolding out_def sids(1) [symmetric] using sids(2) by (simp add: LookupBatch_def)
  obtain u where lease: "RequireNamespaceLease ctx ns = Inr u" and nf: "id_lookup env = None"
    using assms(1,2) look by (auto simp: GetOrCreateBatch_def Let_def sids_def [symmetric] split: sum.splits option.splits)
  show thesis
  proof (cases "missingFrom sids out = []")
    case True
    with assms(1,2) lease nf look show ?thesis
      by (intro known) (simp_all add: GetOrCreateBatch_def Let_def sids_def [symmetric])
  next
    case False
    then obtain rows t1 where ins: "insert_ids ns entity (missingFrom sids out) (id_before_insert env t) = (Inr rows, t1)"
      using assms(1,2) lease nf look
      by (auto simp: GetOrCreateBatch_def Let_def sids_def [symmetric] split: sum.splits option.splits prod.splits)
    let ?raced = "missingFrom (missingFrom sids out) (out ++ map_of rows)"
    show ?thesis
    proof (cases "?raced = []")
      case True
      with False ins assms(1,2) lease nf look show ?thesis
        by (intro minted [of rows]) (auto simp: GetOrCreateBatch_def Let_def sids_def [symmetric] split: option.splits)
    next
      case r: False
      with False ins assms(1,2) lease nf look show ?thesis
        by (intro raced [of rows t1]) (auto simp: GetOrCreateBatch_def LookupBatch_def Let_def sids_def [symmetric] split: option.splits)
    qed
  qed
qed

lemma GetOrCreateBatch_result:
  assumes "only_adds env" and wf: "idmap_wf t" and res: "GetOrCreateBatch env ctx ids ns entity t = (Inr m, t')"
  shows "dom m = set ids \<and> (\<forall>sid n. m sid = Some n \<longrightarrow> id_of t' ns entity sid = Some n)"
proof (cases "ids = []")
  case True
  with res show ?thesis by (auto simp: GetOrCreateBatch_def)
next
  case False
  let ?sids = "distinct_ids [] ids" and ?t0 = "id_before_insert env t"
  let ?out = "\<lambda>sid. if sid \<in> set ids then id_of t ns entity sid else None"
  let ?missing = "missingFrom ?sids ?out"
  have sids: "set ?sids = set ids" using set_distinct_ids [of "[]" ids] by auto
  have mem: "sid \<in> set ?missing \<longleftrightarrow> sid \<in> set ids \<and> id_of t ns entity sid = None" for sid
    using sids by (auto simp: missingFrom_def)
  have ext: "id_extends t t'" by (rule GetOrCreateBatch_extends [OF assms(1) res])
  have wf0: "idmap_wf ?t0" using assms(1) wf by (simp add: only_adds_def id_extends_def)
  have out: "id_of t' ns entity sid = Some n" if "?out sid = Some n" for sid n
    using that by (auto split: if_splits intro: id_of_extends [OF wf ext])
  from res False show ?thesis
  proof (cases rule: GetOrCreateBatch_cases)
    case known
    then show ?thesis using mem out by (auto simp: dom_def split: if_splits)
  next
    case (minted rows)
    note ins = insert_ids_result [OF minted(1) wf0]
    have "set ids \<subseteq> dom m" using minted(2,3) sids by (auto simp: missingFrom_def filter_empty_conv dom_def split: if_splits)
    moreover have "dom m \<subseteq> set ids"
      using minted(3) ins mem by (auto simp: dom_map_of_conv_image_fst split: if_splits)
    moreover have "id_of t' ns entity sid = Some n" if "m sid = Some n" for sid n
      using that minted(3) ins out by (auto simp: map_add_Some_iff)
    ultimately show ?thesis by blast
  next
    case (raced rows t1)
    note ins = insert_ids_result [OF raced(1) wf0] and ins_ext = insert_ids_extends [OF raced(1) wf0]
    have t1: "id_extends t1 t'" using assms(1) raced(2) by (simp add: only_adds_def)
    have here: "id_of t' ns entity sid = Some n" if "m sid = Some n" for sid n
      using that raced(3) ins out id_of_extends [OF _ t1] ins_ext by (auto simp: map_add_Some_iff split: if_splits)
    have "\<exists>n. m sid = Some n" if "sid \<in> set ids" for sid
    proof (cases "(?out ++ map_of rows) sid")
      case None
      then have "sid \<in> set ?missing" "map_of rows sid = None" using mem that by (auto simp: map_add_None)
      with ins obtain n where n: "id_of ?t0 ns entity sid = Some n" by blast
      have "id_of t1 ns entity sid = Some n"
        using n ins_ext wf0 by (auto simp: id_of_iff)
      then have "id_of t' ns entity sid = Some n" using ins_ext t1 by (blast intro: id_of_extends)
      then show ?thesis using raced(3) None \<open>sid \<in> set ?missing\<close> by (simp add: map_add_def missingFrom_def)
    qed (auto simp: raced(3) map_add_def split: option.split)
    moreover have "dom m \<subseteq> set ids"
      using raced(3) ins mem sids by (auto simp: dom_map_of_conv_image_fst missingFrom_def split: if_splits)
    ultimately show ?thesis using here by blast
  qed
qed

lemma id_of_bounds: "idmap_wf t \<Longrightarrow> id_of t ns entity sid = Some n \<Longrightarrow> 1 \<le> n \<and> n \<le> numeric_id_max"
  by (fastforce simp: id_of_iff idmap_wf_def list_all_iff)

text \<open>No failures and no other writers.\<close>

definition quiet_ids :: id_env where
  "quiet_ids = \<lparr>id_lookup = None, id_before_insert = (\<lambda>t. t), id_insert = None, id_before_reread = (\<lambda>t. t), id_reread = None\<rparr>"

lemma quiet_ids_adds [simp]: "only_adds quiet_ids"
  by (simp add: only_adds_def quiet_ids_def)

section \<open>Properties\<close>

text \<open>C28: Whatever other writers add meanwhile, a batch that succeeds resolves exactly the requested
  ids, each to the number the table holds for it afterwards, no two to the same number and none
  to a number of another namespace or entity type, below the sparse-index cap; and no identity
  that existed before, or that another writer won, is ever renumbered. Without a lease on the
  namespace nothing is minted.\<close>

theorem resolved_ids_are_stable:
  assumes "only_adds env" and "idmap_wf t" and "GetOrCreateBatch env ctx ids ns entity t = (res, t')"
  shows "idmap_wf t' \<and> set (idt_rows t) \<subseteq> set (idt_rows t')
     \<and> (\<forall>m. res = Inr m \<longrightarrow> dom m = set ids \<and> inj_on m (set ids)
          \<and> (\<forall>sid n. m sid = Some n \<longrightarrow> id_of t' ns entity sid = Some n \<and> 1 \<le> n \<and> n \<le> numeric_id_max
               \<and> (\<forall>ns' entity' sid'. id_of t' ns' entity' sid' = Some n \<longrightarrow> (ns', entity', sid') = (ns, entity, sid))))
     \<and> (ids \<noteq> [] \<and> RequireNamespaceLease ctx ns = Inl ErrLeaseRequired \<longrightarrow> res = Inl ErrLeaseRequired \<and> t' = t)"
proof -
  have ext: "id_extends t t'" by (rule GetOrCreateBatch_extends [OF assms(1,3)])
  with assms(2) have wf': "idmap_wf t'" and sub: "set (idt_rows t) \<subseteq> set (idt_rows t')" by (simp_all add: id_extends_def)
  have "ids \<noteq> [] \<and> RequireNamespaceLease ctx ns = Inl ErrLeaseRequired \<longrightarrow> res = Inl ErrLeaseRequired \<and> t' = t"
    using assms(3) by (auto simp: GetOrCreateBatch_def)
  moreover have "dom m = set ids \<and> inj_on m (set ids)
      \<and> (\<forall>sid n. m sid = Some n \<longrightarrow> id_of t' ns entity sid = Some n \<and> 1 \<le> n \<and> n \<le> numeric_id_max
           \<and> (\<forall>ns' entity' sid'. id_of t' ns' entity' sid' = Some n \<longrightarrow> (ns', entity', sid') = (ns, entity, sid)))"
    if "res = Inr m" for m
  proof -
    have r: "dom m = set ids" "\<And>sid n. m sid = Some n \<Longrightarrow> id_of t' ns entity sid = Some n"
      using GetOrCreateBatch_result [OF assms(1,2) assms(3) [unfolded that]] by auto
    have uniq: "(ns', entity', sid') = (ns, entity, sid)"
      if "m sid = Some n" and "id_of t' ns' entity' sid' = Some n" for sid n ns' entity' sid'
      using id_of_inject [OF wf' that(2) r(2) [OF that(1)]] .
    have "inj_on m (set ids)"
    proof (rule inj_onI)
      fix a b assume ab: "a \<in> set ids" "b \<in> set ids" "m a = m b"
      then obtain n where "m a = Some n" "m b = Some n" using r(1) by auto
      then show "a = b" using uniq [OF \<open>m b = Some n\<close> r(2) [OF \<open>m a = Some n\<close>]] by simp
    qed
    with r uniq show ?thesis using id_of_bounds [OF wf'] by blast
  qed
  ultimately show ?thesis using wf' sub by blast
qed

text \<open>The three ways an id is resolved at once: known, minted, and won by another writer in between.\<close>

definition racing_env :: id_env where
  "racing_env = \<lparr>id_lookup = None,
     id_before_insert = (\<lambda>t. snd (insert_ids ''shop'' ''object'' [''b''] t)),
     id_insert = None, id_before_reread = (\<lambda>t. t), id_reread = None\<rparr>"

lemma racing_env_adds: "only_adds racing_env"
proof -
  have "id_extends t (snd (insert_ids ''shop'' ''object'' [''b''] t))" for t
    using insert_ids_extends [of "''shop''" "''object''" "[''b'']" t] by (auto simp: id_extends_def prod_eq_iff)
  then show ?thesis by (simp add: only_adds_def racing_env_def)
qed

definition one_id :: id_table where
  "one_id = \<lparr>idt_rows = [\<lparr>im_string_id = ''a'', im_namespace = ''shop'', im_entity_type = ''object'', im_numeric_id = 1\<rparr>],
     idt_seq = 2\<rparr>"

theorem resolved_ids_are_stable_witness:
  "\<exists>m t'. GetOrCreateBatch racing_env (with_lease background ''shop'' 1 LockShared) [''a'', ''b'', ''c'', ''a''] ''shop'' ''object''
      one_id = (Inr m, t') \<and> m ''a'' = Some 1 \<and> m ''b'' = Some 2 \<and> m ''c'' = Some 4 \<and> idmap_wf t' \<and> dom m = {''a'', ''b'', ''c''}"
proof -
  let ?ctx = "with_lease background ''shop'' 1 LockShared"
  have wf: "idmap_wf one_id" by (simp add: idmap_wf_def one_id_def keyed_def numeric_id_max_def)
  obtain m t' where run: "GetOrCreateBatch racing_env ?ctx [''a'', ''b'', ''c'', ''a''] ''shop'' ''object'' one_id = (Inr m, t')"
    and m: "m ''a'' = Some 1" "m ''b'' = Some 2" "m ''c'' = Some 4"
    by (simp add: GetOrCreateBatch_def RequireNamespaceLease_def with_lease_def LookupBatch_def missingFrom_def
        one_id_def racing_env_def id_of_def im_key_def numeric_id_max_def Let_def map_add_def)
  from resolved_ids_are_stable [OF racing_env_adds wf run] have "idmap_wf t'" "dom m = {''a'', ''b'', ''c''}" by auto
  with run m show ?thesis by blast
qed

end
