(* ===== verification/Embed_Strategy.thy ===== *)
theory Embed_Strategy
  imports Utf8_Text "HOL-Library.Word" "HOL-Library.List_Lexorder" "HOL-Library.Char_ord" "HOL-Library.Product_Lexorder"
begin

text \<open>
  Embedding strategies: the registry (\<^verbatim>\<open>internal/core/embedstrategy\<close>), the tokenizer and the
  feature-hashing strategy of the embedder (\<^verbatim>\<open>internal/embedder/tokenizer.go\<close>,
  \<^verbatim>\<open>hashing.go\<close>). Arguments stand for Unicode normalisation, the Unicode case and punctuation
  tables and the 64-bit hash. \<^verbatim>\<open>float32\<close> vectors are lists of real numbers: what is stated is
  the exact value the code rounds to.
\<close>

section \<open>Strategies and their registry\<close>

text \<open>\<^verbatim>\<open>Embed\<close> takes the state of its context, \<^verbatim>\<open>ctx.Err()\<close>, and the content.\<close>

record strategy =
  st_ID :: string
  st_Version :: string
  st_Dim :: int
  st_MaxInputBytes :: int
  st_Embed :: "go_error option \<Rightarrow> string \<Rightarrow> go_error + real list"

type_synonym params = "(string \<times> json) list"
type_synonym factory = "params \<Rightarrow> go_error + strategy"

record StrategyDescriptor =
  sd_ID :: string
  sd_Version :: string
  sd_Dim :: int
  sd_MaxInputBytes :: int
  sd_Description :: string

text \<open>
  A registry in the order Go's map iteration visits it: per (id, version) the factory and, when it
  was registered with them, the descriptor variants.
\<close>

type_synonym registry = "((string \<times> string) \<times> factory \<times> StrategyDescriptor list option) list"

definition NewRegistry :: registry where
  "NewRegistry = []"

text \<open>Registration panics (no result) on an empty name or a second registration.\<close>

definition register ::
  "string \<Rightarrow> string \<Rightarrow> factory option \<Rightarrow> StrategyDescriptor list option \<Rightarrow> registry \<Rightarrow> registry option" where
  "register sid version f variants r =
     (if sid = [] \<or> version = [] then None
      else case f of
             None \<Rightarrow> None
           | Some f \<Rightarrow> if map_of r (sid, version) \<noteq> None then None
                       else Some (r @ [((sid, version), f, variants)]))"

definition Register :: "string \<Rightarrow> string \<Rightarrow> factory option \<Rightarrow> registry \<Rightarrow> registry option" where
  "Register sid version f r = register sid version f None r"

definition RegisterVariants ::
  "string \<Rightarrow> string \<Rightarrow> factory option \<Rightarrow> StrategyDescriptor list \<Rightarrow> registry \<Rightarrow> registry option" where
  "RegisterVariants sid version f variants r =
     (if list_ex (\<lambda>d. sd_ID d \<noteq> sid \<or> sd_Version d \<noteq> version) variants then None
      else register sid version f (Some variants) r)"

definition Build :: "registry \<Rightarrow> string \<Rightarrow> string \<Rightarrow> params \<Rightarrow> go_error + strategy" where
  "Build r sid version p =
     (case map_of r (sid, version) of
        None \<Rightarrow> Inl (EmbedderError ErrUnknownStrategy)
      | Some (f, _) \<Rightarrow> f p)"

definition Has :: "registry \<Rightarrow> string \<Rightarrow> string \<Rightarrow> bool" where
  "Has r sid version \<longleftrightarrow> map_of r (sid, version) \<noteq> None"

definition descriptors_of ::
  "(string \<times> string) \<times> factory \<times> StrategyDescriptor list option \<Rightarrow> StrategyDescriptor list" where
  "descriptors_of e =
     (case e of (_, f, variants) \<Rightarrow>
        case variants of
          Some vs \<Rightarrow> vs
        | None \<Rightarrow>
            (case f [] of
               Inl _ \<Rightarrow> []
             | Inr s \<Rightarrow> [\<lparr>sd_ID = st_ID s, sd_Version = st_Version s, sd_Dim = st_Dim s,
                          sd_MaxInputBytes = st_MaxInputBytes s, sd_Description = []\<rparr>]))"

definition List_descriptors :: "registry \<Rightarrow> StrategyDescriptor list" where
  "List_descriptors r =
     sort_key (\<lambda>d. (sd_ID d, sd_Version d, sd_Dim d)) (concat (map descriptors_of r))"

section \<open>The tokenizer\<close>

record text_tables =
  tt_nfc :: "string \<Rightarrow> string"
  tt_lower :: "string \<Rightarrow> string"
  tt_punct :: "nat \<Rightarrow> bool"

definition ngramMin :: nat where "ngramMin = 3"
definition ngramMax :: nat where "ngramMax = 5"

definition urlPrefixes :: "string list" where
  "urlPrefixes = [''http://'', ''https://'']"

text \<open>
  Runes: what \<^verbatim>\<open>range\<close> and \<^verbatim>\<open>[]rune\<close> yield for a string, with the replacement character for a
  byte that is no part of a sequence, and the bytes \<^verbatim>\<open>WriteRune\<close> appends.
\<close>

definition piece_rune :: "char + string \<Rightarrow> nat" where
  "piece_rune p = (case p of Inl _ \<Rightarrow> 0xFFFD | Inr r \<Rightarrow> rune_value r)"

definition runes_of :: "string \<Rightarrow> nat list" where
  "runes_of s = map piece_rune (pieces s)"

definition valid_rune :: "nat \<Rightarrow> bool" where
  "valid_rune r \<longleftrightarrow> r < 0xD800 \<or> 0xE000 \<le> r \<and> r \<le> 0x10FFFF"

definition encode_rune :: "nat \<Rightarrow> string" where
  "encode_rune r0 =
     (let r = (if valid_rune r0 then r0 else 0xFFFD)
      in map char_of
           (if r < 0x80 then [r]
            else if r < 0x800 then [0xC0 + r div 0x40, 0x80 + r mod 0x40]
            else if r < 0x10000 then [0xE0 + r div 0x1000, 0x80 + r div 0x40 mod 0x40, 0x80 + r mod 0x40]
            else [0xF0 + r div 0x40000, 0x80 + r div 0x1000 mod 0x40, 0x80 + r div 0x40 mod 0x40, 0x80 + r mod 0x40]))"

definition encode_runes :: "nat list \<Rightarrow> string" where
  "encode_runes rs = concat (map encode_rune rs)"

text \<open>\<^verbatim>\<open>strings.TrimFunc\<close>.\<close>

definition TrimFunc :: "(nat \<Rightarrow> bool) \<Rightarrow> string \<Rightarrow> string" where
  "TrimFunc f s =
     concat (map piece_bytes
       (rev (dropWhile (\<lambda>p. f (piece_rune p)) (rev (dropWhile (\<lambda>p. f (piece_rune p)) (pieces s))))))"

text \<open>The n-gram loops: for each length up to the maximum, shorter than the token, every window.\<close>

definition ngrams :: "nat list \<Rightarrow> string list" where
  "ngrams rs =
     concat (map (\<lambda>n. map (\<lambda>i. encode_runes (take n (drop i rs))) [0..<length rs - n + 1])
       (takeWhile (\<lambda>n. n < length rs) [ngramMin..<ngramMax + 1]))"

definition flush :: "text_tables \<Rightarrow> string \<Rightarrow> string list" where
  "flush tt word =
     (if word = [] then []
      else if list_ex (\<lambda>p. prefix p word) urlPrefixes then []
      else let token = TrimFunc (tt_punct tt) word
           in if token = [] then [] else token # ngrams (runes_of token))"

fun scan_words :: "text_tables \<Rightarrow> string \<Rightarrow> nat list \<Rightarrow> string list" where
  "scan_words tt word [] = flush tt word"
| "scan_words tt word (r # rs) =
     (if IsSpace r then flush tt word @ scan_words tt [] rs
      else scan_words tt (word @ encode_rune r) rs)"

definition Tokenize :: "text_tables \<Rightarrow> string \<Rightarrow> string list" where
  "Tokenize tt content =
     (if content = [] then [] else scan_words tt [] (runes_of (tt_lower tt (tt_nfc tt content))))"

section \<open>Feature hashing\<close>

definition hashingNgramsID :: string where "hashingNgramsID = ''internal-hashing-ngrams''"
definition hashingNgramsVersion :: string where "hashingNgramsVersion = ''v1''"
definition hashingNgramsValidDims :: "int list" where "hashingNgramsValidDims = [64, 128, 256, 512]"

definition add_feature :: "nat \<Rightarrow> 64 word \<Rightarrow> int list \<Rightarrow> int list" where
  "add_feature d h vec =
     (let slot = unat h mod d; sign = (if bit h 63 then - 1 else 1)
      in vec[slot := vec ! slot + sign])"

definition feature_counts :: "(string \<Rightarrow> 64 word) \<Rightarrow> nat \<Rightarrow> string list \<Rightarrow> int list" where
  "feature_counts sum64 d features = fold (\<lambda>f. add_feature d (sum64 f)) features (replicate d 0)"

definition norm_sq :: "int list \<Rightarrow> int" where
  "norm_sq vec = sum_list (map (\<lambda>v. v * v) vec)"

definition hashing_Embed ::
  "text_tables \<Rightarrow> (string \<Rightarrow> 64 word) \<Rightarrow> int \<Rightarrow> go_error option \<Rightarrow> string \<Rightarrow> go_error + real list" where
  "hashing_Embed tt sum64 d ctxErr content =
     (case ctxErr of
        Some e \<Rightarrow> Inl e
      | None \<Rightarrow>
          let features = Tokenize tt content
          in if features = [] then Inl (EmbedderError ErrZeroNorm)
             else let vec = feature_counts sum64 (nat d) features; sumSq = norm_sq vec
                  in if sumSq = 0 then Inl (EmbedderError ErrZeroNorm)
                     else Inr (map (\<lambda>v. real_of_int v * (1 / sqrt (real_of_int sumSq))) vec))"

definition validHashingDim :: "int \<Rightarrow> bool" where
  "validHashingDim d \<longleftrightarrow> d \<in> set hashingNgramsValidDims"

text \<open>\<^verbatim>\<open>int(v)\<close> of a \<^verbatim>\<open>float64\<close>, the only number type a decoded parameter has.\<close>

definition trunc :: "real \<Rightarrow> int" where
  "trunc x = (if x < 0 then \<lceil>x\<rceil> else \<lfloor>x\<rfloor>)"

definition newHashingNgrams :: "text_tables \<Rightarrow> (string \<Rightarrow> 64 word) \<Rightarrow> factory" where
  "newHashingNgrams tt sum64 p =
     (case map_of p ''dim'' of
        Some (JNum v) \<Rightarrow>
          if validHashingDim (trunc v)
          then Inr \<lparr>st_ID = hashingNgramsID, st_Version = hashingNgramsVersion, st_Dim = trunc v,
                 st_MaxInputBytes = 0, st_Embed = hashing_Embed tt sum64 (trunc v)\<rparr>
          else Inl (Failure ''dim'')
      | _ \<Rightarrow> Inl (Failure ''dim''))"

text \<open>The package's \<^verbatim>\<open>init\<close>: it registers the strategy in its four dimensions.\<close>

definition hashing_variants :: "StrategyDescriptor list" where
  "hashing_variants =
     map (\<lambda>d. \<lparr>sd_ID = hashingNgramsID, sd_Version = hashingNgramsVersion, sd_Dim = d, sd_MaxInputBytes = 0,
            sd_Description = ''Pure-Go feature hashing + character n-grams (n=3..5), '' @ show_int d @ ''-d''\<rparr>)
       [64, 128, 256, 512]"

definition embedder_init :: "text_tables \<Rightarrow> (string \<Rightarrow> 64 word) \<Rightarrow> registry \<Rightarrow> registry option" where
  "embedder_init tt sum64 r =
     RegisterVariants hashingNgramsID hashingNgramsVersion (Some (newHashingNgrams tt sum64)) hashing_variants r"

section \<open>The registry keeps its bindings\<close>

lemma register_Build:
  assumes "register sid version f variants r = Some r'"
  shows "Build r' sid' version' p =
    (if (sid', version') = (sid, version) then the f p else Build r sid' version' p)"
  using assms by (auto simp: register_def Build_def map_add_def split: if_splits option.splits)

lemma RegisterVariants_Build:
  assumes "RegisterVariants sid version f variants r = Some r'"
  shows "Build r' sid' version' p =
    (if (sid', version') = (sid, version) then the f p else Build r sid' version' p)"
  using assms by (auto simp: RegisterVariants_def register_Build split: if_splits)

section \<open>Vectors\<close>

lemma length_feature_counts: "length (feature_counts sum64 d features) = d"
proof -
  have "length (fold (\<lambda>f. add_feature d (sum64 f)) features vec) = length vec" for vec
    by (induction features arbitrary: vec) (simp_all add: add_feature_def Let_def)
  then show ?thesis by (simp add: feature_counts_def)
qed

lemma norm_sq_nonneg: "0 \<le> norm_sq vec"
  by (induction vec) (simp_all add: norm_sq_def)

lemma norm_sq_zero_iff: "norm_sq vec = 0 \<longleftrightarrow> list_all (\<lambda>v. v = 0) vec"
proof (induction vec)
  case (Cons v vec)
  have "norm_sq (v # vec) = v * v + norm_sq vec" by (simp add: norm_sq_def)
  also have "\<dots> = 0 \<longleftrightarrow> v * v = 0 \<and> norm_sq vec = 0"
    by (rule add_nonneg_eq_0_iff [OF zero_le_square norm_sq_nonneg])
  finally have "norm_sq (v # vec) = 0 \<longleftrightarrow> v * v = 0 \<and> norm_sq vec = 0" .
  with Cons show ?case by simp
qed (simp add: norm_sq_def)

lemma scaled_norm:
  "sum_list (map (\<lambda>x. x * x) (map (\<lambda>v. real_of_int v * c) vec)) = real_of_int (norm_sq vec) * (c * c)"
  by (induction vec) (simp_all add: norm_sq_def algebra_simps)

lemma normalised:
  assumes "norm_sq vec \<noteq> 0"
  shows "sum_list (map (\<lambda>x. x * x) (map (\<lambda>v. real_of_int v * (1 / sqrt (real_of_int (norm_sq vec)))) vec)) = 1"
proof -
  have "0 < real_of_int (norm_sq vec)" using assms norm_sq_nonneg [of vec] by simp
  then show ?thesis unfolding scaled_norm by (simp add: field_simps)
qed

section \<open>Windows\<close>

definition windows :: "nat \<Rightarrow> 'a list \<Rightarrow> 'a list list" where
  "windows n rs = map (\<lambda>i. take n (drop i rs)) [0..<length rs - n + 1]"

lemma set_windows:
  assumes "n \<le> length rs"
  shows "set (windows n rs) = {ys. sublist ys rs \<and> length ys = n}"
proof (intro set_eqI iffI)
  fix ys assume "ys \<in> set (windows n rs)"
  then obtain i where i: "i < length rs - n + 1" "ys = take n (drop i rs)" unfolding windows_def set_map set_upt by force
  then have "rs = take i rs @ ys @ drop n (drop i rs)" by (simp del: drop_drop)
  then have "sublist ys rs" unfolding sublist_def by blast
  moreover have "length ys = n" using i assms by simp
  ultimately show "ys \<in> {ys. sublist ys rs \<and> length ys = n}" by simp
next
  fix ys assume "ys \<in> {ys. sublist ys rs \<and> length ys = n}"
  then obtain ps ss where *: "rs = ps @ ys @ ss" "length ys = n" by (auto simp: sublist_def)
  then have "ys = take n (drop (length ps) rs)" "length ps < length rs - n + 1" by simp_all
  then show "ys \<in> set (windows n rs)" unfolding windows_def set_map set_upt by force
qed

lemma ngrams_unfold:
  "ngrams rs = concat (map (\<lambda>n. map encode_runes (windows n rs)) (filter (\<lambda>n. n < length rs) [3, 4, 5]))"
proof -
  have "[ngramMin..<ngramMax + 1] = [3, 4, 5]" by (simp add: ngramMin_def ngramMax_def upt_rec)
  moreover have "takeWhile (\<lambda>n. n < length rs) [3, 4, 5] = filter (\<lambda>n. n < length rs) [3, 4, 5]" by simp
  ultimately show ?thesis by (simp add: ngrams_def windows_def comp_def)
qed

section \<open>Properties\<close>

text \<open>Whatever the registry the package fills can build under a name carries that name and has one
  of the four supported dimensions, and its \<^verbatim>\<open>Embed\<close> is total: on a live context it returns a vector
  of exactly that length and of Euclidean norm 1, or reports a zero norm, which is the error the
  embedder treats as final; no other failure is possible.\<close>

lemma hashing_vectors_are_unit:
  assumes "embedder_init tt sum64 NewRegistry = Some r" and "Build r sid version p = Inr st"
  shows "st_ID st = sid \<and> st_Version st = version \<and> st_Dim st \<in> {64, 128, 256, 512}
    \<and> (case st_Embed st ctxErr content of
         Inl e \<Rightarrow> ctxErr = Some e \<or> ctxErr = None \<and> e = EmbedderError ErrZeroNorm
       | Inr vec \<Rightarrow> ctxErr = None \<and> int (length vec) = st_Dim st \<and> sum_list (map (\<lambda>x. x * x) vec) = 1)"
proof -
  have "Build r sid version p = (if (sid, version) = (hashingNgramsID, hashingNgramsVersion)
      then newHashingNgrams tt sum64 p else Build NewRegistry sid version p)"
    using RegisterVariants_Build [OF assms(1) [unfolded embedder_init_def]] by simp
  with assms(2) have names: "sid = hashingNgramsID" "version = hashingNgramsVersion"
    and st: "newHashingNgrams tt sum64 p = Inr st"
    by (auto simp: NewRegistry_def Build_def split: if_splits)
  then obtain d where d: "validHashingDim d" "st_ID st = sid" "st_Version st = version" "st_Dim st = d"
    "st_Embed st = hashing_Embed tt sum64 d"
    by (auto simp: newHashingNgrams_def split: option.splits json.splits if_splits)
  then have "0 \<le> d" "d \<in> {64, 128, 256, 512}" by (auto simp: validHashingDim_def hashingNgramsValidDims_def)
  with d show ?thesis
    using normalised [of "feature_counts sum64 (nat d) (Tokenize tt content)"]
    by (auto simp: hashing_Embed_def Let_def length_feature_counts comp_def split: option.split)
qed

definition ascii_tables :: text_tables where
  "ascii_tables = \<lparr>tt_nfc = (\<lambda>s. s), tt_lower = (\<lambda>s. s), tt_punct = (\<lambda>r. r = 0x21 \<or> r = 0x2E)\<rparr>"

definition fixed_hash :: "string \<Rightarrow> 64 word" where
  "fixed_hash s = of_nat (length s)"

definition hashing64 :: strategy where
  "hashing64 = \<lparr>st_ID = hashingNgramsID, st_Version = hashingNgramsVersion, st_Dim = 64, st_MaxInputBytes = 0,
     st_Embed = hashing_Embed ascii_tables fixed_hash 64\<rparr>"

lemma build_hashing64:
  "\<exists>r. embedder_init ascii_tables fixed_hash NewRegistry = Some r
     \<and> Build r hashingNgramsID hashingNgramsVersion [(''dim'', JNum 64)] = Inr hashing64"
  by (simp add: embedder_init_def RegisterVariants_def register_def hashing_variants_def NewRegistry_def Build_def
      newHashingNgrams_def trunc_def validHashingDim_def hashingNgramsValidDims_def hashing64_def)
    (simp add: hashingNgramsID_def hashingNgramsVersion_def)

lemma tokenize_hi: "Tokenize ascii_tables ''hi!'' = [''hi'']"
proof -
  have "char_of (104 :: nat) = CHR ''h''" "char_of (105 :: nat) = CHR ''i''" "char_of (33 :: nat) = CHR ''!''" by code_simp+
  then show ?thesis
    by (simp add: Tokenize_def ascii_tables_def runes_of_def pieces_ascii byte_def piece_rune_def rune_value_def IsSpace_def
      encode_rune_def valid_rune_def Let_def flush_def urlPrefixes_def TrimFunc_def piece_bytes_def ngrams_unfold)
qed

text \<open>The n-gram loops emit, for each length from 3 to 5 inclusive below the token's own length, one
  feature per window of the token; together exactly the encodings of the token's contiguous runs of
  those lengths. The upper length 5 is included, and the token itself is never among its n-grams.\<close>

lemma ngrams_are_the_short_windows:
  "set (ngrams rs) = encode_runes ` {ys. sublist ys rs \<and> 3 \<le> length ys \<and> length ys \<le> 5 \<and> length ys < length rs}
   \<and> length (ngrams rs) = sum_list (map (\<lambda>n. length rs - n + 1) (filter (\<lambda>n. n < length rs) [3, 4, 5]))"
proof
  have "set (ngrams rs) = encode_runes ` (\<Union>n \<in> {n \<in> {3, 4, 5}. n < length rs}. set (windows n rs))"
    unfolding ngrams_unfold set_concat set_map set_filter image_image image_UN by (rule SUP_cong) auto
  also have "(\<Union>n \<in> {n \<in> {3, 4, 5}. n < length rs}. set (windows n rs))
      = (\<Union>n \<in> {n \<in> {3, 4, 5}. n < length rs}. {ys. sublist ys rs \<and> length ys = n})"
    by (rule SUP_cong [OF refl]) (simp add: set_windows)
  also have "\<dots> = {ys. sublist ys rs \<and> 3 \<le> length ys \<and> length ys \<le> 5 \<and> length ys < length rs}" by auto
  finally show "set (ngrams rs) = encode_runes ` {ys. sublist ys rs \<and> 3 \<le> length ys \<and> length ys \<le> 5 \<and> length ys < length rs}" .
  show "length (ngrams rs) = sum_list (map (\<lambda>n. length rs - n + 1) (filter (\<lambda>n. n < length rs) [3, 4, 5]))"
    unfolding ngrams_unfold by (simp add: length_concat comp_def windows_def)
qed

end
