(* ===== verification/Embed_Store.thy ===== *)
theory Embed_Store
  imports Catalog_Items Id_Mapping Embed_Strategy
begin

text \<open>
  The stores of the embedder: the state transitions of catalog rows
  (\<^verbatim>\<open>internal/embedder/repository.go\<close>) and the dense collections and points of the vector
  database (\<^verbatim>\<open>internal/infra/qdrant/collections.go\<close>). A created collection fixes a dimension; an
  upsert into a missing collection or with another dimension is refused, otherwise it replaces the
  point of its id.
\<close>

section \<open>Dense collections\<close>

datatype CollectionKind = CollectionSubjects | CollectionObjects | CollectionSubjectsDense | CollectionObjectsDense

fun physicalKind :: "CollectionKind \<Rightarrow> PhysicalKind" where
  "physicalKind CollectionSubjects = KindSubjects"
| "physicalKind CollectionObjects = KindObjects"
| "physicalKind CollectionSubjectsDense = KindSubjectsDense"
| "physicalKind CollectionObjectsDense = KindObjectsDense"

text \<open>\<^verbatim>\<open>MustPhysicalName\<close> does not panic here: the kind is known and the namespace not empty.\<close>

definition CollectionName :: "Incarnation \<Rightarrow> CollectionKind \<Rightarrow> string" where
  "CollectionName inc kind = the (inc_MustPhysicalName inc (physicalKind kind))"

datatype Distance = Distance_Cosine | Distance_Dot

text \<open>Lower-casing yields ``dot'' exactly for the spellings that differ in ASCII case.\<close>

definition ascii_lower :: "string \<Rightarrow> string" where
  "ascii_lower = map (\<lambda>c. if 65 \<le> byte c \<and> byte c \<le> 90 then char_of (byte c + 32) else c)"

definition resolveDenseDistance :: "string \<Rightarrow> Distance" where
  "resolveDenseDistance s = (if ascii_lower s = ''dot'' then Distance_Dot else Distance_Cosine)"

record dense_point =
  dp_vector :: "real list"
  dp_object_id :: string
  dp_namespace :: namespace
  dp_strategy_id :: string
  dp_strategy_version :: string
  dp_embedded_at :: string
  dp_created_at :: "string option"

datatype collection_config = SparseCollection | DenseCollection int Distance

record dense_store =
  ds_collections :: "string \<rightharpoonup> collection_config"
  ds_points :: "string \<times> int \<rightharpoonup> dense_point"

record qdrant_env =
  qe_exists :: "string \<Rightarrow> go_error option"
  qe_create :: "string \<Rightarrow> go_error option"
  qe_upsert :: "go_error option"

definition createCollection ::
  "qdrant_env \<Rightarrow> string \<Rightarrow> collection_config \<Rightarrow> dense_store \<Rightarrow> (go_error + unit) \<times> dense_store" where
  "createCollection env name config st =
     (case qe_create env name of
        Some e \<Rightarrow> (Inl e, st)
      | None \<Rightarrow> if ds_collections st name \<noteq> None then (Inl (Failure ''already exists''), st)
                else (Inr (), st\<lparr>ds_collections := (ds_collections st)(name \<mapsto> config)\<rparr>))"

fun ensure_collections ::
  "qdrant_env \<Rightarrow> collection_config \<Rightarrow> string list \<Rightarrow> dense_store \<Rightarrow> (go_error + unit) \<times> dense_store" where
  "ensure_collections env config [] st = (Inr (), st)"
| "ensure_collections env config (name # names) st =
     (case qe_exists env name of
        Some e \<Rightarrow> (Inl e, st)
      | None \<Rightarrow>
          if ds_collections st name \<noteq> None then ensure_collections env config names st
          else case createCollection env name config st of
                 (Inl e, st1) \<Rightarrow> (Inl e, st1)
               | (Inr _, st1) \<Rightarrow> ensure_collections env config names st1)"

definition EnsureCollections :: "qdrant_env \<Rightarrow> Incarnation \<Rightarrow> dense_store \<Rightarrow> (go_error + unit) \<times> dense_store" where
  "EnsureCollections env inc st =
     ensure_collections env SparseCollection
       (map (CollectionName inc) [CollectionSubjects, CollectionObjects]) st"

definition EnsureDenseCollections ::
  "qdrant_env \<Rightarrow> Incarnation \<Rightarrow> int \<Rightarrow> string \<Rightarrow> dense_store \<Rightarrow> (go_error + unit) \<times> dense_store" where
  "EnsureDenseCollections env inc embeddingDim distance st =
     ensure_collections env (DenseCollection embeddingDim (resolveDenseDistance distance))
       (map (CollectionName inc) [CollectionObjectsDense, CollectionSubjectsDense]) st"

text \<open>The upsert of one dense point, as the database answers it.\<close>

definition point_upsert ::
  "qdrant_env \<Rightarrow> string \<Rightarrow> int \<Rightarrow> dense_point \<Rightarrow> dense_store \<Rightarrow> (go_error + unit) \<times> dense_store" where
  "point_upsert env collection pid point st =
     (case qe_upsert env of
        Some e \<Rightarrow> (Inl e, st)
      | None \<Rightarrow>
          (case ds_collections st collection of
             Some (DenseCollection n _) \<Rightarrow>
               if n = int (length (dp_vector point))
               then (Inr (), st\<lparr>ds_points := (ds_points st)((collection, pid) \<mapsto> point)\<rparr>)
               else (Inl (Failure ''vector dimension error''), st)
           | _ \<Rightarrow> (Inl (Failure ''collection not found''), st)))"

section \<open>Row transitions\<close>

record PendingItem =
  pi_ID :: int
  pi_Namespace :: namespace
  pi_ObjectID :: string
  pi_State :: item_state
  pi_Content :: string
  pi_ContentHash :: string
  pi_StrategyID :: string
  pi_StrategyVersion :: string
  pi_AttemptCount :: int
  pi_CreatedAt :: time

abbreviation item_row :: "catalog_table \<Rightarrow> int \<Rightarrow> catalog_row option" where
  "item_row t i \<equiv> lookup_row ci_id (ct_rows t) i"

definition pending_item :: "catalog_row \<Rightarrow> PendingItem" where
  "pending_item r =
     \<lparr>pi_ID = ci_id r, pi_Namespace = ci_namespace r, pi_ObjectID = ci_object_id r, pi_State = ci_state r,
      pi_Content = ci_content r, pi_ContentHash = ci_content_hash r,
      pi_StrategyID = coalesce (ci_strategy_id r), pi_StrategyVersion = coalesce (ci_strategy_version r),
      pi_AttemptCount = ci_attempt_count r, pi_CreatedAt = ci_created_at r\<rparr>"

definition LoadByID :: "go_error option \<Rightarrow> int \<Rightarrow> catalog_table \<Rightarrow> go_error + PendingItem" where
  "LoadByID fault i t =
     (case fault of
        Some e \<Rightarrow> Inl e
      | None \<Rightarrow> (case item_row t i of
                    None \<Rightarrow> Inl (EmbedderError ErrItemNotFound)
                  | Some r \<Rightarrow> Inr (pending_item r)))"

definition update_items :: "(catalog_row \<Rightarrow> bool) \<Rightarrow> (catalog_row \<Rightarrow> catalog_row) \<Rightarrow> catalog_table \<Rightarrow> catalog_table" where
  "update_items P f t = t\<lparr>ct_rows := update_where P f (ct_rows t)\<rparr>"

definition in_flight_row :: "time \<Rightarrow> catalog_row \<Rightarrow> catalog_row" where
  "in_flight_row now r =
     r\<lparr>ci_state := StateInFlight, ci_attempt_count := ci_attempt_count r + 1, ci_updated_at := now\<rparr>"

definition MarkInFlight :: "go_error option \<Rightarrow> time \<Rightarrow> int \<Rightarrow> catalog_table \<Rightarrow> (go_error + int) \<times> catalog_table" where
  "MarkInFlight fault now i t =
     (case fault of
        Some e \<Rightarrow> (Inl e, t)
      | None \<Rightarrow> (case item_row t i of
                    None \<Rightarrow> (Inl (EmbedderError ErrItemNotFound), t)
                  | Some r \<Rightarrow> (Inr (ci_attempt_count (in_flight_row now r)),
                               update_items (\<lambda>r. ci_id r = i) (in_flight_row now) t)))"

text \<open>\<^verbatim>\<open>Exec\<close> of an update: refused by a fault, otherwise judged by the rows it touched.\<close>

definition exec_update ::
  "go_error option \<Rightarrow> go_error \<Rightarrow> (catalog_row \<Rightarrow> bool) \<Rightarrow> (catalog_row \<Rightarrow> catalog_row) \<Rightarrow> catalog_table
   \<Rightarrow> (go_error + unit) \<times> catalog_table" where
  "exec_update fault missed P f t =
     (case fault of
        Some e \<Rightarrow> (Inl e, t)
      | None \<Rightarrow> (if rows_affected P (ct_rows t) = 0 then Inl missed else Inr (), update_items P f t))"

definition embedded_row :: "time \<Rightarrow> string \<Rightarrow> string \<Rightarrow> time \<Rightarrow> catalog_row \<Rightarrow> catalog_row" where
  "embedded_row now sid sver embeddedAt r =
     r\<lparr>ci_state := StateEmbedded, ci_strategy_id := Some sid, ci_strategy_version := Some sver,
       ci_embedded_at := Some embeddedAt, ci_last_error := None, ci_attempt_count := 0, ci_updated_at := now\<rparr>"

definition MarkEmbedded ::
  "go_error option \<Rightarrow> time \<Rightarrow> int \<Rightarrow> string \<Rightarrow> string \<Rightarrow> time \<Rightarrow> string \<Rightarrow> catalog_table
   \<Rightarrow> (go_error + unit) \<times> catalog_table" where
  "MarkEmbedded fault now i sid sver embeddedAt contentHash t =
     exec_update fault (EmbedderError ErrStaleItem) (\<lambda>r. ci_id r = i \<and> ci_content_hash r = contentHash)
       (embedded_row now sid sver embeddedAt) t"

definition MarkFailed ::
  "go_error option \<Rightarrow> time \<Rightarrow> int \<Rightarrow> string \<Rightarrow> catalog_table \<Rightarrow> (go_error + unit) \<times> catalog_table" where
  "MarkFailed fault now i lastError t =
     exec_update fault (EmbedderError ErrItemNotFound) (\<lambda>r. ci_id r = i)
       (\<lambda>r. r\<lparr>ci_state := StateFailed, ci_last_error := Some lastError, ci_updated_at := now\<rparr>) t"

definition MarkDeadLetter ::
  "go_error option \<Rightarrow> time \<Rightarrow> int \<Rightarrow> string \<Rightarrow> catalog_table \<Rightarrow> (go_error + unit) \<times> catalog_table" where
  "MarkDeadLetter fault now i lastError t =
     exec_update fault (EmbedderError ErrItemNotFound) (\<lambda>r. ci_id r = i)
       (\<lambda>r. r\<lparr>ci_state := StateDeadLetter, ci_last_error := Some lastError, ci_updated_at := now\<rparr>) t"

text \<open>The stranded rows: pending ones are listed, rows in flight are put back to pending and returned.\<close>

record StrandedItem =
  sr_ID :: int
  sr_ObjectID :: string

definition stranded_rows :: "item_state \<Rightarrow> namespace \<Rightarrow> time \<Rightarrow> nat \<Rightarrow> catalog_table \<Rightarrow> catalog_row list" where
  "stranded_rows state ns cutoff limit t =
     take limit (sort_key ci_updated_at
       (filter (\<lambda>r. ci_namespace r = ns \<and> ci_state r = state \<and> ci_updated_at r < cutoff) (ct_rows t)))"

definition stranded_item :: "catalog_row \<Rightarrow> StrandedItem" where
  "stranded_item r = \<lparr>sr_ID = ci_id r, sr_ObjectID = ci_object_id r\<rparr>"

definition ListStrandedPending ::
  "go_error option \<Rightarrow> namespace \<Rightarrow> time \<Rightarrow> nat \<Rightarrow> catalog_table \<Rightarrow> go_error + StrandedItem list" where
  "ListStrandedPending fault ns cutoff limit t =
     (case fault of Some e \<Rightarrow> Inl e
      | None \<Rightarrow> Inr (map stranded_item (stranded_rows StatePending ns cutoff limit t)))"

definition ResetStrandedInFlight ::
  "go_error option \<Rightarrow> time \<Rightarrow> namespace \<Rightarrow> time \<Rightarrow> nat \<Rightarrow> catalog_table
   \<Rightarrow> (go_error + StrandedItem list) \<times> catalog_table" where
  "ResetStrandedInFlight fault now ns cutoff limit t =
     (case fault of
        Some e \<Rightarrow> (Inl e, t)
      | None \<Rightarrow>
          let rows = stranded_rows StateInFlight ns cutoff limit t; ids = map ci_id rows
          in (Inr (map stranded_item (filter (\<lambda>r. ci_id r \<in> set ids) (ct_rows t))),
              update_items (\<lambda>r. ci_id r \<in> set ids) (\<lambda>r. r\<lparr>ci_state := StatePending, ci_updated_at := now\<rparr>) t))"

section \<open>Counting\<close>

record BacklogStateCounts =
  bc_Pending :: nat
  bc_InFlight :: nat
  bc_Failed :: nat
  bc_DeadLetter :: nat

definition count_state :: "namespace \<Rightarrow> item_state \<Rightarrow> catalog_table \<Rightarrow> nat" where
  "count_state ns state t = length (filter (\<lambda>r. ci_namespace r = ns \<and> ci_state r = state) (ct_rows t))"

definition CountBacklogStates :: "go_error option \<Rightarrow> namespace \<Rightarrow> catalog_table \<Rightarrow> go_error + BacklogStateCounts" where
  "CountBacklogStates fault ns t =
     (case fault of
        Some e \<Rightarrow> Inl e
      | None \<Rightarrow> Inr \<lparr>bc_Pending = count_state ns StatePending t, bc_InFlight = count_state ns StateInFlight t,
                     bc_Failed = count_state ns StateFailed t, bc_DeadLetter = count_state ns StateDeadLetter t\<rparr>)"

end
