(* ===== verification/Catalog_Embedder.thy ===== *)
theory Catalog_Embedder
  imports Embed_Store Catalog_Ingest
begin

text \<open>
  The embedder of catalog items (\<^verbatim>\<open>internal/embedder/service.go\<close>, \<^verbatim>\<open>worker.go\<close>,
  \<^verbatim>\<open>types.go\<close>): decoding of an embed entry, the orchestration of one item under the writer
  lease from the loaded row to the stored vector and the recorded state, and the worker's decision
  to acknowledge. The work on a loaded item is cut where its two writes begin, so that the steps
  of concurrent workers can be interleaved. Strategies, the configuration, hashing and time
  formatting are arguments of the environment.
\<close>

section \<open>Entries\<close>

record StreamEntry =
  se_EntryID :: string
  se_CatalogItemID :: int
  se_Namespace :: namespace
  se_NamespaceGeneration :: "int option"
  se_ObjectID :: string
  se_StrategyID :: string
  se_StrategyVer :: string
  se_EnqueuedAt :: time

definition stringField :: "(string \<times> go_value) list \<Rightarrow> string \<Rightarrow> string" where
  "stringField m key = (case map_of m key of Some (GoString s) \<Rightarrow> s | _ \<Rightarrow> [])"

text \<open>\<open>parse_time\<close> is \<^verbatim>\<open>time.Parse(time.RFC3339Nano, .)\<close>.\<close>

definition DecodeStreamEntry :: "(string \<Rightarrow> time option) \<Rightarrow> XMessage \<Rightarrow> go_error + StreamEntry" where
  "DecodeStreamEntry parse_time msg =
     (case map_of (xm_Values msg) ''catalog_item_id'' of
        Some (GoString itemIDStr) \<Rightarrow>
          (case parse_int64 itemIDStr of
             None \<Rightarrow> Inl (Failure ''parse catalog_item_id'')
           | Some itemID \<Rightarrow>
               let enqueued = stringField (xm_Values msg) ''enqueued_at'';
                   gen = stringField (xm_Values msg) ''namespace_generation'';
                   entry = (\<lambda>g. \<lparr>se_EntryID = xm_ID msg, se_CatalogItemID = itemID,
                     se_Namespace = stringField (xm_Values msg) ''namespace'', se_NamespaceGeneration = g,
                     se_ObjectID = stringField (xm_Values msg) ''object_id'',
                     se_StrategyID = stringField (xm_Values msg) ''strategy_id'',
                     se_StrategyVer = stringField (xm_Values msg) ''strategy_version'',
                     se_EnqueuedAt = (if enqueued = [] then zero_time
                        else case parse_time enqueued of None \<Rightarrow> zero_time | Some s \<Rightarrow> s)\<rparr>)
               in if gen = [] then Inr (entry None)
                  else case parse_int64 gen of
                         None \<Rightarrow> Inl (Failure ''invalid namespace_generation'')
                       | Some g \<Rightarrow> if g < 1 then Inl (Failure ''invalid namespace_generation'')
                                   else Inr (entry (Some g)))
      | _ \<Rightarrow> Inl (Failure ''catalog_item_id''))"

section \<open>State and environment\<close>

datatype ProcessOutcome = OutcomeEmbedded | OutcomeDeadLetter | OutcomeSkipped | OutcomeFailed

definition ShouldAck :: "ProcessOutcome \<Rightarrow> bool" where
  "ShouldAck out \<longleftrightarrow> out \<noteq> OutcomeFailed"

record CatalogItemStateChangedEvent =
  ch_Namespace :: namespace
  ch_NamespaceGeneration :: int
  ch_ItemID :: int
  ch_ObjectID :: string
  ch_From :: string
  ch_To :: string
  ch_At :: time

text \<open>
  The state: the catalog's tables and streams, the id mappings, the vector store, and what the
  service keeps in memory (strategies built per namespace, collections known to exist).
\<close>

record embed_world =
  ew_cat :: catalog_world
  ew_ids :: id_table
  ew_dense :: dense_store
  ew_cache :: "namespace \<rightharpoonup> string \<times> strategy"
  ew_ensured :: "string list"
  ew_changes :: "CatalogItemStateChangedEvent list"

record embed_env =
  ev_lifecycle :: "svc_env option"
  ev_now :: time
  ev_clock :: time
  ev_get :: "lctx \<Rightarrow> namespace \<Rightarrow> go_error + Config option"
  ev_default_max :: int
  ev_build :: "string \<Rightarrow> string \<Rightarrow> params \<Rightarrow> go_error + strategy"
  ev_marshal :: "params \<Rightarrow> go_error + string"
  ev_sha :: "string \<Rightarrow> string"
  ev_rfc3339 :: "time \<Rightarrow> string"
  ev_error_text :: "go_error \<Rightarrow> string"
  ev_ctx :: "go_error option"
  ev_publisher :: bool
  ev_load :: "go_error option"
  ev_in_flight :: "go_error option"
  ev_mark_embedded :: "go_error option"
  ev_mark_failed :: "go_error option"
  ev_mark_dead :: "go_error option"
  ev_ids :: id_env
  ev_qdrant :: qdrant_env
  ev_envelope :: "go_error option"
  ev_ack :: "go_error option"

abbreviation ew_ledger :: "embed_world \<Rightarrow> ledger" where
  "ew_ledger w \<equiv> cw_ledger (ew_cat w)"

abbreviation ew_items :: "embed_world \<Rightarrow> catalog_table" where
  "ew_items w \<equiv> cw_items (ew_cat w)"

definition with_items :: "catalog_table \<Rightarrow> embed_world \<Rightarrow> embed_world" where
  "with_items t w = w\<lparr>ew_cat := (ew_cat w)\<lparr>cw_items := t\<rparr>\<rparr>"

type_synonym outcome = "ProcessOutcome \<times> go_error option"

section \<open>Recording transitions\<close>

definition publishItemStateChanged ::
  "embed_env \<Rightarrow> lctx \<Rightarrow> PendingItem \<Rightarrow> string \<Rightarrow> string \<Rightarrow> embed_world \<Rightarrow> embed_world" where
  "publishItemStateChanged env ctx item from to w =
     (if \<not> ev_publisher env then w
      else let g = fst (LeaseGeneration ctx (pi_Namespace item))
           in w\<lparr>ew_changes := ew_changes w @
                 [\<lparr>ch_Namespace = pi_Namespace item, ch_NamespaceGeneration = (if g < 2 then 0 else g),
                   ch_ItemID = pi_ID item, ch_ObjectID = pi_ObjectID item, ch_From = from, ch_To = to,
                   ch_At = ev_clock env\<rparr>]\<rparr>)"

definition deadLetterOutcome ::
  "embed_env \<Rightarrow> lctx \<Rightarrow> PendingItem \<Rightarrow> string \<Rightarrow> embed_world \<Rightarrow> outcome \<times> embed_world" where
  "deadLetterOutcome env ctx item reason w =
     (case MarkDeadLetter (ev_mark_dead env) (ev_now env) (pi_ID item) reason (ew_items w) of
        (Inl e, t) \<Rightarrow> ((OutcomeFailed, Some e), with_items t w)
      | (Inr _, t) \<Rightarrow> ((OutcomeDeadLetter, None),
                       publishItemStateChanged env ctx item ''in_flight'' ''dead_letter'' (with_items t w)))"

definition markFailed :: "embed_env \<Rightarrow> lctx \<Rightarrow> PendingItem \<Rightarrow> string \<Rightarrow> embed_world \<Rightarrow> embed_world" where
  "markFailed env ctx item reason w =
     (case MarkFailed (ev_mark_failed env) (ev_now env) (pi_ID item) reason (ew_items w) of
        (Inl e, t) \<Rightarrow> with_items t w
      | (Inr _, t) \<Rightarrow> publishItemStateChanged env ctx item ''in_flight'' ''failed'' (with_items t w))"

definition handleEmbedError ::
  "embed_env \<Rightarrow> lctx \<Rightarrow> PendingItem \<Rightarrow> go_error \<Rightarrow> embed_world \<Rightarrow> outcome \<times> embed_world" where
  "handleEmbedError env ctx item e w =
     (if e \<in> {EmbedderError ErrZeroNorm, EmbedderError ErrInputTooLarge, EmbedderError ErrDimensionMismatch}
      then deadLetterOutcome env ctx item (ev_error_text env e) w
      else ((OutcomeFailed, Some e), markFailed env ctx item (ev_error_text env e) w))"

section \<open>Strategy and collections\<close>

text \<open>The bytes hashed: id and version, each ended by a zero byte, then the marshalled parameters.\<close>

definition strategyCacheKey :: "embed_env \<Rightarrow> string \<Rightarrow> string \<Rightarrow> params \<Rightarrow> go_error + string" where
  "strategyCacheKey env sid version ps =
     (case ev_marshal env ps of
        Inl e \<Rightarrow> Inl e
      | Inr rawp \<Rightarrow> Inr (ev_sha env (sid @ [NUL] @ version @ [NUL] @ rawp)))"

definition resolveStrategy ::
  "embed_env \<Rightarrow> namespace \<Rightarrow> Config \<Rightarrow> embed_world \<Rightarrow> (go_error + strategy) \<times> embed_world" where
  "resolveStrategy env ns cfg w =
     (case strategyCacheKey env (cfg_CatalogStrategyID cfg) (cfg_CatalogStrategyVersion cfg)
             (cfg_CatalogStrategyParams cfg) of
        Inl e \<Rightarrow> (Inl e, w)
      | Inr key \<Rightarrow>
          (case ew_cache w ns of
             Some (cached_key, s) \<Rightarrow>
               if cached_key = key then (Inr s, w)
               else (case ev_build env (cfg_CatalogStrategyID cfg) (cfg_CatalogStrategyVersion cfg)
                            (cfg_CatalogStrategyParams cfg) of
                       Inl e \<Rightarrow> (Inl e, w)
                     | Inr built \<Rightarrow> (Inr built, w\<lparr>ew_cache := (ew_cache w)(ns \<mapsto> (key, built))\<rparr>))
           | None \<Rightarrow>
               (case ev_build env (cfg_CatalogStrategyID cfg) (cfg_CatalogStrategyVersion cfg)
                       (cfg_CatalogStrategyParams cfg) of
                  Inl e \<Rightarrow> (Inl e, w)
                | Inr built \<Rightarrow> (Inr built, w\<lparr>ew_cache := (ew_cache w)(ns \<mapsto> (key, built))\<rparr>))))"

definition resolveIncarnation :: "lctx \<Rightarrow> namespace \<Rightarrow> Config \<Rightarrow> Incarnation" where
  "resolveIncarnation ctx ns cfg =
     (case LeaseIncarnation ctx ns of
        (inc, True) \<Rightarrow> inc
      | (_, False) \<Rightarrow> ConfigIncarnation ns (Some (cfg_Generation cfg)))"

definition ensure_key :: "Incarnation \<Rightarrow> int \<Rightarrow> string \<Rightarrow> string" where
  "ensure_key inc d distance = inc_QdrantNamespace inc @ ''|'' @ show_int d @ ''|'' @ distance"

definition ensureNamespaceCollections ::
  "embed_env \<Rightarrow> lctx \<Rightarrow> namespace \<Rightarrow> Config \<Rightarrow> embed_world \<Rightarrow> (go_error + unit) \<times> embed_world" where
  "ensureNamespaceCollections env ctx ns cfg w =
     (let d = cfg_EmbeddingDim cfg mod 2 ^ 64;
          distance = (if cfg_DenseDistance cfg = [] then ''cosine'' else cfg_DenseDistance cfg);
          inc = resolveIncarnation ctx ns cfg; key = ensure_key inc d distance
      in if key \<in> set (ew_ensured w) then (Inr (), w)
         else case EnsureDenseCollections (ev_qdrant env) inc d distance (ew_dense w) of
                (Inl e, st) \<Rightarrow> (Inl e, w\<lparr>ew_dense := st\<rparr>)
              | (Inr _, st) \<Rightarrow> (Inr (), w\<lparr>ew_dense := st, ew_ensured := key # ew_ensured w\<rparr>))"

definition invalidateEnsured :: "namespace \<Rightarrow> embed_world \<Rightarrow> embed_world" where
  "invalidateEnsured ns w =
     w\<lparr>ew_ensured := filter (\<lambda>key. \<not> (prefix (ns @ ''|'') key \<or> prefix (ns @ ''_g'') key)) (ew_ensured w)\<rparr>"

definition item_point :: "embed_env \<Rightarrow> PendingItem \<Rightarrow> strategy \<Rightarrow> time \<Rightarrow> real list \<Rightarrow> dense_point" where
  "item_point env item s embeddedAt vec =
     \<lparr>dp_vector = vec, dp_object_id = pi_ObjectID item, dp_namespace = pi_Namespace item,
      dp_strategy_id = st_ID s, dp_strategy_version = st_Version s,
      dp_embedded_at = ev_rfc3339 env embeddedAt,
      dp_created_at = (if pi_CreatedAt item = zero_time then None else Some (ev_rfc3339 env (pi_CreatedAt item)))\<rparr>"

definition upsertVector ::
  "embed_env \<Rightarrow> PendingItem \<Rightarrow> Incarnation \<Rightarrow> int \<Rightarrow> real list \<Rightarrow> strategy \<Rightarrow> time \<Rightarrow> embed_world
   \<Rightarrow> (go_error + unit) \<times> embed_world" where
  "upsertVector env item inc pointID vec s embeddedAt w =
     (case point_upsert (ev_qdrant env) (CollectionName inc CollectionObjectsDense) pointID
             (item_point env item s embeddedAt vec) (ew_dense w) of
        (r, st) \<Rightarrow> (r, w\<lparr>ew_dense := st\<rparr>))"

section \<open>Processing an item\<close>

definition max_attempts :: "embed_env \<Rightarrow> Config \<Rightarrow> int" where
  "max_attempts env cfg =
     (let n = (if cfg_CatalogMaxAttempts cfg \<le> 0 then ev_default_max env else cfg_CatalogMaxAttempts cfg)
      in if n \<le> 0 then 5 else n)"

text \<open>What the first part of the work hands to the second.\<close>

record embedding =
  em_cfg :: Config
  em_strategy :: strategy
  em_vector :: "real list"
  em_point :: int

text \<open>
  The first part, up to the vector and its point id: gate, claim, attempt budget, strategy,
  \<^verbatim>\<open>Embed\<close>, dimension, collections and id. It ends early with an outcome or hands on.
\<close>

definition embed_item ::
  "embed_env \<Rightarrow> lctx \<Rightarrow> PendingItem \<Rightarrow> Config \<Rightarrow> embed_world \<Rightarrow> (outcome + embedding) \<times> embed_world" where
  "embed_item env ctx item cfg w =
     (case resolveStrategy env (pi_Namespace item) cfg w of
        (Inl e, w1) \<Rightarrow>
          (case deadLetterOutcome env ctx item (''strategy resolve: '' @ ev_error_text env e) w1 of
             (res, w2) \<Rightarrow> (Inl res, w2))
      | (Inr s, w1) \<Rightarrow>
          (case st_Embed s (ev_ctx env) (pi_Content item) of
             Inl e \<Rightarrow> (case handleEmbedError env ctx item e w1 of (res, w2) \<Rightarrow> (Inl res, w2))
           | Inr vec \<Rightarrow>
               if int (length vec) \<noteq> cfg_EmbeddingDim cfg
               then (case deadLetterOutcome env ctx item (''dim mismatch: produced='' @ show_nat (length vec)
                        @ '' expected='' @ show_int (cfg_EmbeddingDim cfg)) w1 of (res, w2) \<Rightarrow> (Inl res, w2))
               else case ensureNamespaceCollections env ctx (pi_Namespace item) cfg w1 of
                 (Inl e, w2) \<Rightarrow>
                   (Inl (OutcomeFailed, Some e),
                    markFailed env ctx item (''ensure dense collections: '' @ ev_error_text env e) w2)
               | (Inr _, w2) \<Rightarrow>
                   (case GetOrCreateObjectID (ev_ids env) ctx (pi_ObjectID item) (pi_Namespace item) (ew_ids w2) of
                      (Inl e, ids) \<Rightarrow>
                        (Inl (OutcomeFailed, Some e),
                         markFailed env ctx item (''idmap: '' @ ev_error_text env e) (w2\<lparr>ew_ids := ids\<rparr>))
                    | (Inr pid, ids) \<Rightarrow>
                        (Inr \<lparr>em_cfg = cfg, em_strategy = s, em_vector = vec, em_point = pid\<rparr>,
                         w2\<lparr>ew_ids := ids\<rparr>))))"

definition prepare_item ::
  "embed_env \<Rightarrow> lctx \<Rightarrow> PendingItem \<Rightarrow> embed_world \<Rightarrow> (outcome + embedding) \<times> embed_world" where
  "prepare_item env ctx item w =
     (case ev_get env ctx (pi_Namespace item) of
        Inl e \<Rightarrow> (Inl (OutcomeFailed, Some e), w)
      | Inr None \<Rightarrow> (Inl (OutcomeSkipped, None), w)
      | Inr (Some cfg) \<Rightarrow>
          if cfg_DenseSource cfg \<noteq> DenseSourceCatalog then (Inl (OutcomeSkipped, None), w)
          else if pi_State item = StateEmbedded \<and> pi_StrategyID item = cfg_CatalogStrategyID cfg
                  \<and> pi_StrategyVersion item = cfg_CatalogStrategyVersion cfg
          then (Inl (OutcomeSkipped, None), w)
          else case MarkInFlight (ev_in_flight env) (ev_now env) (pi_ID item) (ew_items w) of
            (Inl e, t) \<Rightarrow>
              (Inl (if e = EmbedderError ErrItemNotFound then (OutcomeSkipped, None) else (OutcomeFailed, Some e)),
               with_items t w)
          | (Inr attempt, t) \<Rightarrow>
              let w1 = publishItemStateChanged env ctx item ''pending'' ''in_flight'' (with_items t w)
              in if attempt > max_attempts env cfg
                 then (case deadLetterOutcome env ctx item
                              (''attempt '' @ show_int attempt @ '' exceeds max '' @ show_int (max_attempts env cfg)) w1 of
                         (res, w2) \<Rightarrow> (Inl res, w2))
                 else embed_item env ctx item cfg w1)"

text \<open>The second part: the vector, then the row, guarded by the hash of the content embedded.\<close>

definition commit_item ::
  "embed_env \<Rightarrow> lctx \<Rightarrow> PendingItem \<Rightarrow> embedding \<Rightarrow> embed_world \<Rightarrow> outcome \<times> embed_world" where
  "commit_item env ctx item em w =
     (let s = em_strategy em; embeddedAt = ev_clock env
      in case upsertVector env item (resolveIncarnation ctx (pi_Namespace item) (em_cfg em)) (em_point em)
                (em_vector em) s embeddedAt w of
           (Inl e, w1) \<Rightarrow>
             ((OutcomeFailed, Some e),
              markFailed env ctx item (''qdrant: '' @ ev_error_text env e) (invalidateEnsured (pi_Namespace item) w1))
         | (Inr _, w1) \<Rightarrow>
             (case MarkEmbedded (ev_mark_embedded env) (ev_now env) (pi_ID item) (st_ID s) (st_Version s) embeddedAt
                     (pi_ContentHash item) (ew_items w1) of
                (Inl e, t) \<Rightarrow> ((OutcomeFailed, Some e), with_items t w1)
              | (Inr _, t) \<Rightarrow> ((OutcomeEmbedded, None),
                               publishItemStateChanged env ctx item ''in_flight'' ''embedded'' (with_items t w1))))"

definition processLoadedItem ::
  "embed_env \<Rightarrow> lctx \<Rightarrow> PendingItem \<Rightarrow> embed_world \<Rightarrow> outcome \<times> embed_world" where
  "processLoadedItem env ctx item w =
     (case prepare_item env ctx item w of
        (Inl res, w1) \<Rightarrow> (res, w1)
      | (Inr em, w1) \<Rightarrow> commit_item env ctx item em w1)"

text \<open>
  \<^verbatim>\<open>ProcessItem\<close>: the outcome is a variable of the enclosing function, which the fenced callback
  assigns; it starts with Go's zero value, the first constant of the enumeration.
\<close>

definition ProcessItem :: "embed_env \<Rightarrow> lctx \<Rightarrow> int \<Rightarrow> embed_world \<Rightarrow> outcome \<times> embed_world" where
  "ProcessItem env ctx i w =
     (case LoadByID (ev_load env) i (ew_items w) of
        Inl e \<Rightarrow> if e = EmbedderError ErrItemNotFound then ((OutcomeSkipped, None), w)
                 else ((OutcomeFailed, Some e), w)
      | Inr item \<Rightarrow>
          (case ev_lifecycle env of
             None \<Rightarrow> processLoadedItem env ctx item w
           | Some svc \<Rightarrow>
               (case fst (WithWriter svc (\<lambda>(_, w). ew_ledger w) ctx (pi_Namespace item)
                            (\<lambda>leased _ (_, w).
                               case processLoadedItem env leased item w of
                                 ((out, err), w1) \<Rightarrow>
                                   (case err of None \<Rightarrow> Inr () | Some e \<Rightarrow> Inl e, (out, w1)))
                            (OutcomeEmbedded, w)) of
                  (Inl e, (out, w1)) \<Rightarrow> ((out, Some e), w1)
                | (Inr _, (out, w1)) \<Rightarrow> ((out, None), w1))))"

section \<open>The worker\<close>

definition embed_ack :: "go_error option \<Rightarrow> string \<Rightarrow> embed_world \<Rightarrow> embed_world" where
  "embed_ack fault i w = w\<lparr>ew_cat := catalog_ack fault i (ew_cat w)\<rparr>"

definition embed_handleMessage ::
  "embed_env \<Rightarrow> (string \<Rightarrow> time option) \<Rightarrow> lctx \<Rightarrow> namespace \<Rightarrow> XMessage \<Rightarrow> embed_world \<Rightarrow> embed_world" where
  "embed_handleMessage env parse_time ctx ns msg w =
     (case DecodeStreamEntry parse_time msg of
        Inl e \<Rightarrow> embed_ack (ev_ack env) (xm_ID msg) w
      | Inr entry \<Rightarrow>
          (case (if ev_lifecycle env = None then Inr EnvelopeProcess
                 else EvaluateEnvelope (ev_envelope env) (ew_ledger w) ns (se_NamespaceGeneration entry)) of
             Inl e \<Rightarrow> w
           | Inr EnvelopeStale \<Rightarrow> embed_ack (ev_ack env) (xm_ID msg) w
           | Inr EnvelopeProcess \<Rightarrow>
               (case ProcessItem env ctx (se_CatalogItemID entry) w of
                  ((out, err), w1) \<Rightarrow>
                    if ShouldAck out then embed_ack (ev_ack env) (xm_ID msg) w1 else w1)))"

section \<open>Tables under transitions\<close>

lemma with_items_sel [simp]:
  "ew_items (with_items t w) = t" "ew_ledger (with_items t w) = ew_ledger w" "ew_ids (with_items t w) = ew_ids w"
  "ew_dense (with_items t w) = ew_dense w" "ew_cache (with_items t w) = ew_cache w"
  "cw_streams (ew_cat (with_items t w)) = cw_streams (ew_cat w)" "cw_acked (ew_cat (with_items t w)) = cw_acked (ew_cat w)"
  by (simp_all add: with_items_def)

lemma publishItemStateChanged_sel [simp]:
  "ew_cat (publishItemStateChanged env ctx item f s w) = ew_cat w" "ew_ids (publishItemStateChanged env ctx item f s w) = ew_ids w"
  "ew_dense (publishItemStateChanged env ctx item f s w) = ew_dense w"
  "ew_cache (publishItemStateChanged env ctx item f s w) = ew_cache w"
  by (simp_all add: publishItemStateChanged_def Let_def)

lemma invalidateEnsured_sel [simp]:
  "ew_cat (invalidateEnsured ns w) = ew_cat w" "ew_ids (invalidateEnsured ns w) = ew_ids w"
  "ew_dense (invalidateEnsured ns w) = ew_dense w" "ew_cache (invalidateEnsured ns w) = ew_cache w"
  by (simp_all add: invalidateEnsured_def)

text \<open>A transition: the row keeps its identity and content and is not the embedded one.\<close>

definition moves_row :: "(catalog_row \<Rightarrow> catalog_row) \<Rightarrow> bool" where
  "moves_row f \<longleftrightarrow> (\<forall>r. ci_id (f r) = ci_id r \<and> ci_namespace (f r) = ci_namespace r \<and> ci_object_id (f r) = ci_object_id r
     \<and> ci_content (f r) = ci_content r \<and> ci_content_hash (f r) = ci_content_hash r
     \<and> (0 \<le> ci_attempt_count r \<longrightarrow> 0 \<le> ci_attempt_count (f r)))"

lemma moves_row_key: "moves_row f \<Longrightarrow> item_key (f r) = item_key r"
  by (simp add: moves_row_def item_key_def)

lemma update_items_wf:
  assumes "moves_row f" and "catalog_wf t"
  shows "catalog_wf (update_items P f t)"
  using assms moves_row_key [OF assms(1)]
  by (auto simp: catalog_wf_def update_items_def moves_row_def intro!: list_all_update)

lemma item_row_update:
  "moves_row f \<Longrightarrow> item_row (update_items P f t) i = map_option (\<lambda>r. if P r then f r else r) (item_row t i)"
  by (simp add: update_items_def moves_row_def)

section \<open>What an embedded row promises\<close>

text \<open>
  The vector store holds, under the row's own id and in the collection of its namespace's current
  generation, a vector that the recorded strategy computed from a content with the row's hash.
\<close>

definition has_vector ::
  "(string \<Rightarrow> string) \<Rightarrow> (string \<Rightarrow> string \<Rightarrow> params \<Rightarrow> go_error + strategy) \<Rightarrow> ledger \<Rightarrow> id_table
   \<Rightarrow> (string \<times> int \<rightharpoonup> dense_point) \<Rightarrow> catalog_row \<Rightarrow> bool" where
  "has_vector hash build L ids points r \<longleftrightarrow>
     (\<exists>g pid p s. phase L (ci_namespace r) = ActiveAt g
        \<and> id_of ids (ci_namespace r) ''object'' (ci_object_id r) = Some pid
        \<and> points (CollectionName (NewIncarnation (ci_namespace r) g) CollectionObjectsDense, pid) = Some p
        \<and> dp_object_id p = ci_object_id r \<and> dp_namespace p = ci_namespace r
        \<and> ci_strategy_id r = Some (st_ID s) \<and> ci_strategy_version r = Some (st_Version s)
        \<and> dp_strategy_id p = st_ID s \<and> dp_strategy_version p = st_Version s
        \<and> (\<exists>sid ver ps. build sid ver ps = Inr s)
        \<and> (\<exists>content c. hash content = ci_content_hash r \<and> st_Embed s c content = Inr (dp_vector p)))"

definition item_ok ::
  "(string \<Rightarrow> string) \<Rightarrow> (string \<Rightarrow> string \<Rightarrow> params \<Rightarrow> go_error + strategy) \<Rightarrow> ledger \<Rightarrow> id_table
   \<Rightarrow> (string \<times> int \<rightharpoonup> dense_point) \<Rightarrow> catalog_row \<Rightarrow> bool" where
  "item_ok hash build L ids points r \<longleftrightarrow> ci_content_hash r = hash (ci_content r)
     \<and> (ci_state r = StateEmbedded \<longrightarrow> has_vector hash build L ids points r)"

definition embed_inv ::
  "(string \<Rightarrow> string) \<Rightarrow> (string \<Rightarrow> string \<Rightarrow> params \<Rightarrow> go_error + strategy) \<Rightarrow> embed_world \<Rightarrow> bool" where
  "embed_inv hash build w \<longleftrightarrow> catalog_wf (ew_items w) \<and> idmap_wf (ew_ids w)
     \<and> (\<forall>ns key s. ew_cache w ns = Some (key, s) \<longrightarrow> (\<exists>sid ver ps. build sid ver ps = Inr s))
     \<and> list_all (item_ok hash build (ew_ledger w) (ew_ids w) (ds_points (ew_dense w))) (ct_rows (ew_items w))"

lemma has_vector_ids:
  assumes "idmap_wf ids" and "id_extends ids ids'" and "has_vector hash build L ids points r"
  shows "has_vector hash build L ids' points r"
  using assms(3) id_of_extends [OF assms(1,2)] unfolding has_vector_def by blast

lemma item_ok_ids:
  "idmap_wf ids \<Longrightarrow> id_extends ids ids' \<Longrightarrow> item_ok hash build L ids points r \<Longrightarrow> item_ok hash build L ids' points r"
  using has_vector_ids unfolding item_ok_def by blast

text \<open>Changes of the points of one object's id leave the rows of other objects in order.\<close>

lemma item_ok_points:
  assumes "idmap_wf ids" and "id_of ids ns ''object'' oid = Some pid" and "\<And>c q. q \<noteq> pid \<Longrightarrow> points' (c, q) = points (c, q)"
    and "ci_state r = StateEmbedded \<Longrightarrow> (ci_namespace r, ci_object_id r) \<noteq> (ns, oid)"
    and "item_ok hash build L ids points r"
  shows "item_ok hash build L ids points' r"
proof -
  have "has_vector hash build L ids points' r"
    if st: "ci_state r = StateEmbedded" and "has_vector hash build L ids points r"
  proof -
    from that(2) obtain g pid' p' s where *: "phase L (ci_namespace r) = ActiveAt g"
        "id_of ids (ci_namespace r) ''object'' (ci_object_id r) = Some pid'"
        "points (CollectionName (NewIncarnation (ci_namespace r) g) CollectionObjectsDense, pid') = Some p'"
        "dp_object_id p' = ci_object_id r" "dp_namespace p' = ci_namespace r"
        "ci_strategy_id r = Some (st_ID s)" "ci_strategy_version r = Some (st_Version s)"
        "dp_strategy_id p' = st_ID s" "dp_strategy_version p' = st_Version s"
        "\<exists>sid ver ps. build sid ver ps = Inr s"
        "\<exists>content c. hash content = ci_content_hash r \<and> st_Embed s c content = Inr (dp_vector p')"
      unfolding has_vector_def by blast
    have "pid' \<noteq> pid" using id_of_inject [OF assms(1) *(2), of ns "''object''" oid] assms(2,4) st by auto
    with *(3) assms(3) have "points' (CollectionName (NewIncarnation (ci_namespace r) g) CollectionObjectsDense, pid') = Some p'"
      by simp
    with * show ?thesis unfolding has_vector_def by blast
  qed
  with assms(5) show ?thesis unfolding item_ok_def by blast
qed

lemma item_ok_point:
  assumes "idmap_wf ids" and "id_of ids ns ''object'' oid = Some pid"
    and "ci_state r = StateEmbedded \<Longrightarrow> (ci_namespace r, ci_object_id r) \<noteq> (ns, oid)"
    and "item_ok hash build L ids points r"
  shows "item_ok hash build L ids (points((coll, pid) \<mapsto> p)) r"
  by (rule item_ok_points [OF assms(1,2) _ assms(3,4)]) simp_all

lemma embed_inv_cong:
  assumes "ew_items w' = ew_items w" and "ew_ledger w' = ew_ledger w" and "ew_ids w' = ew_ids w"
    and "ds_points (ew_dense w') = ds_points (ew_dense w)" and "ew_cache w' = ew_cache w"
  shows "embed_inv hash build w' = embed_inv hash build w"
  using assms by (simp add: embed_inv_def)

lemma embed_inv_ids:
  assumes "embed_inv hash build w" and "id_extends (ew_ids w) ids"
  shows "embed_inv hash build (w\<lparr>ew_ids := ids\<rparr>)"
  using assms item_ok_ids [of "ew_ids w" ids]
  by (auto simp: embed_inv_def id_extends_def list_all_iff)

lemma embed_inv_update:
  assumes "embed_inv hash build w" and "moves_row f"
    and "\<And>r. r \<in> set (ct_rows (ew_items w)) \<Longrightarrow> P r \<Longrightarrow> ci_state (f r) = StateEmbedded \<Longrightarrow>
           has_vector hash build (ew_ledger w) (ew_ids w) (ds_points (ew_dense w)) (f r)"
  shows "embed_inv hash build (with_items (update_items P f (ew_items w)) w)"
proof -
  have "list_all (item_ok hash build (ew_ledger w) (ew_ids w) (ds_points (ew_dense w)))
      (update_where P f (ct_rows (ew_items w)))"
    by (rule list_all_update) (use assms in \<open>auto simp: embed_inv_def item_ok_def moves_row_def\<close>)
  with assms(1,2) show ?thesis by (simp add: embed_inv_def update_items_wf) (simp add: update_items_def)
qed

section \<open>Each part keeps the promise\<close>

lemma moves_rows:
  "moves_row (in_flight_row now)" "moves_row (embedded_row now sid ver embedded_time)"
  "moves_row (\<lambda>r. r\<lparr>ci_state := st, ci_last_error := le, ci_updated_at := now\<rparr>)"
  "moves_row (\<lambda>r. r\<lparr>ci_state := st, ci_updated_at := now\<rparr>)"
  by (simp_all add: moves_row_def in_flight_row_def embedded_row_def)

lemma exec_update_inv:
  assumes "embed_inv hash build w" and "moves_row f"
    and "\<And>r. r \<in> set (ct_rows (ew_items w)) \<Longrightarrow> P r \<Longrightarrow> ci_state (f r) = StateEmbedded \<Longrightarrow>
           has_vector hash build (ew_ledger w) (ew_ids w) (ds_points (ew_dense w)) (f r)"
    and "exec_update fault missed P f (ew_items w) = (res, t)"
  shows "embed_inv hash build (with_items t w)"
proof (cases fault)
  case None
  then have "t = update_items P f (ew_items w)" using assms(4) by (auto simp: exec_update_def)
  then show ?thesis by (simp only:) (rule embed_inv_update [OF assms(1-3)])
next
  case (Some e)
  then have "t = ew_items w" using assms(4) by (simp add: exec_update_def)
  then have "embed_inv hash build (with_items t w) = embed_inv hash build w" by (intro embed_inv_cong) simp_all
  then show ?thesis using assms(1) by simp
qed

lemma publish_inv [simp]: "embed_inv hash build (publishItemStateChanged env ctx item f s w) = embed_inv hash build w"
  by (rule embed_inv_cong) simp_all

text \<open>What every operation of a leased run keeps, besides the invariant.\<close>

definition keeps_rest :: "embed_world \<Rightarrow> embed_world \<Rightarrow> bool" where
  "keeps_rest w w' \<longleftrightarrow> ew_ledger w' = ew_ledger w \<and> cw_streams (ew_cat w') = cw_streams (ew_cat w)
     \<and> cw_acked (ew_cat w') = cw_acked (ew_cat w)"

lemma keeps_rest_refl [simp]: "keeps_rest w w"
  by (simp add: keeps_rest_def)

lemma keeps_rest_trans [trans]: "keeps_rest w w' \<Longrightarrow> keeps_rest w' w'' \<Longrightarrow> keeps_rest w w''"
  by (simp add: keeps_rest_def)

lemma keeps_rest_cong:
  "ew_cat w' = ew_cat w \<Longrightarrow> keeps_rest w w'" "keeps_rest w (with_items t w)"
  "keeps_rest w (publishItemStateChanged env ctx item f s w') = keeps_rest w w'"
  by (simp_all add: keeps_rest_def)

lemma deadLetterOutcome_inv:
  assumes "embed_inv hash build w" and "deadLetterOutcome env ctx item reason w = (res, w')"
  shows "embed_inv hash build w' \<and> keeps_rest w w'"
proof -
  obtain r t where t: "MarkDeadLetter (ev_mark_dead env) (ev_now env) (pi_ID item) reason (ew_items w) = (r, t)" by fastforce
  then have "embed_inv hash build (with_items t w)"
    unfolding MarkDeadLetter_def by (rule exec_update_inv [OF assms(1) moves_rows(3), rotated]) simp
  with t assms(2) show ?thesis by (auto simp: deadLetterOutcome_def keeps_rest_cong split: sum.splits)
qed

lemma markFailed_inv:
  assumes "embed_inv hash build w"
  shows "embed_inv hash build (markFailed env ctx item reason w) \<and> keeps_rest w (markFailed env ctx item reason w)"
proof -
  obtain r t where t: "MarkFailed (ev_mark_failed env) (ev_now env) (pi_ID item) reason (ew_items w) = (r, t)" by fastforce
  then have "embed_inv hash build (with_items t w)"
    unfolding MarkFailed_def by (rule exec_update_inv [OF assms moves_rows(3), rotated]) simp
  with t show ?thesis by (auto simp: markFailed_def keeps_rest_cong split: sum.splits)
qed

lemma handleEmbedError_inv:
  assumes "embed_inv hash build w" and "handleEmbedError env ctx item e w = (res, w')"
  shows "embed_inv hash build w' \<and> keeps_rest w w'"
  using assms(2) deadLetterOutcome_inv [OF assms(1)] markFailed_inv [OF assms(1)]
  by (auto simp: handleEmbedError_def split: if_splits)

lemma resolveStrategy_inv:
  assumes "embed_inv hash build w" and "ev_build env = build" and "resolveStrategy env ns cfg w = (res, w')"
  shows "embed_inv hash build w' \<and> keeps_rest w w' \<and> ew_items w' = ew_items w
    \<and> (\<forall>s. res = Inr s \<longrightarrow> (\<exists>sid ver ps. build sid ver ps = Inr s))"
proof -
  define b where "b = ev_build env (cfg_CatalogStrategyID cfg) (cfg_CatalogStrategyVersion cfg) (cfg_CatalogStrategyParams cfg)"
  define k where "k = strategyCacheKey env (cfg_CatalogStrategyID cfg) (cfg_CatalogStrategyVersion cfg) (cfg_CatalogStrategyParams cfg)"
  consider (same) "w' = w" "\<forall>s. res = Inr s \<longrightarrow> (\<exists>key. ew_cache w ns = Some (key, s))"
    | (built) key s where "w' = w\<lparr>ew_cache := (ew_cache w)(ns \<mapsto> (key, s))\<rparr>" "res = Inr s" "b = Inr s"
    using assms(3) unfolding resolveStrategy_def b_def [symmetric] k_def [symmetric]
    by (cases k; cases "ew_cache w ns"; cases b) (auto split: if_splits)
  then show ?thesis
  proof cases
    case same
    with assms(1) show ?thesis by (fastforce simp: embed_inv_def)
  next
    case (built key s)
    then have "build (cfg_CatalogStrategyID cfg) (cfg_CatalogStrategyVersion cfg) (cfg_CatalogStrategyParams cfg) = Inr s"
      using assms(2) b_def by simp
    then have "\<exists>sid ver ps. build sid ver ps = Inr s" by blast
    with built assms(1) show ?thesis by (simp add: embed_inv_def keeps_rest_def)
  qed
qed

lemma ensure_collections_points: "ds_points (snd (ensure_collections env config names st)) = ds_points st"
proof (induction env config names st rule: ensure_collections.induct)
  case (2 env config name names st)
  then show ?case by (auto simp: createCollection_def split: option.splits prod.splits sum.splits if_splits)
qed simp

lemma ensureNamespaceCollections_inv:
  assumes "embed_inv hash build w" and "ensureNamespaceCollections env ctx ns cfg w = (res, w')"
  shows "embed_inv hash build w' \<and> keeps_rest w w' \<and> ew_items w' = ew_items w \<and> ew_cat w' = ew_cat w"
proof -
  define d where "d = cfg_EmbeddingDim cfg mod 2 ^ 64"
  define distance where "distance = (if cfg_DenseDistance cfg = [] then ''cosine'' else cfg_DenseDistance cfg)"
  define inc where "inc = resolveIncarnation ctx ns cfg"
  obtain r st where st: "EnsureDenseCollections (ev_qdrant env) inc d distance (ew_dense w) = (r, st)" by fastforce
  then have "ds_points st = ds_points (ew_dense w)"
    using ensure_collections_points unfolding EnsureDenseCollections_def by (metis snd_conv)
  moreover have "w' = w \<or> w' = w\<lparr>ew_dense := st\<rparr> \<or> w' = w\<lparr>ew_dense := st, ew_ensured := ensure_key inc d distance # ew_ensured w\<rparr>"
    using assms(2) unfolding ensureNamespaceCollections_def Let_def d_def [symmetric] distance_def [symmetric] inc_def [symmetric] st
    by (cases r) (auto split: if_splits)
  ultimately have "ew_cat w' = ew_cat w" "ew_ids w' = ew_ids w" "ew_cache w' = ew_cache w"
    "ds_points (ew_dense w') = ds_points (ew_dense w)" by auto
  then show ?thesis using assms(1) embed_inv_cong [of w' w] by (simp add: keeps_rest_cong)
qed

lemma GetOrCreate_result:
  assumes "only_adds env" and "idmap_wf t" and "GetOrCreate env ctx sid ns entity t = (res, t')"
  shows "id_extends t t' \<and> (\<forall>n. res = Inr n \<longrightarrow> id_of t' ns entity sid = Some n \<and> is_ok (RequireNamespaceLease ctx ns))"
proof -
  obtain r where r: "GetOrCreateBatch env ctx [sid] ns entity t = (r, t')"
    using assms(3) by (auto simp: GetOrCreate_def split: prod.splits sum.splits option.splits)
  have "is_ok (RequireNamespaceLease ctx ns)" if "is_ok r"
    using r that by (cases "RequireNamespaceLease ctx ns") (auto simp: GetOrCreateBatch_def)
  moreover have "id_of t' ns entity sid = Some n" if "r = Inr m" "m sid = Some n" for m n
    using GetOrCreateBatch_result [OF assms(1,2), of ctx "[sid]" ns entity m t'] r that by blast
  ultimately show ?thesis
    using GetOrCreateBatch_extends [OF assms(1) r] r assms(3)
    by (auto simp: GetOrCreate_def split: sum.splits option.splits)
qed

text \<open>
  What the first part guarantees when it hands on: the item's row, if it is still there, is not an
  embedded one, the point id is the item's own, and the vector is the strategy's for the item.
\<close>

definition row_claimed :: "PendingItem \<Rightarrow> embed_world \<Rightarrow> bool" where
  "row_claimed item w \<longleftrightarrow> (\<forall>r. item_row (ew_items w) (pi_ID item) = Some r \<longrightarrow> ci_state r \<noteq> StateEmbedded)"

definition handed_on ::
  "(string \<Rightarrow> string \<Rightarrow> params \<Rightarrow> go_error + strategy) \<Rightarrow> lctx \<Rightarrow> PendingItem \<Rightarrow> embedding \<Rightarrow> embed_world \<Rightarrow> bool" where
  "handed_on build ctx item em w \<longleftrightarrow>
     id_of (ew_ids w) (pi_Namespace item) ''object'' (pi_ObjectID item) = Some (em_point em)
     \<and> is_ok (RequireNamespaceLease ctx (pi_Namespace item))
     \<and> (\<exists>sid ver ps. build sid ver ps = Inr (em_strategy em))
     \<and> (\<exists>c. st_Embed (em_strategy em) c (pi_Content item) = Inr (em_vector em))"

lemma embed_item_inv:
  assumes inv: "embed_inv hash build w" and env: "ev_build env = build" "only_adds (ev_ids env)"
    and run: "embed_item env ctx item cfg w = (res, w')"
  shows "embed_inv hash build w' \<and> keeps_rest w w'
    \<and> (\<forall>em. res = Inr em \<longrightarrow> handed_on build ctx item em w' \<and> ew_items w' = ew_items w)"
proof -
  obtain r1 w1 where one: "resolveStrategy env (pi_Namespace item) cfg w = (r1, w1)" by fastforce
  note i1 = resolveStrategy_inv [OF inv env(1) one]
  then have inv1: "embed_inv hash build w1" and "keeps_rest w w1" by blast+
  note k1 = keeps_rest_trans [OF \<open>keeps_rest w w1\<close>]
  show ?thesis
  proof (cases r1)
    case (Inl e)
    obtain o2 w2 where two: "deadLetterOutcome env ctx item (''strategy resolve: '' @ ev_error_text env e) w1 = (o2, w2)"
      by fastforce
    from run one Inl two have "w' = w2" "res = Inl o2" by (auto simp: embed_item_def)
    with deadLetterOutcome_inv [OF inv1 two] k1 show ?thesis by blast
  next
    case (Inr s)
    show ?thesis
    proof (cases "st_Embed s (ev_ctx env) (pi_Content item)")
      case (Inl e)
      obtain o2 w2 where two: "handleEmbedError env ctx item e w1 = (o2, w2)" by fastforce
      from run one Inr Inl two have "w' = w2" "res = Inl o2" by (auto simp: embed_item_def)
      with handleEmbedError_inv [OF inv1 two] k1 show ?thesis by blast
    next
      case vec: (Inr vec)
      show ?thesis
      proof (cases "int (length vec) = cfg_EmbeddingDim cfg")
        case False
        define reason where "reason = ''dim mismatch: produced='' @ show_nat (length vec)
                        @ '' expected='' @ show_int (cfg_EmbeddingDim cfg)"
        obtain o2 w2 where two: "deadLetterOutcome env ctx item reason w1 = (o2, w2)" by fastforce
        from run one Inr vec False two have "w' = w2" "res = Inl o2" by (auto simp: embed_item_def reason_def)
        with deadLetterOutcome_inv [OF inv1 two] k1 show ?thesis by blast
      next
        case True
        obtain r2 w2 where two: "ensureNamespaceCollections env ctx (pi_Namespace item) cfg w1 = (r2, w2)" by fastforce
        note i2 = ensureNamespaceCollections_inv [OF inv1 two]
        then have inv2: "embed_inv hash build w2" and "keeps_rest w w2" using k1 by blast+
        note k2 = keeps_rest_trans [OF \<open>keeps_rest w w2\<close>]
        from inv2 have wf2: "idmap_wf (ew_ids w2)" by (simp add: embed_inv_def)
        show ?thesis
        proof (cases r2)
          case (Inl e)
          then have "w' = markFailed env ctx item (''ensure dense collections: '' @ ev_error_text env e) w2"
            "res = Inl (OutcomeFailed, Some e)"
            using run one Inr vec True two by (auto simp: embed_item_def)
          with markFailed_inv [OF inv2] k2 show ?thesis by blast
        next
          case r2: (Inr u)
          obtain r3 ids where three: "GetOrCreateObjectID (ev_ids env) ctx (pi_ObjectID item) (pi_Namespace item) (ew_ids w2) = (r3, ids)"
            by fastforce
          note i3 = GetOrCreate_result [OF env(2) wf2 three [unfolded GetOrCreateObjectID_def]]
          then have inv3: "embed_inv hash build (w2\<lparr>ew_ids := ids\<rparr>)" using embed_inv_ids [OF inv2] by blast
          have rest: "keeps_rest w (w2\<lparr>ew_ids := ids\<rparr>)"
            by (rule k2, rule keeps_rest_cong(1)) simp
          show ?thesis
          proof (cases r3)
            case (Inl e)
            then have "w' = markFailed env ctx item (''idmap: '' @ ev_error_text env e) (w2\<lparr>ew_ids := ids\<rparr>)"
              "res = Inl (OutcomeFailed, Some e)"
              using run one Inr vec True two r2 three by (auto simp: embed_item_def)
            with markFailed_inv [OF inv3] keeps_rest_trans [OF rest] show ?thesis by blast
          next
            case r3: (Inr pid)
            then have w': "w' = w2\<lparr>ew_ids := ids\<rparr>"
              and res: "res = Inr \<lparr>em_cfg = cfg, em_strategy = s, em_vector = vec, em_point = pid\<rparr>"
              using run one Inr vec True two r2 three by (auto simp: embed_item_def)
            have "handed_on build ctx item \<lparr>em_cfg = cfg, em_strategy = s, em_vector = vec, em_point = pid\<rparr> w'"
              using i1 i3 Inr vec r3 w' by (auto simp: handed_on_def)
            with w' res inv3 rest i1 i2 show ?thesis by simp
          qed
        qed
      qed
    qed
  qed
qed

definition same_ids :: "catalog_table \<Rightarrow> catalog_table \<Rightarrow> bool" where
  "same_ids t t' \<longleftrightarrow> map (\<lambda>r. (ci_id r, item_key r)) (ct_rows t') = map (\<lambda>r. (ci_id r, item_key r)) (ct_rows t)"

lemma same_ids_update: "moves_row f \<Longrightarrow> same_ids t (update_items P f t)"
  by (simp add: same_ids_def update_items_def update_where_def moves_row_def item_key_def)

lemma same_ids_mem:
  assumes "same_ids t t'" and "x \<in> set (ct_rows t')"
  shows "\<exists>r \<in> set (ct_rows t). ci_id r = ci_id x \<and> item_key r = item_key x"
proof -
  have "(ci_id x, item_key x) \<in> set (map (\<lambda>r. (ci_id r, item_key r)) (ct_rows t))"
    using assms unfolding same_ids_def by (metis (mono_tags, lifting) image_eqI list.set_map)
  then show ?thesis by auto
qed

text \<open>With a well-formed table before, the row's identity still names the same row after.\<close>

lemma same_ids_row:
  assumes "same_ids t t'" and "catalog_wf t" and "r \<in> set (ct_rows t)" and "x \<in> set (ct_rows t')"
  shows "ci_id x = ci_id r \<longleftrightarrow> item_key x = item_key r"
proof -
  obtain y where y: "y \<in> set (ct_rows t)" "ci_id y = ci_id x" "item_key y = item_key x"
    using same_ids_mem [OF assms(1,4)] by blast
  have "inj_on ci_id (set (ct_rows t))" "inj_on item_key (set (ct_rows t))"
    using assms(2) by (simp_all add: catalog_wf_def keyed_def distinct_map)
  with y assms(3) show ?thesis by (metis inj_on_eq_iff)
qed

lemma prepare_item_inv:
  assumes inv: "embed_inv hash build w" and env: "ev_build env = build" "only_adds (ev_ids env)"
    and run: "prepare_item env ctx item w = (res, w')"
  shows "embed_inv hash build w' \<and> keeps_rest w w'
    \<and> (\<forall>em. res = Inr em \<longrightarrow> handed_on build ctx item em w' \<and> row_claimed item w' \<and> same_ids (ew_items w) (ew_items w'))"
proof -
  consider (early) o1 where "res = Inl o1" "w' = w"
    | (marked) cfg r t where "MarkInFlight (ev_in_flight env) (ev_now env) (pi_ID item) (ew_items w) = (r, t)"
        "(case r of
            Inl e \<Rightarrow> (Inl (if e = EmbedderError ErrItemNotFound then (OutcomeSkipped, None) else (OutcomeFailed, Some e)),
               with_items t w)
          | Inr attempt \<Rightarrow>
              let w1 = publishItemStateChanged env ctx item ''pending'' ''in_flight'' (with_items t w)
              in if attempt > max_attempts env cfg
                 then (case deadLetterOutcome env ctx item
                              (''attempt '' @ show_int attempt @ '' exceeds max '' @ show_int (max_attempts env cfg)) w1 of
                         (res, w2) \<Rightarrow> (Inl res, w2))
                 else embed_item env ctx item cfg w1) = (res, w')"
    using run unfolding prepare_item_def
    by (cases "ev_get env ctx (pi_Namespace item)") (auto split: option.splits if_splits prod.splits sum.splits)
  then show ?thesis
  proof cases
    case early
    with inv show ?thesis by simp
  next
    case (marked cfg r t)
    show ?thesis
    proof (cases r)
      case (Inl e)
      with marked(1) have "t = ew_items w" by (auto simp: MarkInFlight_def split: option.splits)
      with Inl marked(2) have "w' = with_items (ew_items w) w" "\<exists>o1. res = Inl o1" by auto
      moreover have "embed_inv hash build (with_items (ew_items w) w) = embed_inv hash build w"
        by (intro embed_inv_cong) simp_all
      ultimately show ?thesis using inv by (auto simp: keeps_rest_cong)
    next
      case (Inr attempt)
      let ?w1 = "publishItemStateChanged env ctx item ''pending'' ''in_flight'' (with_items t w)"
      let ?why = "''attempt '' @ show_int attempt @ '' exceeds max '' @ show_int (max_attempts env cfg)"
      from marked(1) Inr have t: "t = update_items (\<lambda>r. ci_id r = pi_ID item) (in_flight_row (ev_now env)) (ew_items w)"
        by (auto simp: MarkInFlight_def split: option.splits)
      have inv1: "embed_inv hash build ?w1"
        unfolding publish_inv t by (rule embed_inv_update [OF inv moves_rows(1)]) (simp add: in_flight_row_def)
      have k1: "keeps_rest ?w1 w'' \<Longrightarrow> keeps_rest w w''" for w'' by (simp add: keeps_rest_def)
      have claimed: "row_claimed item w''" if eq: "ew_items w'' = ew_items ?w1" for w''
        unfolding row_claimed_def
      proof (intro allI impI)
        fix r assume "item_row (ew_items w'') (pi_ID item) = Some r"
        then obtain z where z: "item_row (ew_items w) (pi_ID item) = Some z"
          "r = (if ci_id z = pi_ID item then in_flight_row (ev_now env) z else z)"
          using eq by (auto simp: t item_row_update [OF moves_rows(1)])
        have "r = in_flight_row (ev_now env) z" using z(2) lookup_row_key [OF z(1)] by simp
        then show "ci_state r \<noteq> StateEmbedded" by (simp add: in_flight_row_def)
      qed
      show ?thesis
      proof (cases "attempt > max_attempts env cfg")
        case True
        obtain o2 w2 where two: "deadLetterOutcome env ctx item ?why ?w1 = (o2, w2)" by fastforce
        with marked(2) Inr True have "res = Inl o2" "w' = w2" by (simp_all add: Let_def)
        with deadLetterOutcome_inv [OF inv1 two] k1 show ?thesis by blast
      next
        case False
        with marked(2) Inr have "embed_item env ctx item cfg ?w1 = (res, w')" by (simp add: Let_def)
        from embed_item_inv [OF inv1 env this] have
          "embed_inv hash build w' \<and> keeps_rest w w' \<and> (\<forall>em. res = Inr em \<longrightarrow> handed_on build ctx item em w' \<and> ew_items w' = t)"
          using k1 by simp
        moreover have "same_ids (ew_items w) t" unfolding t by (rule same_ids_update [OF moves_rows(1)])
        moreover have "row_claimed item w'" if "ew_items w' = t" using claimed that by simp
        ultimately show ?thesis by simp
      qed
    qed
  qed
qed

lemma resolveIncarnation_leased:
  assumes "leased ctx ns g" and "is_ok (RequireNamespaceLease ctx ns)"
  shows "resolveIncarnation ctx ns cfg = NewIncarnation ns g"
  using assms by (auto simp: resolveIncarnation_def LeaseIncarnation_def LeaseGeneration_def leased_def
      RequireNamespaceLease_def NewIncarnation_def split: if_splits)

lemma point_upsert_cases:
  assumes "point_upsert env coll pid p st = (res, st')"
  shows "(\<exists>e. res = Inl e) \<and> st' = st \<or> res = Inr () \<and> ds_points st' = (ds_points st)((coll, pid) \<mapsto> p)"
  using assms by (auto simp: point_upsert_def split: option.splits collection_config.splits if_splits)

lemma commit_item_inv:
  assumes inv: "embed_inv hash build w" and ho: "handed_on build ctx item em w" and claimed: "row_claimed item w"
    and lease: "leased ctx (pi_Namespace item) g" "phase (ew_ledger w) (pi_Namespace item) = ActiveAt g"
    and item: "\<And>r. item_row (ew_items w) (pi_ID item) = Some r \<Longrightarrow>
      ci_namespace r = pi_Namespace item \<and> ci_object_id r = pi_ObjectID item"
      "\<And>r. item_of (ew_items w) (pi_Namespace item) (pi_ObjectID item) = Some r \<Longrightarrow> ci_id r = pi_ID item"
      "pi_ContentHash item = hash (pi_Content item)"
    and run: "commit_item env ctx item em w = (res, w')"
  shows "embed_inv hash build w' \<and> keeps_rest w w'"
proof -
  let ?ns = "pi_Namespace item" and ?oid = "pi_ObjectID item"
  have inc: "resolveIncarnation ctx ?ns (em_cfg em) = NewIncarnation ?ns g"
    using resolveIncarnation_leased [OF lease(1)] ho by (simp add: handed_on_def)
  let ?coll = "CollectionName (NewIncarnation ?ns g) CollectionObjectsDense"
  let ?p = "item_point env item (em_strategy em) (ev_clock env) (em_vector em)"
  obtain r1 st where up: "point_upsert (ev_qdrant env) ?coll (em_point em) ?p (ew_dense w) = (r1, st)" by fastforce
  let ?w1 = "w\<lparr>ew_dense := st\<rparr>"
  have wf: "catalog_wf (ew_items w)" "idmap_wf (ew_ids w)" using inv by (simp_all add: embed_inv_def)
  have not_emb: "(ci_namespace r, ci_object_id r) \<noteq> (?ns, ?oid)"
    if "r \<in> set (ct_rows (ew_items w))" and "ci_state r = StateEmbedded" for r
  proof
    assume eq: "(ci_namespace r, ci_object_id r) = (?ns, ?oid)"
    have "lookup_row item_key (ct_rows (ew_items w)) (item_key r) = Some r"
      using wf(1) that(1) by (intro lookup_row_mem) (simp_all add: catalog_wf_def)
    then have "ci_id r = pi_ID item" using item(2) eq by (simp add: item_key_def)
    moreover have "lookup_row ci_id (ct_rows (ew_items w)) (ci_id r) = Some r"
      using wf(1) that(1) by (intro lookup_row_mem) (simp_all add: catalog_wf_def)
    ultimately show False using claimed that(2) by (simp add: row_claimed_def)
  qed
  have inv1: "embed_inv hash build ?w1"
  proof (cases "ds_points st = ds_points (ew_dense w)")
    case True
    then have "embed_inv hash build ?w1 = embed_inv hash build w" by (intro embed_inv_cong) simp_all
    with inv show ?thesis by simp
  next
    case False
    with point_upsert_cases [OF up] have pts: "ds_points st = (ds_points (ew_dense w))((?coll, em_point em) \<mapsto> ?p)" by auto
    have idp: "id_of (ew_ids w) ?ns ''object'' ?oid = Some (em_point em)" using ho by (simp add: handed_on_def)
    have "item_ok hash build (ew_ledger w) (ew_ids w) (ds_points st) r"
      if "r \<in> set (ct_rows (ew_items w))" for r
      unfolding pts
    proof (rule item_ok_point [OF wf(2) idp])
      show "item_ok hash build (ew_ledger w) (ew_ids w) (ds_points (ew_dense w)) r"
        using inv that by (simp add: embed_inv_def list_all_iff)
    qed (rule not_emb [OF that])
    then show ?thesis using inv by (simp add: embed_inv_def list_all_iff)
  qed
  show ?thesis
  proof (cases r1)
    case (Inl e)
    let ?w2 = "invalidateEnsured ?ns ?w1"
    have inv2: "embed_inv hash build ?w2"
      using inv1 embed_inv_cong [of ?w2 ?w1] by simp
    have k2: "keeps_rest w ?w2" by (simp add: keeps_rest_def)
    from run Inl have w': "w' = markFailed env ctx item (''qdrant: '' @ ev_error_text env e) ?w2"
      by (simp add: commit_item_def upsertVector_def inc up Let_def)
    show ?thesis unfolding w' using markFailed_inv [OF inv2] keeps_rest_trans [OF k2] by blast
  next
    case (Inr u)
    let ?s = "em_strategy em"
    obtain r2 t where mark: "MarkEmbedded (ev_mark_embedded env) (ev_now env) (pi_ID item) (st_ID ?s) (st_Version ?s)
        (ev_clock env) (pi_ContentHash item) (ew_items ?w1) = (r2, t)" by fastforce
    have pts: "ds_points st (?coll, em_point em) = Some ?p" using point_upsert_cases [OF up] Inr by auto
    have "embed_inv hash build (with_items t ?w1)"
    proof (rule exec_update_inv [OF inv1 moves_rows(2) _ mark [unfolded MarkEmbedded_def]])
      fix r assume r: "r \<in> set (ct_rows (ew_items ?w1))" "ci_id r = pi_ID item \<and> ci_content_hash r = pi_ContentHash item"
      have "lookup_row ci_id (ct_rows (ew_items w)) (ci_id r) = Some r"
        using wf(1) r(1) by (intro lookup_row_mem) (simp_all add: catalog_wf_def)
      then have key: "ci_namespace r = ?ns" "ci_object_id r = ?oid" using item(1) r(2) by simp_all
      have "id_of (ew_ids w) ?ns ''object'' ?oid = Some (em_point em)" "\<exists>sid ver ps. build sid ver ps = Inr ?s"
        "\<exists>c. st_Embed ?s c (pi_Content item) = Inr (em_vector em)" using ho by (simp_all add: handed_on_def)
      with key lease(2) pts r(2) item(3)
      show "has_vector hash build (ew_ledger ?w1) (ew_ids ?w1) (ds_points (ew_dense ?w1))
          (embedded_row (ev_now env) (st_ID ?s) (st_Version ?s) (ev_clock env) r)"
        unfolding has_vector_def
        by (intro exI [of _ g] exI [of _ "em_point em"] exI [of _ ?p] exI [of _ ?s])
          (auto simp: embedded_row_def item_point_def)
    qed
    moreover have "w' = with_items t ?w1 \<or> w' = publishItemStateChanged env ctx item ''in_flight'' ''embedded'' (with_items t ?w1)"
      using run Inr mark by (auto simp: commit_item_def upsertVector_def inc up Let_def split: sum.splits)
    ultimately show ?thesis by (auto simp: keeps_rest_def)
  qed
qed

lemma processLoadedItem_inv:
  assumes inv: "embed_inv hash build w" and env: "ev_build env = build" "only_adds (ev_ids env)"
    and r: "item_row (ew_items w) i = Some r"
    and lease: "leased ctx (ci_namespace r) g" "phase (ew_ledger w) (ci_namespace r) = ActiveAt g"
    and run: "processLoadedItem env ctx (pending_item r) w = (res, w')"
  shows "embed_inv hash build w' \<and> keeps_rest w w'"
proof -
  obtain r1 w1 where one: "prepare_item env ctx (pending_item r) w = (r1, w1)" by fastforce
  note i1 = prepare_item_inv [OF inv env one]
  show ?thesis
  proof (cases r1)
    case (Inl o1)
    with run one i1 show ?thesis by (simp add: processLoadedItem_def)
  next
    case (Inr em)
    then have run2: "commit_item env ctx (pending_item r) em w1 = (res, w')"
      using run one by (simp add: processLoadedItem_def)
    have wf: "catalog_wf (ew_items w)" using inv by (simp add: embed_inv_def)
    have ids: "same_ids (ew_items w) (ew_items w1)" using i1 Inr by blast
    have r: "r \<in> set (ct_rows (ew_items w))" using lookup_row_SomeD [OF r] by blast
    note row = same_ids_row [OF ids wf r]
    have k1: "keeps_rest w w1" using i1 by blast
    have "embed_inv hash build w' \<and> keeps_rest w1 w'"
    proof (rule commit_item_inv [OF _ _ _ _ _ _ _ _ run2])
      show "leased ctx (pi_Namespace (pending_item r)) g" using lease(1) by (simp add: pending_item_def)
      show "phase (ew_ledger w1) (pi_Namespace (pending_item r)) = ActiveAt g"
        using lease(2) k1 by (simp add: pending_item_def keeps_rest_def)
      show "pi_ContentHash (pending_item r) = hash (pi_Content (pending_item r))"
        using inv r by (auto simp: embed_inv_def item_ok_def list_all_iff pending_item_def)
      show "ci_namespace x = pi_Namespace (pending_item r) \<and> ci_object_id x = pi_ObjectID (pending_item r)"
        if "item_row (ew_items w1) (pi_ID (pending_item r)) = Some x" for x
        using row [of x] lookup_row_SomeD [OF that] by (simp add: pending_item_def item_key_def)
      show "ci_id x = pi_ID (pending_item r)"
        if "item_of (ew_items w1) (pi_Namespace (pending_item r)) (pi_ObjectID (pending_item r)) = Some x" for x
        using row [of x] lookup_row_SomeD [OF that] by (simp add: pending_item_def item_key_def)
    qed (use i1 Inr in blast)+
    then show ?thesis using keeps_rest_trans [OF k1] by blast
  qed
qed

lemma ProcessItem_inv:
  assumes inv: "embed_inv hash build w" and env: "ev_build env = build" "only_adds (ev_ids env)" "ev_lifecycle env \<noteq> None"
    and ctx: "ctx_lease ctx = None" and run: "ProcessItem env ctx i w = (res, w')"
  shows "embed_inv hash build w' \<and> keeps_rest w w'"
proof (cases "LoadByID (ev_load env) i (ew_items w)")
  case (Inl e)
  with run inv show ?thesis by (auto simp: ProcessItem_def split: if_splits)
next
  case (Inr item)
  then obtain r where r: "item_row (ew_items w) i = Some r" and item: "item = pending_item r"
    by (auto simp: LoadByID_def split: option.splits)
  obtain svc where svc: "ev_lifecycle env = Some svc" using env(3) by blast
  let ?fn = "\<lambda>leased (lc :: NamespaceLifecycle) (p :: ProcessOutcome \<times> embed_world).
     case p of (_, w) \<Rightarrow> (case processLoadedItem env leased item w of
       ((out, err), w1) \<Rightarrow> (case err of None \<Rightarrow> Inr () | Some e \<Rightarrow> Inl e, (out, w1)))"
  let ?led = "\<lambda>(_ :: ProcessOutcome, w). ew_ledger w"
  let ?ns = "pi_Namespace item"
  obtain rr p where ww: "fst (WithWriter svc ?led ctx ?ns ?fn (OutcomeEmbedded, w)) = (rr, p)" by (rule prod.exhaust)
  have w': "w' = snd p" using run Inr svc ww by (auto simp: ProcessItem_def split: prod.splits sum.splits)
  from fence.runs_or_blocks [of svc ?led ctx ?ns ?fn "(OutcomeEmbedded, w)"] ww ctx
  consider (blocked) "p = (OutcomeEmbedded, w)"
    | (runs) ctx' lc where "?fn ctx' lc (OutcomeEmbedded, w) = (rr, p)" "leased ctx' ?ns (lc_Generation lc)"
        "phase (ew_ledger w) ?ns = ActiveAt (lc_Generation lc)"
    by (auto simp: leased_def)
  then show ?thesis
  proof cases
    case blocked
    with w' inv show ?thesis by simp
  next
    case (runs ctx' lc)
    obtain o1 w1 where one: "processLoadedItem env ctx' item w = (o1, w1)" by fastforce
    with runs(1) w' have "w' = w1" by (cases o1) auto
    with processLoadedItem_inv [OF inv env(1,2) r, of ctx' "lc_Generation lc" o1 w1] one runs(2,3) item show ?thesis
      by (simp add: pending_item_def)
  qed
qed

section \<open>The worker as a gated worker\<close>

text \<open>Processing touches neither the ledger nor the streams nor the acknowledgements, invariant or not.\<close>

lemma deadLetterOutcome_rest: "keeps_rest w (snd (deadLetterOutcome env ctx item reason w))"
  by (simp add: deadLetterOutcome_def keeps_rest_cong split: prod.split sum.split)

lemma markFailed_rest: "keeps_rest w (markFailed env ctx item reason w)"
  by (simp add: markFailed_def keeps_rest_cong split: prod.split sum.split)

lemma handleEmbedError_rest: "keeps_rest w (snd (handleEmbedError env ctx item e w))"
  by (simp add: handleEmbedError_def deadLetterOutcome_rest markFailed_rest)

lemma resolveStrategy_rest: "keeps_rest w (snd (resolveStrategy env ns cfg w))"
  by (simp add: resolveStrategy_def keeps_rest_cong split: prod.split sum.split option.split)

lemma ensureNamespaceCollections_rest: "keeps_rest w (snd (ensureNamespaceCollections env ctx ns cfg w))"
  unfolding ensureNamespaceCollections_def Let_def
  by (simp add: keeps_rest_cong split: prod.split sum.split)

lemma embed_item_rest: "keeps_rest w (snd (embed_item env ctx item cfg w))"
proof -
  obtain r1 w1 where one: "resolveStrategy env (pi_Namespace item) cfg w = (r1, w1)" by fastforce
  have k1: "keeps_rest w w1" using resolveStrategy_rest [of w env "pi_Namespace item" cfg] one by simp
  obtain r2 w2 where two: "ensureNamespaceCollections env ctx (pi_Namespace item) cfg w1 = (r2, w2)" by fastforce
  have k2: "keeps_rest w w2"
    using keeps_rest_trans [OF k1] ensureNamespaceCollections_rest [of w1 env ctx "pi_Namespace item" cfg] two by simp
  have k3: "keeps_rest w (w2\<lparr>ew_ids := ids\<rparr>)" for ids by (rule keeps_rest_trans [OF k2], rule keeps_rest_cong(1)) simp
  show ?thesis
    unfolding embed_item_def one prod.case two
    using keeps_rest_trans [OF k1 deadLetterOutcome_rest] keeps_rest_trans [OF k1 handleEmbedError_rest]
      keeps_rest_trans [OF k2 markFailed_rest] keeps_rest_trans [OF k3 markFailed_rest] k3
    by (auto split: sum.split prod.split) (metis snd_conv)+
qed

lemma prepare_item_rest: "keeps_rest w (snd (prepare_item env ctx item w))"
proof -
  have k: "keeps_rest w (publishItemStateChanged env ctx item f s (with_items t w))" for f s t by (simp add: keeps_rest_cong)
  show ?thesis
    unfolding prepare_item_def Let_def
    using keeps_rest_trans [OF k deadLetterOutcome_rest] keeps_rest_trans [OF k embed_item_rest]
    by (auto simp: keeps_rest_cong split: sum.split option.split prod.split) (metis snd_conv)+
qed

lemma commit_item_rest: "keeps_rest w (snd (commit_item env ctx item em w))"
proof -
  obtain r st where up: "upsertVector env item (resolveIncarnation ctx (pi_Namespace item) (em_cfg em)) (em_point em)
      (em_vector em) (em_strategy em) (ev_clock env) w = (r, w\<lparr>ew_dense := st\<rparr>)"
    unfolding upsertVector_def by (metis (no_types, lifting) prod.case prod.exhaust)
  have k: "keeps_rest w (invalidateEnsured (pi_Namespace item) (w\<lparr>ew_dense := st\<rparr>))" by (rule keeps_rest_cong(1)) simp
  have k2: "keeps_rest w (with_items t (w\<lparr>ew_dense := st\<rparr>))" for t by (simp add: keeps_rest_def)
  show ?thesis
    unfolding commit_item_def Let_def up prod.case
    using keeps_rest_trans [OF k markFailed_rest] k2
    by (auto simp: keeps_rest_cong split: sum.split prod.split)
qed

lemma processLoadedItem_rest: "keeps_rest w (snd (processLoadedItem env ctx item w))"
proof -
  obtain r w1 where "prepare_item env ctx item w = (r, w1)" by fastforce
  moreover from this have "keeps_rest w w1" using prepare_item_rest [of w env ctx item] by simp
  ultimately show ?thesis using keeps_rest_trans [OF _ commit_item_rest] by (auto simp: processLoadedItem_def split: sum.split)
qed

lemma ProcessItem_rest: "keeps_rest w (snd (ProcessItem env ctx i w))"
proof -
  have fenced: "keeps_rest w (snd (snd (fst (WithWriter svc led ctx ns fn (o1, w)))))"
    if "\<And>ctx' lc. keeps_rest w (snd (snd (fn ctx' lc (o1, w))))"
    for svc led ns o1 and fn :: "lctx \<Rightarrow> NamespaceLifecycle \<Rightarrow> ProcessOutcome \<times> embed_world
         \<Rightarrow> (go_error + unit) \<times> ProcessOutcome \<times> embed_world"
    by (rule fence.keeps [where I = "\<lambda>p. keeps_rest w (snd p)"]) (simp_all add: that)
  show ?thesis
  proof (cases "LoadByID (ev_load env) i (ew_items w)")
    case (Inr item)
    show ?thesis
    proof (cases "ev_lifecycle env")
      case (Some svc)
      let ?fn = "\<lambda>leased (lc :: NamespaceLifecycle) (p :: ProcessOutcome \<times> embed_world).
         case p of (_, w) \<Rightarrow> (case processLoadedItem env leased item w of
           ((out, err), w1) \<Rightarrow> (case err of None \<Rightarrow> Inr () | Some e \<Rightarrow> Inl e, (out, w1)))"
      have "keeps_rest w (snd (snd (fst (WithWriter svc (\<lambda>(_, w). ew_ledger w) ctx (pi_Namespace item) ?fn (OutcomeEmbedded, w)))))"
        by (rule fenced) (use processLoadedItem_rest in \<open>auto split: prod.split\<close>, metis snd_conv)
      with Inr Some show ?thesis by (auto simp: ProcessItem_def split: prod.splits sum.splits)
    qed (simp add: ProcessItem_def Inr processLoadedItem_rest)
  qed (simp add: ProcessItem_def)
qed

text \<open>The verdict on the entry and its processing; a result is settled when the outcome asks for it.\<close>

definition embed_verdict :: "embed_env \<Rightarrow> namespace \<Rightarrow> StreamEntry \<Rightarrow> embed_world \<Rightarrow> go_error + EnvelopeDisposition" where
  "embed_verdict env ns entry w =
     (if ev_lifecycle env = None then Inr EnvelopeProcess
      else EvaluateEnvelope (ev_envelope env) (ew_ledger w) ns (se_NamespaceGeneration entry))"

definition embed_process :: "embed_env \<Rightarrow> lctx \<Rightarrow> StreamEntry \<Rightarrow> embed_world \<Rightarrow> (go_error + ProcessOutcome) \<times> embed_world" where
  "embed_process env ctx entry w =
     (case ProcessItem env ctx (se_CatalogItemID entry) w of
        ((out, err), w1) \<Rightarrow> (if ShouldAck out then Inr out else Inl (Failure ''unsettled''), w1))"

interpretation embeds: gated_worker "embed_handleMessage env parse_time ctx ns" "\<lambda>w. cw_acked (ew_cat w)"
  "embed_ack (ev_ack env)" "DecodeStreamEntry parse_time" "embed_verdict env ns" "embed_process env ctx" "\<lambda>_. False"
  for env parse_time ctx ns
proof
  fix m p w r w1
  assume "DecodeStreamEntry parse_time m = Inr p" "embed_verdict env ns p w = Inr EnvelopeProcess"
    "embed_process env ctx p w = (r, w1)"
  then show "embed_handleMessage env parse_time ctx ns m w
    = (if settled (\<lambda>_. False) r then embed_ack (ev_ack env) (xm_ID m) w1 else w1)"
    unfolding embed_handleMessage_def embed_verdict_def [symmetric]
    by (auto simp: embed_process_def split: prod.splits if_splits)
next
  fix p w
  show "cw_acked (ew_cat (snd (embed_process env ctx p w))) = cw_acked (ew_cat w)"
    using ProcessItem_rest [of w env ctx "se_CatalogItemID p"]
    by (auto simp: embed_process_def keeps_rest_def split: prod.splits)
qed (simp_all add: embed_handleMessage_def embed_verdict_def)

lemma embed_ack_inv [simp]: "embed_inv hash build (embed_ack f i w) = embed_inv hash build w"
  by (rule embed_inv_cong) (simp_all add: embed_ack_def)

lemma embed_handleMessage_inv:
  assumes inv: "embed_inv hash build w" and env: "ev_build env = build" "only_adds (ev_ids env)" "ev_lifecycle env \<noteq> None"
    and ctx: "ctx_lease ctx = None"
  shows "embed_inv hash build (embed_handleMessage env parse_time ctx ns m w)"
proof -
  have "embed_inv hash build (snd (ProcessItem env ctx i w))" for i
    using ProcessItem_inv [OF inv env ctx] by (metis prod.collapse)
  then show ?thesis
    using inv by (auto simp: embed_handleMessage_def split: sum.split EnvelopeDisposition.split prod.split) (metis snd_conv)+
qed

section \<open>Ingests between deliveries\<close>

lemma row_written_mem:
  assumes "row_written env ns r c c'" and "catalog_wf (cw_items c)" and "x \<in> set (ct_rows (cw_items c'))"
  shows "x = ingested_row env ns r (cw_items c) \<or> x \<in> set (ct_rows (cw_items c))"
proof -
  have "catalog_wf (cw_items c')" using assms by (simp add: row_written_def)
  then have "lookup_row item_key (ct_rows (cw_items c')) (item_key x) = Some x"
    using assms(3) by (intro lookup_row_mem) (simp_all add: catalog_wf_def)
  then have look: "item_of (cw_items c') (ci_namespace x) (ci_object_id x) = Some x" by (simp add: item_key_def)
  show ?thesis
  proof (cases "(ci_namespace x, ci_object_id x) = (ns, ir_ObjectID r)")
    case True
    with look assms(1) show ?thesis by (simp add: row_written_def)
  next
    case False
    with look assms(1) have "item_of (cw_items c) (ci_namespace x) (ci_object_id x) = Some x" by (simp add: row_written_def)
    then show ?thesis using lookup_row_SomeD by metis
  qed
qed

lemma has_vector_cong:
  assumes "ci_namespace r' = ci_namespace r" and "ci_object_id r' = ci_object_id r" and "ci_content_hash r' = ci_content_hash r"
    and "ci_strategy_id r' = ci_strategy_id r" and "ci_strategy_version r' = ci_strategy_version r"
  shows "has_vector hash build L ids points r' = has_vector hash build L ids points r"
  unfolding has_vector_def assms ..

lemma ingested_row_ok:
  assumes "list_all (item_ok (ce_hash env) build L ids points) (ct_rows t)"
  shows "item_ok (ce_hash env) build L ids points (ingested_row env ns r t)"
proof (cases "item_of t ns (ir_ObjectID r)")
  case None
  then show ?thesis by (simp add: ingested_row_def item_ok_def fresh_row_def)
next
  case (Some x)
  then have "x \<in> set (ct_rows t)" using lookup_row_SomeD by metis
  with assms have "item_ok (ce_hash env) build L ids points x" by (simp add: list_all_iff)
  moreover have "has_vector (ce_hash env) build L ids points (ingested_row env ns r t) = has_vector (ce_hash env) build L ids points x"
    if "ci_content_hash x = ce_hash env (ir_Content r)"
    using that Some by (intro has_vector_cong) (simp_all add: ingested_row_def conflict_row_def Let_def)
  moreover have "ci_content_hash (ingested_row env ns r t) = ce_hash env (ci_content (ingested_row env ns r t))"
    "ci_state (ingested_row env ns r t) = StateEmbedded \<Longrightarrow> ci_content_hash x = ce_hash env (ir_Content r) \<and> ci_state x = StateEmbedded"
    using Some by (simp_all add: ingested_row_def conflict_row_def Let_def split: if_splits)
  ultimately show ?thesis unfolding item_ok_def by blast
qed

lemma Ingest_inv:
  assumes inv: "embed_inv (ce_hash env) build w" and run: "Ingest env ctx ns req (ew_cat w) = (res, c)"
  shows "embed_inv (ce_hash env) build (w\<lparr>ew_cat := c\<rparr>)"
proof -
  let ?ok = "item_ok (ce_hash env) build (ew_ledger w) (ew_ids w) (ds_points (ew_dense w))"
  have wf: "catalog_wf (ew_items w)" and ok: "list_all ?ok (ct_rows (ew_items w))" using inv by (simp_all add: embed_inv_def)
  have wf': "catalog_wf (cw_items c)" by (rule Ingest_wf [OF wf run])
  have written: "list_all ?ok (ct_rows (cw_items c))" if "row_written env ns r (ew_cat w) c" for r
    using row_written_mem [OF that wf] ingested_row_ok [OF ok] ok by (auto simp: list_all_iff)
  from run have "list_all ?ok (ct_rows (cw_items c)) \<and> cw_ledger c = ew_ledger w"
    by (cases rule: Ingest_cases) (use ok written in \<open>auto simp: same_data_def row_written_def\<close>)
  with inv wf' show ?thesis by (simp add: embed_inv_def)
qed

section \<open>Runs\<close>

text \<open>
  The steps between which the system rests: a catalog ingest, a delivery to an embedder, the
  sweeper's reset of rows left in flight, identities minted elsewhere, a restart of the process.
  Any of them may meet any failure.
\<close>

inductive embed_step ::
  "(string \<Rightarrow> string) \<Rightarrow> (string \<Rightarrow> string \<Rightarrow> params \<Rightarrow> go_error + strategy) \<Rightarrow> embed_world \<Rightarrow> embed_world \<Rightarrow> bool"
  for hash build where
  ingest: "ce_hash env = hash \<Longrightarrow> Ingest env ctx ns req (ew_cat w) = (res, c) \<Longrightarrow> embed_step hash build w (w\<lparr>ew_cat := c\<rparr>)"
| deliver: "ev_build env = build \<Longrightarrow> only_adds (ev_ids env) \<Longrightarrow> ev_lifecycle env \<noteq> None \<Longrightarrow> ctx_lease ctx = None \<Longrightarrow>
    embed_step hash build w (embed_handleMessage env parse_time ctx ns m w)"
| reset: "ResetStrandedInFlight fault now ns cutoff limit (ew_items w) = (res, t) \<Longrightarrow> embed_step hash build w (with_items t w)"
| mint: "id_extends (ew_ids w) ids \<Longrightarrow> embed_step hash build w (w\<lparr>ew_ids := ids\<rparr>)"
| restart: "embed_step hash build w (w\<lparr>ew_cache := Map.empty, ew_ensured := []\<rparr>)"

lemma embed_step_inv: "embed_step hash build w w' \<Longrightarrow> embed_inv hash build w \<Longrightarrow> embed_inv hash build w'"
proof (induction rule: embed_step.induct)
  case (ingest env ctx ns req w res c)
  then show ?case using Ingest_inv [of env build w ctx ns req res c] by simp
next
  case (deliver env ctx w parse_time ns m)
  then show ?case by (intro embed_handleMessage_inv)
next
  case (reset fault now ns cutoff limit w res t)
  show ?case
  proof (cases fault)
    case None
    define P where "P = (\<lambda>r :: catalog_row. ci_id r \<in> set (map ci_id (stranded_rows StateInFlight ns cutoff limit (ew_items w))))"
    from None reset(1) have t: "t = update_items P (\<lambda>r. r\<lparr>ci_state := StatePending, ci_updated_at := now\<rparr>) (ew_items w)"
      by (auto simp: ResetStrandedInFlight_def Let_def P_def)
    show ?thesis unfolding t by (rule embed_inv_update [OF reset(2) moves_rows(4)]) simp
  next
    case (Some e)
    then have "t = ew_items w" using reset(1) by (simp add: ResetStrandedInFlight_def)
    then have "embed_inv hash build (with_items t w) = embed_inv hash build w" by (intro embed_inv_cong) simp_all
    with reset(2) show ?thesis by simp
  qed
next
  case (mint w ids)
  then show ?case by (intro embed_inv_ids)
next
  case (restart w)
  then show ?case by (simp add: embed_inv_def)
qed

text \<open>A start: no rows and nothing in memory.\<close>

definition embed_start :: "embed_world \<Rightarrow> bool" where
  "embed_start w \<longleftrightarrow> ct_rows (ew_items w) = [] \<and> 1 \<le> ct_seq (ew_items w) \<and> idmap_wf (ew_ids w) \<and> ew_cache w = Map.empty"

lemma embed_start_inv: "embed_start w \<Longrightarrow> embed_inv hash build w"
  by (simp add: embed_start_def embed_inv_def catalog_wf_def keyed_def)

lemma embed_run_inv: "(embed_step hash build)\<^sup>*\<^sup>* w w' \<Longrightarrow> embed_inv hash build w \<Longrightarrow> embed_inv hash build w'"
  by (induction rule: rtranclp_induct) (auto intro: embed_step_inv)

end
