(* ===== verification/Batch_Runs.thy ===== *)
theory Batch_Runs
  imports Core_Types Sql_Table
begin

text \<open>
  The log of batch runs: the table \<^verbatim>\<open>batch_run_logs\<close> with the statements that
  \<^verbatim>\<open>internal/compute/repository.go\<close>, \<^verbatim>\<open>internal/admin/repository.go\<close>,
  \<^verbatim>\<open>internal/admin/catalog_ops_repository.go\<close>, \<^verbatim>\<open>internal/embedder/reembed_watcher.go\<close> and
  \<^verbatim>\<open>internal/retention\<close> issue on it, the views of \<^verbatim>\<open>internal/admin/batchrun_convert.go\<close>, and the
  pruning job.
\<close>

section \<open>Rows\<close>

definition TriggerCron :: string where "TriggerCron = ''cron''"
definition TriggerManual :: string where "TriggerManual = ''manual''"
definition TriggerReembed :: string where "TriggerReembed = ''admin_reembed''"

definition OperatorCancelledMessage :: string where "OperatorCancelledMessage = ''operator_cancelled''"
definition OrphanedRunMessage :: string where "OrphanedRunMessage = ''orphaned by process restart''"

lemma triggers_differ [simp]:
  "TriggerReembed \<noteq> TriggerCron" "TriggerReembed \<noteq> TriggerManual" "TriggerCron \<noteq> TriggerReembed" "TriggerManual \<noteq> TriggerReembed"
  by (simp_all add: TriggerCron_def TriggerManual_def TriggerReembed_def)

record PhaseResult =
  pr_OK :: bool
  pr_DurationMs :: int
  pr_Count1 :: int
  pr_Count2 :: int
  pr_Error :: string

record PhaseResults =
  ps_Phase1 :: "PhaseResult option"
  ps_Phase2 :: "PhaseResult option"
  ps_Phase3 :: "PhaseResult option"

record LogEntry =
  le_Ts :: string
  le_Level :: string
  le_Msg :: string

text \<open>The columns of one phase; the third phase has a single count.\<close>

record phase_columns =
  pc_ok :: "bool option"
  pc_duration_ms :: "int option"
  pc_count1 :: "int option"
  pc_count2 :: "int option"
  pc_error :: "string option"

definition no_phase :: phase_columns where
  "no_phase = \<lparr>pc_ok = None, pc_duration_ms = None, pc_count1 = None, pc_count2 = None, pc_error = None\<rparr>"

record BatchRunLog =
  br_ID :: int
  br_Namespace :: namespace
  br_StartedAt :: time
  br_CompletedAt :: "time option"
  br_DurationMs :: "int option"
  br_EntitiesProcessed :: int
  br_Success :: bool
  br_ErrorMessage :: "string option"
  br_TriggerSource :: string
  br_CancelRequested :: bool
  br_LogLines :: "LogEntry list"
  br_Phase1 :: phase_columns
  br_Phase2 :: phase_columns
  br_Phase3 :: phase_columns
  br_TargetStrategyID :: "string option"
  br_TargetStrategyVersion :: "string option"

record run_table =
  rt_rows :: "BatchRunLog list"
  rt_seq :: int

definition update_runs :: "(BatchRunLog \<Rightarrow> bool) \<Rightarrow> (BatchRunLog \<Rightarrow> BatchRunLog) \<Rightarrow> run_table \<Rightarrow> run_table" where
  "update_runs P f t = t\<lparr>rt_rows := update_where P f (rt_rows t)\<rparr>"

definition fresh_run :: "int \<Rightarrow> namespace \<Rightarrow> time \<Rightarrow> string \<Rightarrow> string option \<Rightarrow> string option \<Rightarrow> BatchRunLog" where
  "fresh_run i ns startedAt trigger sid sver =
     \<lparr>br_ID = i, br_Namespace = ns, br_StartedAt = startedAt, br_CompletedAt = None, br_DurationMs = None,
      br_EntitiesProcessed = 0, br_Success = False, br_ErrorMessage = None, br_TriggerSource = trigger,
      br_CancelRequested = False, br_LogLines = [], br_Phase1 = no_phase, br_Phase2 = no_phase, br_Phase3 = no_phase,
      br_TargetStrategyID = sid, br_TargetStrategyVersion = sver\<rparr>"

section \<open>Statements of the compute job\<close>

definition InsertBatchRunLog ::
  "go_error option \<Rightarrow> namespace \<Rightarrow> time \<Rightarrow> string \<Rightarrow> run_table \<Rightarrow> (go_error + int) \<times> run_table" where
  "InsertBatchRunLog fault ns startedAt trigger t =
     (case fault of
        Some e \<Rightarrow> (Inl e, t)
      | None \<Rightarrow> (Inr (rt_seq t),
                 t\<lparr>rt_rows := rt_rows t @ [fresh_run (rt_seq t) ns startedAt trigger None None], rt_seq := rt_seq t + 1\<rparr>))"

definition UpdateBatchRunLog ::
  "go_error option \<Rightarrow> int \<Rightarrow> time \<Rightarrow> int \<Rightarrow> int \<Rightarrow> bool \<Rightarrow> string \<Rightarrow> LogEntry list \<Rightarrow> run_table
   \<Rightarrow> go_error option \<times> run_table" where
  "UpdateBatchRunLog fault i completedAt durationMs subjects success errMsg logLines t =
     (case fault of
        Some e \<Rightarrow> (Some e, t)
      | None \<Rightarrow> (None, update_runs (\<lambda>r. br_ID r = i)
          (\<lambda>r. r\<lparr>br_CompletedAt := Some completedAt, br_DurationMs := Some durationMs, br_EntitiesProcessed := subjects,
                 br_Success := success, br_ErrorMessage := (if errMsg = [] then None else Some errMsg),
                 br_LogLines := logLines\<rparr>) t))"

text \<open>The columns written for a phase that ran, and for one that did not.\<close>

definition phase_written :: "PhaseResult option \<Rightarrow> phase_columns" where
  "phase_written p =
     (case p of
        None \<Rightarrow> no_phase
      | Some p \<Rightarrow> \<lparr>pc_ok = Some (pr_OK p), pc_duration_ms = Some (pr_DurationMs p), pc_count1 = Some (pr_Count1 p),
                   pc_count2 = Some (pr_Count2 p), pc_error = (if pr_Error p = [] then None else Some (pr_Error p))\<rparr>)"

definition UpdateBatchRunPhases :: "go_error option \<Rightarrow> int \<Rightarrow> PhaseResults \<Rightarrow> run_table \<Rightarrow> go_error option \<times> run_table" where
  "UpdateBatchRunPhases fault i phases t =
     (case fault of
        Some e \<Rightarrow> (Some e, t)
      | None \<Rightarrow> (None, update_runs (\<lambda>r. br_ID r = i)
          (\<lambda>r. r\<lparr>br_Phase1 := phase_written (ps_Phase1 phases), br_Phase2 := phase_written (ps_Phase2 phases),
                 br_Phase3 := (phase_written (ps_Phase3 phases))\<lparr>pc_count2 := None\<rparr>\<rparr>) t))"

text \<open>The cast of a quotient of type \<^verbatim>\<open>numeric\<close> to \<^verbatim>\<open>int\<close> rounds half away from zero.\<close>

definition round_div :: "int \<Rightarrow> int \<Rightarrow> int" where
  "round_div a b = (if a < 0 then - ((2 * - a + b) div (2 * b)) else (2 * a + b) div (2 * b))"

definition orphan_ms :: "time \<Rightarrow> BatchRunLog \<Rightarrow> int" where
  "orphan_ms now r = round_div (now - br_StartedAt r) 1000000"

definition orphan_closed :: "time \<Rightarrow> BatchRunLog \<Rightarrow> BatchRunLog" where
  "orphan_closed now r =
     r\<lparr>br_CompletedAt := Some now, br_DurationMs := Some (orphan_ms now r), br_Success := False,
       br_ErrorMessage := Some OrphanedRunMessage\<rparr>"

text \<open>
  \<^verbatim>\<open>FinalizeOrphanRuns\<close>: one statement for all rows, so that a duration outside the four-byte
  \<^verbatim>\<open>int\<close> of the column (about 24.8 days) fails it for all of them.
\<close>

definition orphaned :: "time \<Rightarrow> BatchRunLog \<Rightarrow> bool" where
  "orphaned cutoff r \<longleftrightarrow> br_CompletedAt r = None \<and> br_StartedAt r < cutoff"

definition FinalizeOrphanRuns :: "go_error option \<Rightarrow> time \<Rightarrow> time \<Rightarrow> run_table \<Rightarrow> (go_error + nat) \<times> run_table" where
  "FinalizeOrphanRuns fault now cutoff t =
     (case fault of
        Some e \<Rightarrow> (Inl e, t)
      | None \<Rightarrow>
          if list_ex (\<lambda>r. orphaned cutoff r \<and> \<bar>orphan_ms now r\<bar> \<ge> 2 ^ 31) (rt_rows t) then (Inl (PgError ''22003''), t)
          else (Inr (rows_affected (orphaned cutoff) (rt_rows t)), update_runs (orphaned cutoff) (orphan_closed now) t))"

definition run_of :: "run_table \<Rightarrow> int \<Rightarrow> BatchRunLog option" where
  "run_of t i = lookup_row br_ID (rt_rows t) i"

definition GetCancelRequested :: "go_error option \<Rightarrow> int \<Rightarrow> run_table \<Rightarrow> go_error + bool" where
  "GetCancelRequested fault i t =
     (case fault of
        Some e \<Rightarrow> Inl e
      | None \<Rightarrow> (case run_of t i of None \<Rightarrow> Inl ErrNoRows | Some r \<Rightarrow> Inr (br_CancelRequested r)))"

definition compute_RequestCancel :: "go_error option \<Rightarrow> int \<Rightarrow> run_table \<Rightarrow> (go_error + bool) \<times> run_table" where
  "compute_RequestCancel fault i t =
     (let P = (\<lambda>r. br_ID r = i \<and> br_CompletedAt r = None \<and> \<not> br_CancelRequested r)
      in case fault of
           Some e \<Rightarrow> (Inl e, t)
         | None \<Rightarrow> (Inr (0 < rows_affected P (rt_rows t)), update_runs P (\<lambda>r. r\<lparr>br_CancelRequested := True\<rparr>) t))"

section \<open>Statements of the admin service\<close>

definition GetBatchRunByID :: "go_error option \<Rightarrow> int \<Rightarrow> run_table \<Rightarrow> go_error + BatchRunLog option" where
  "GetBatchRunByID fault i t = (case fault of Some e \<Rightarrow> Inl e | None \<Rightarrow> Inr (run_of t i))"

datatype RequestCancelResult = RequestCancelOK | RequestCancelAlreadyTerminal | RequestCancelNotFound

text \<open>
  \<^verbatim>\<open>RequestCancel\<close>: a read and a guarded write; \<open>between\<close> is what other sessions do to the table
  after the read.
\<close>

definition RequestCancel ::
  "go_error option \<Rightarrow> (run_table \<Rightarrow> run_table) \<Rightarrow> go_error option \<Rightarrow> int \<Rightarrow> run_table
   \<Rightarrow> (go_error + RequestCancelResult) \<times> run_table" where
  "RequestCancel read_fault between write_fault i t =
     (case read_fault of
        Some e \<Rightarrow> (Inl e, t)
      | None \<Rightarrow>
          (case run_of t i of
             None \<Rightarrow> (Inr RequestCancelNotFound, t)
           | Some r \<Rightarrow>
               if br_CompletedAt r \<noteq> None then (Inr RequestCancelAlreadyTerminal, t)
               else let t1 = between t; P = (\<lambda>r. br_ID r = i \<and> br_CompletedAt r = None)
                    in case write_fault of
                         Some e \<Rightarrow> (Inl e, t1)
                       | None \<Rightarrow> (Inr (if rows_affected P (rt_rows t1) = 0 then RequestCancelAlreadyTerminal else RequestCancelOK),
                                  update_runs P (\<lambda>r. r\<lparr>br_CancelRequested := True\<rparr>) t1)))"

definition is_open_reembed :: "BatchRunLog \<Rightarrow> bool" where
  "is_open_reembed r \<longleftrightarrow> br_TriggerSource r = TriggerReembed \<and> br_CompletedAt r = None"

text \<open>\<^verbatim>\<open>ORDER BY started_at DESC LIMIT 1\<close>.\<close>

definition latest_run :: "BatchRunLog list \<Rightarrow> BatchRunLog option" where
  "latest_run rows = (case rev (sort_key br_StartedAt rows) of [] \<Rightarrow> None | r # _ \<Rightarrow> Some r)"

definition FindRunningReembedRun :: "go_error option \<Rightarrow> namespace \<Rightarrow> run_table \<Rightarrow> go_error + BatchRunLog option" where
  "FindRunningReembedRun fault ns t =
     (case fault of
        Some e \<Rightarrow> Inl e
      | None \<Rightarrow> Inr (latest_run (filter (\<lambda>r. br_Namespace r = ns \<and> is_open_reembed r) (rt_rows t))))"

definition FindLatestReembedRun :: "go_error option \<Rightarrow> namespace \<Rightarrow> run_table \<Rightarrow> go_error + BatchRunLog option" where
  "FindLatestReembedRun fault ns t =
     (case fault of
        Some e \<Rightarrow> Inl e
      | None \<Rightarrow> Inr (latest_run (filter (\<lambda>r. br_Namespace r = ns \<and> br_TriggerSource r = TriggerReembed) (rt_rows t))))"

definition ReembedTargetFromBatchRow :: "BatchRunLog option \<Rightarrow> string \<times> string" where
  "ReembedTargetFromBatchRow row =
     (case row of
        None \<Rightarrow> ([], [])
      | Some r \<Rightarrow> (case br_TargetStrategyID r of None \<Rightarrow> [] | Some s \<Rightarrow> s,
                   case br_TargetStrategyVersion r of None \<Rightarrow> [] | Some s \<Rightarrow> s))"

definition insert_reembed :: "namespace \<Rightarrow> string \<Rightarrow> string \<Rightarrow> time \<Rightarrow> run_table \<Rightarrow> int \<times> run_table" where
  "insert_reembed ns sid sver startedAt t =
     (rt_seq t, t\<lparr>rt_rows := rt_rows t @ [fresh_run (rt_seq t) ns startedAt TriggerReembed (Some sid) (Some sver)],
                  rt_seq := rt_seq t + 1\<rparr>)"

definition InsertReembedRun ::
  "go_error option \<Rightarrow> namespace \<Rightarrow> string \<Rightarrow> string \<Rightarrow> time \<Rightarrow> run_table \<Rightarrow> (go_error + int) \<times> run_table" where
  "InsertReembedRun fault ns sid sver startedAt t =
     (case fault of Some e \<Rightarrow> (Inl e, t) | None \<Rightarrow> (case insert_reembed ns sid sver startedAt t of (i, t1) \<Rightarrow> (Inr i, t1)))"

section \<open>Closing a re-embed run\<close>

definition reembed_closed :: "time \<Rightarrow> int \<Rightarrow> int \<Rightarrow> bool \<Rightarrow> string \<Rightarrow> BatchRunLog \<Rightarrow> BatchRunLog" where
  "reembed_closed completedAt durationMs processed success errorMessage r =
     r\<lparr>br_CompletedAt := Some completedAt, br_DurationMs := Some durationMs, br_EntitiesProcessed := processed,
       br_Success := success, br_ErrorMessage := (if success then None else Some errorMessage)\<rparr>"

definition CompleteReembedRun ::
  "go_error option \<Rightarrow> int \<Rightarrow> int \<Rightarrow> bool \<Rightarrow> string \<Rightarrow> time \<Rightarrow> int \<Rightarrow> run_table \<Rightarrow> go_error option \<times> run_table" where
  "CompleteReembedRun fault i processed success errorMessage completedAt durationMs t =
     (case fault of
        Some e \<Rightarrow> (Some e, t)
      | None \<Rightarrow> (None, update_runs (\<lambda>r. br_ID r = i \<and> is_open_reembed r)
                    (reembed_closed completedAt durationMs processed success errorMessage) t))"

definition admin_CompleteReembedRun ::
  "go_error option \<Rightarrow> int \<Rightarrow> int \<Rightarrow> bool \<Rightarrow> string \<Rightarrow> time \<Rightarrow> int \<Rightarrow> run_table \<Rightarrow> go_error option \<times> run_table" where
  "admin_CompleteReembedRun fault i processed success errorMessage completedAt durationMs t =
     (case fault of
        Some e \<Rightarrow> (Some e, t)
      | None \<Rightarrow> (None, update_runs (\<lambda>r. br_ID r = i)
                    (reembed_closed completedAt durationMs processed success errorMessage) t))"

record ReembedRun =
  rr_ID :: int
  rr_Namespace :: namespace
  rr_TargetStrategyID :: string
  rr_TargetStrategyVersion :: string
  rr_StartedAt :: time

definition open_run :: "BatchRunLog \<Rightarrow> ReembedRun" where
  "open_run r =
     \<lparr>rr_ID = br_ID r, rr_Namespace = br_Namespace r,
      rr_TargetStrategyID = (case br_TargetStrategyID r of None \<Rightarrow> [] | Some s \<Rightarrow> s),
      rr_TargetStrategyVersion = (case br_TargetStrategyVersion r of None \<Rightarrow> [] | Some s \<Rightarrow> s),
      rr_StartedAt = br_StartedAt r\<rparr>"

definition ListOpenReembedRuns :: "go_error option \<Rightarrow> run_table \<Rightarrow> go_error + ReembedRun list" where
  "ListOpenReembedRuns fault t =
     (case fault of Some e \<Rightarrow> Inl e | None \<Rightarrow> Inr (map open_run (filter is_open_reembed (rt_rows t))))"

section \<open>Listing\<close>

definition statusFilter :: "string \<Rightarrow> (BatchRunLog \<Rightarrow> bool) option" where
  "statusFilter =
     [''running'' \<mapsto> (\<lambda>r. br_CompletedAt r = None), ''ok'' \<mapsto> br_Success,
      ''failed'' \<mapsto> (\<lambda>r. br_CompletedAt r \<noteq> None \<and> \<not> br_Success r)]"

definition kindFilter :: "string \<Rightarrow> string list option" where
  "kindFilter = [''cf'' \<mapsto> [TriggerCron, TriggerManual], ''reembed'' \<mapsto> [TriggerReembed]]"

record BatchRunStats =
  bs_Total :: nat
  bs_Running :: nat
  bs_OK :: nat
  bs_Failed :: nat

definition run_scope :: "namespace \<Rightarrow> string \<Rightarrow> BatchRunLog \<Rightarrow> bool" where
  "run_scope ns kind r \<longleftrightarrow>
     (ns = [] \<or> br_Namespace r = ns)
     \<and> (case kindFilter kind of None \<Rightarrow> True | Some triggers \<Rightarrow> br_TriggerSource r \<in> set triggers)"

definition run_stats :: "BatchRunLog list \<Rightarrow> BatchRunStats" where
  "run_stats rows =
     \<lparr>bs_Total = length rows, bs_Running = length (filter (\<lambda>r. br_CompletedAt r = None) rows),
      bs_OK = length (filter br_Success rows),
      bs_Failed = length (filter (\<lambda>r. br_CompletedAt r \<noteq> None \<and> \<not> br_Success r) rows)\<rparr>"

text \<open>
  Stats over namespace and kind, then the filtered total, then the page: three statements, each of
  which may fail. Ties of \<^verbatim>\<open>started_at\<close> come in table order, newest last reversed.
\<close>

definition GetBatchRunLogs ::
  "go_error option \<Rightarrow> go_error option \<Rightarrow> go_error option \<Rightarrow> namespace \<Rightarrow> string \<Rightarrow> string \<Rightarrow> int \<Rightarrow> int \<Rightarrow> run_table
   \<Rightarrow> go_error + BatchRunLog list \<times> nat \<times> BatchRunStats" where
  "GetBatchRunLogs stats_fault count_fault rows_fault ns status kind limit offset t =
     (let lim = (if limit \<le> 0 \<or> limit > 100 then 100 else limit); off = (if offset < 0 then 0 else offset);
          scoped = filter (run_scope ns kind) (rt_rows t);
          rows = (case statusFilter status of None \<Rightarrow> scoped | Some clause \<Rightarrow> filter clause scoped)
      in case stats_fault of
           Some e \<Rightarrow> Inl e
         | None \<Rightarrow>
             (case count_fault of
                Some e \<Rightarrow> Inl e
              | None \<Rightarrow>
                  (case rows_fault of
                     Some e \<Rightarrow> Inl e
                   | None \<Rightarrow> Inr (take (nat lim) (drop (nat off) (rev (sort_key br_StartedAt rows))), length rows,
                                  run_stats scoped))))"

text \<open>Terminal runs of the window in buckets of \<open>bucketSeconds\<close>, in the order of the buckets.\<close>

record BatchRunStatsBucket =
  sb_Ts :: time
  sb_OK :: nat
  sb_Failed :: nat
  sb_Cancelled :: nat
  sb_AvgDurationMs :: int

definition bucket_of :: "int \<Rightarrow> time \<Rightarrow> time" where
  "bucket_of bucketSeconds at_time = at_time div seconds bucketSeconds * seconds bucketSeconds"

definition avg_ms :: "BatchRunLog list \<Rightarrow> int" where
  "avg_ms rows =
     (let ds = List.map_filter br_DurationMs rows in if ds = [] then 0 else round_div (sum_list ds) (int (length ds)))"

definition stats_bucket :: "time \<Rightarrow> BatchRunLog list \<Rightarrow> BatchRunStatsBucket" where
  "stats_bucket ts rows =
     \<lparr>sb_Ts = ts, sb_OK = length (filter br_Success rows),
      sb_Failed = length (filter (\<lambda>r. \<not> br_Success r \<and> br_ErrorMessage r \<noteq> Some OperatorCancelledMessage) rows),
      sb_Cancelled = length (filter (\<lambda>r. \<not> br_Success r \<and> br_ErrorMessage r = Some OperatorCancelledMessage) rows),
      sb_AvgDurationMs = avg_ms rows\<rparr>"

definition repo_GetBatchRunStats ::
  "go_error option \<Rightarrow> time \<Rightarrow> int \<Rightarrow> int \<Rightarrow> run_table \<Rightarrow> go_error + BatchRunStatsBucket list" where
  "repo_GetBatchRunStats fault now windowSeconds bucketSeconds t =
     (if windowSeconds \<le> 0 \<or> bucketSeconds \<le> 0 then Inl (Failure ''invalid window/bucket'')
      else case fault of
             Some e \<Rightarrow> Inl e
           | None \<Rightarrow>
               let rows = filter (\<lambda>r. br_CompletedAt r \<noteq> None \<and> now - seconds windowSeconds < br_StartedAt r) (rt_rows t);
                   b = (\<lambda>r. bucket_of bucketSeconds (br_StartedAt r))
               in Inr (map (\<lambda>ts. stats_bucket ts (filter (\<lambda>r. b r = ts) rows)) (sort (remdups (map b rows)))))"

text \<open>\<^verbatim>\<open>int(d.Seconds())\<close> of a duration truncates towards zero.\<close>

definition whole_seconds :: "int \<Rightarrow> int" where
  "whole_seconds d = (if d < 0 then - (- d div seconds 1) else d div seconds 1)"

definition GetBatchRunStats ::
  "go_error option \<Rightarrow> time \<Rightarrow> int \<Rightarrow> int \<Rightarrow> run_table \<Rightarrow> go_error + BatchRunStatsBucket list" where
  "GetBatchRunStats fault now window bucket t =
     (let windowSec = whole_seconds window; bucketSec = whole_seconds bucket
      in if windowSec \<le> 0 \<or> bucketSec \<le> 0 \<or> bucketSec > windowSec then Inl (Failure ''invalid window/bucket'')
         else repo_GetBatchRunStats fault now windowSec bucketSec t)"

definition GetLastBatchRunPerNamespace ::
  "go_error option \<Rightarrow> run_table \<Rightarrow> go_error + (namespace \<rightharpoonup> BatchRunLog)" where
  "GetLastBatchRunPerNamespace fault t =
     (case fault of
        Some e \<Rightarrow> Inl e
      | None \<Rightarrow> Inr (\<lambda>ns. latest_run (filter (\<lambda>r. br_Namespace r = ns \<and> br_CompletedAt r \<noteq> None
                                  \<and> br_TriggerSource r \<in> {TriggerCron, TriggerManual}) (rt_rows t))))"

definition deriveBatchRunKind :: "string \<Rightarrow> string" where
  "deriveBatchRunKind trigger = (if trigger = TriggerReembed then ''reembed'' else ''cf'')"

definition derivePhaseStatus :: "bool option \<Rightarrow> string option" where
  "derivePhaseStatus ok = (case ok of None \<Rightarrow> None | Some b \<Rightarrow> Some (if b then ''ok'' else ''fail''))"

record BatchRunSummary =
  su_ID :: int
  su_Namespace :: namespace
  su_Kind :: string
  su_TriggerSource :: string
  su_StartedAt :: time
  su_CompletedAt :: "time option"
  su_DurationMs :: "int option"
  su_Success :: bool
  su_CancelRequested :: bool
  su_EntitiesProcessed :: int
  su_PhaseStatus :: "string option list"
  su_ErrorMessage :: "string option"

definition BatchRunSummaryFromLog :: "BatchRunLog \<Rightarrow> BatchRunSummary" where
  "BatchRunSummaryFromLog b =
     \<lparr>su_ID = br_ID b, su_Namespace = br_Namespace b, su_Kind = deriveBatchRunKind (br_TriggerSource b),
      su_TriggerSource = br_TriggerSource b, su_StartedAt = br_StartedAt b, su_CompletedAt = br_CompletedAt b,
      su_DurationMs = br_DurationMs b, su_Success = br_Success b, su_CancelRequested = br_CancelRequested b,
      su_EntitiesProcessed = br_EntitiesProcessed b,
      su_PhaseStatus = [derivePhaseStatus (pc_ok (br_Phase1 b)), derivePhaseStatus (pc_ok (br_Phase2 b)),
                        derivePhaseStatus (pc_ok (br_Phase3 b))],
      su_ErrorMessage = br_ErrorMessage b\<rparr>"

record PhaseEntry =
  pe_N :: nat
  pe_Name :: string
  pe_OK :: "bool option"
  pe_Skipped :: "string option"
  pe_DurationMs :: int
  pe_Subjects :: "int option"
  pe_Objects :: "int option"
  pe_Items :: "int option"
  pe_Error :: "string option"

definition phaseEntry ::
  "nat \<Rightarrow> string \<Rightarrow> bool option \<Rightarrow> int option \<Rightarrow> int option \<Rightarrow> int option \<Rightarrow> int option \<Rightarrow> string option \<Rightarrow> PhaseEntry" where
  "phaseEntry n name ok durMs subjects objects items errMsg =
     \<lparr>pe_N = n, pe_Name = name, pe_OK = ok, pe_Skipped = None,
      pe_DurationMs = (case durMs of None \<Rightarrow> 0 | Some d \<Rightarrow> d),
      pe_Subjects = subjects, pe_Objects = objects, pe_Items = items, pe_Error = errMsg\<rparr>"

record BatchRunDetail =
  bd_Summary :: BatchRunSummary
  bd_Phases :: "PhaseEntry list"
  bd_LogLines :: "LogEntry list"
  bd_TargetStrategy :: "(string \<times> string) option"

definition BatchRunDetailFromLog :: "BatchRunLog \<Rightarrow> BatchRunDetail" where
  "BatchRunDetailFromLog b =
     \<lparr>bd_Summary = BatchRunSummaryFromLog b,
      bd_Phases =
        [let p = br_Phase1 b in phaseEntry 1 ''sparse'' (pc_ok p) (pc_duration_ms p) (pc_count1 p) (pc_count2 p) None (pc_error p),
         let p = br_Phase2 b in phaseEntry 2 ''dense'' (pc_ok p) (pc_duration_ms p) (pc_count2 p) None (pc_count1 p) (pc_error p),
         let p = br_Phase3 b in phaseEntry 3 ''trending'' (pc_ok p) (pc_duration_ms p) None None (pc_count1 p) (pc_error p)],
      bd_LogLines = br_LogLines b,
      bd_TargetStrategy =
        (case (br_TargetStrategyID b, br_TargetStrategyVersion b) of (Some i, Some v) \<Rightarrow> Some (i, v) | _ \<Rightarrow> None)\<rparr>"

definition GetBatchRunDetail :: "go_error option \<Rightarrow> int \<Rightarrow> run_table \<Rightarrow> go_error + BatchRunDetail option" where
  "GetBatchRunDetail fault i t =
     (case GetBatchRunByID fault i t of Inl e \<Rightarrow> Inl e | Inr row \<Rightarrow> Inr (map_option BatchRunDetailFromLog row))"

text \<open>The HTTP status of a cancel and the row it reports.\<close>

definition CancelBatchRun ::
  "go_error option \<Rightarrow> (run_table \<Rightarrow> run_table) \<Rightarrow> go_error option \<Rightarrow> go_error option \<Rightarrow> int \<Rightarrow> run_table
   \<Rightarrow> (BatchRunSummary option \<times> int \<times> go_error option) \<times> run_table" where
  "CancelBatchRun read_fault between write_fault refetch_fault i t =
     (case RequestCancel read_fault between write_fault i t of
        (Inl e, t1) \<Rightarrow> ((None, 500, Some e), t1)
      | (Inr RequestCancelNotFound, t1) \<Rightarrow> ((None, 404, None), t1)
      | (Inr RequestCancelAlreadyTerminal, t1) \<Rightarrow> ((None, 409, None), t1)
      | (Inr RequestCancelOK, t1) \<Rightarrow>
          (case GetBatchRunByID refetch_fault i t1 of
             Inl e \<Rightarrow> ((None, 500, Some e), t1)
           | Inr None \<Rightarrow> ((None, 404, None), t1)
           | Inr (Some row) \<Rightarrow> ((Some (BatchRunSummaryFromLog row), 200, None), t1)))"

section \<open>Pruning\<close>

definition PruneBatchRunLogs :: "go_error option \<Rightarrow> time \<Rightarrow> run_table \<Rightarrow> (go_error + nat) \<times> run_table" where
  "PruneBatchRunLogs fault cutoff t =
     (case fault of
        Some e \<Rightarrow> (Inl e, t)
      | None \<Rightarrow> (Inr (rows_affected (\<lambda>r. br_StartedAt r < cutoff) (rt_rows t)),
                 t\<lparr>rt_rows := delete_where (\<lambda>r. br_StartedAt r < cutoff) (rt_rows t)\<rparr>))"

record backlog_sample =
  sm_namespace :: namespace
  sm_sampled_at :: time
  sm_pending :: nat
  sm_in_flight :: nat
  sm_failed :: nat
  sm_dead_letter :: nat
  sm_stream_len :: int

definition PruneCatalogBacklogSamples ::
  "go_error option \<Rightarrow> time \<Rightarrow> backlog_sample list \<Rightarrow> (go_error + nat) \<times> backlog_sample list" where
  "PruneCatalogBacklogSamples fault cutoff t =
     (case fault of
        Some e \<Rightarrow> (Inl e, t)
      | None \<Rightarrow> (Inr (rows_affected (\<lambda>r. sm_sampled_at r < cutoff) t), delete_where (\<lambda>r. sm_sampled_at r < cutoff) t))"

record retention_config =
  rc_BatchRunRetentionDays :: int
  rc_BacklogSamplesRetentionDays :: int
  rc_Interval :: int

definition retention_NewJob :: "retention_config \<Rightarrow> retention_config" where
  "retention_NewJob cfg = (if rc_Interval cfg \<le> 0 then cfg\<lparr>rc_Interval := minutes 60\<rparr> else cfg)"

definition retention_job_tick ::
  "retention_config \<Rightarrow> go_error option \<Rightarrow> go_error option \<Rightarrow> time \<Rightarrow> run_table \<times> backlog_sample list
   \<Rightarrow> run_table \<times> backlog_sample list" where
  "retention_job_tick cfg runs_fault samples_fault now st =
     (case st of (runs, samples) \<Rightarrow>
        (if rc_BatchRunRetentionDays cfg > 0
         then snd (PruneBatchRunLogs runs_fault (now - rc_BatchRunRetentionDays cfg * minutes 1440) runs) else runs,
         if rc_BacklogSamplesRetentionDays cfg > 0
         then snd (PruneCatalogBacklogSamples samples_fault (now - rc_BacklogSamplesRetentionDays cfg * minutes 1440) samples)
         else samples))"

section \<open>Facts\<close>

definition runs_wf :: "run_table \<Rightarrow> bool" where
  "runs_wf t \<longleftrightarrow> keyed br_ID (rt_rows t) \<and> list_all (\<lambda>r. 1 \<le> br_ID r \<and> br_ID r < rt_seq t) (rt_rows t) \<and> 1 \<le> rt_seq t"

lemma run_of_update:
  assumes "\<And>r. br_ID (f r) = br_ID r"
  shows "run_of (update_runs P f t) i = map_option (\<lambda>r. if P r then f r else r) (run_of t i)"
  using assms by (simp add: run_of_def update_runs_def)

lemma run_of_update_other:
  assumes "\<And>r. br_ID (f r) = br_ID r" and "\<And>r. P r \<Longrightarrow> br_ID r \<noteq> i"
  shows "run_of (update_runs P f t) i = run_of t i"
  using assms lookup_row_key [of br_ID "rt_rows t" i]
  by (cases "run_of t i") (auto simp: run_of_update, auto simp: run_of_def)

lemma update_runs_wf:
  assumes "\<And>r. br_ID (f r) = br_ID r" and "runs_wf t"
  shows "runs_wf (update_runs P f t)"
  using assms by (auto simp: runs_wf_def update_runs_def intro!: list_all_update)

lemma run_of_fresh:
  assumes "runs_wf t" and "br_ID r = rt_seq t"
  shows "run_of (t\<lparr>rt_rows := rt_rows t @ [r], rt_seq := rt_seq t + 1\<rparr>) i = (if i = rt_seq t then Some r else run_of t i)"
proof -
  have "lookup_row br_ID (rt_rows t) (rt_seq t) = None"
    using assms(1) by (auto simp: runs_wf_def lookup_row_None_iff list_all_iff)
  then show ?thesis using assms(2) by (auto simp: run_of_def lookup_row_snoc split: option.split)
qed

lemma fresh_run_wf:
  assumes "runs_wf t" and "br_ID r = rt_seq t"
  shows "runs_wf (t\<lparr>rt_rows := rt_rows t @ [r], rt_seq := rt_seq t + 1\<rparr>)"
proof -
  have "lookup_row br_ID (rt_rows t) (rt_seq t) = None"
    using assms(1) by (auto simp: runs_wf_def lookup_row_None_iff list_all_iff)
  then show ?thesis using assms by (auto simp: runs_wf_def list_all_iff intro!: keyed_snoc)
qed

lemma latest_run_None_iff: "latest_run rows = None \<longleftrightarrow> rows = []"
proof -
  have "(rev (sort_key br_StartedAt rows) = []) \<longleftrightarrow> rows = []"
    using length_sort [of br_StartedAt rows] by (cases rows) (auto simp del: length_sort)
  then show ?thesis by (cases "rev (sort_key br_StartedAt rows)") (auto simp: latest_run_def)
qed

lemma latest_run_mem: "latest_run rows = Some r \<Longrightarrow> r \<in> set rows"
  using set_sort [of br_StartedAt rows] set_rev [of "sort_key br_StartedAt rows"]
  by (cases "rev (sort_key br_StartedAt rows)") (auto simp: latest_run_def simp del: set_sort set_rev)

lemma FindRunning_None_iff:
  "FindRunningReembedRun None ns t = Inr None \<longleftrightarrow> (\<forall>r\<in>set (rt_rows t). br_Namespace r = ns \<longrightarrow> \<not> is_open_reembed r)"
  by (auto simp: FindRunningReembedRun_def latest_run_None_iff filter_empty_conv)

lemma orphan_closed_sel [simp]:
  "br_ID (orphan_closed now r) = br_ID r" "br_Namespace (orphan_closed now r) = br_Namespace r"
  "br_CompletedAt (orphan_closed now r) = Some now" "\<not> br_Success (orphan_closed now r)"
  "br_StartedAt (orphan_closed now r) = br_StartedAt r" "br_TriggerSource (orphan_closed now r) = br_TriggerSource r"
  by (simp_all add: orphan_closed_def)

text \<open>A row the orphan sweep has closed is no longer open to the re-embed watcher.\<close>

lemma closed_run_untouched:
  assumes "run_of t i = Some r" and "br_CompletedAt r \<noteq> None"
  shows "run_of (snd (CompleteReembedRun fault i processed success msg completedAt ms t)) i = Some r"
  using assms by (cases fault) (auto simp: CompleteReembedRun_def run_of_update reembed_closed_def is_open_reembed_def)

end
