(* ===== verification/Catalog_Ops.thy ===== *)
theory Catalog_Ops
  imports Catalog_Embedder Batch_Runs
begin

text \<open>
  What an operator does to the catalog (\<^verbatim>\<open>internal/admin/catalog_ops_service.go\<close>,
  \<^verbatim>\<open>internal/admin/catalog_ops_repository.go\<close>): re-embed a namespace, put failed items back, delete
  an item, browse. The operations act on the embedder's state and on the run log together. The
  strategy picker is the adapter of \<^verbatim>\<open>cmd/admin/catalog_adapter.go\<close> on a configuration read.
\<close>

section \<open>State and environment\<close>

record ops_world =
  ow_embed :: embed_world
  ow_runs :: run_table
  ow_running :: "namespace list"

record ops_env =
  oe_picker :: "(namespace \<Rightarrow> go_error + Config option) option"
  oe_namespace :: "namespace \<Rightarrow> go_error + Config option"
  oe_now :: time
  oe_find :: "go_error option"
  oe_between :: "ops_world \<Rightarrow> ops_world"
  oe_begin :: "go_error option"
  oe_insert :: "go_error option"
  oe_reset :: "go_error option"
  oe_commit :: "go_error option"
  oe_redis :: bool
  oe_xadd :: "int \<Rightarrow> go_error option"
  oe_redrive :: "go_error option"
  oe_lifecycle :: "svc_env option"
  oe_item :: "go_error option"
  oe_deleter :: bool
  oe_lookup :: "go_error option"
  oe_point :: "go_error option"
  oe_delete :: "go_error option"

abbreviation ow_items :: "ops_world \<Rightarrow> catalog_table" where
  "ow_items w \<equiv> ew_items (ow_embed w)"

definition with_ops_items :: "catalog_table \<Rightarrow> ops_world \<Rightarrow> ops_world" where
  "with_ops_items t w = w\<lparr>ow_embed := with_items t (ow_embed w)\<rparr>"

text \<open>\<^verbatim>\<open>GetCatalogStrategy\<close>: strategy, version and generation of a namespace in catalog mode.\<close>

definition GetCatalogStrategy ::
  "(namespace \<Rightarrow> go_error + Config option) \<Rightarrow> namespace \<Rightarrow> go_error + (string \<times> string \<times> int) option" where
  "GetCatalogStrategy get ns =
     (case get ns of
        Inl e \<Rightarrow> Inl e
      | Inr None \<Rightarrow> Inr None
      | Inr (Some cfg) \<Rightarrow>
          Inr (if cfg_DenseSource cfg \<noteq> DenseSourceCatalog then None
               else Some (cfg_CatalogStrategyID cfg, cfg_CatalogStrategyVersion cfg, cfg_Generation cfg)))"

section \<open>Publishing\<close>

record CatalogReembedTarget =
  rt_ID :: int
  rt_ObjectID :: string

text \<open>An \<^verbatim>\<open>XADD\<close> of one embed entry to the generation's stream.\<close>

definition add_embed_entry ::
  "time \<Rightarrow> namespace \<Rightarrow> int \<Rightarrow> int \<Rightarrow> string \<Rightarrow> string \<Rightarrow> string \<Rightarrow> embed_world \<Rightarrow> embed_world" where
  "add_embed_entry now ns g i oid sid sver w =
     w\<lparr>ew_cat := (ew_cat w)\<lparr>cw_streams := cw_streams (ew_cat w) @
        [(generationStreamName ns g,
          \<lparr>ee_catalog_item_id = i, ee_namespace = ns, ee_namespace_generation = g, ee_object_id = oid,
           ee_strategy_id = sid, ee_strategy_version = sver, ee_enqueued_at = now\<rparr>)]\<rparr>\<rparr>"

definition publishCatalogEnqueue ::
  "ops_env \<Rightarrow> namespace \<Rightarrow> int \<Rightarrow> string \<Rightarrow> string \<Rightarrow> CatalogReembedTarget \<Rightarrow> ops_world \<Rightarrow> (go_error + unit) \<times> ops_world" where
  "publishCatalogEnqueue env ns g sid sver target w =
     (if \<not> oe_redis env then (Inl (Failure ''stream publisher not wired''), w)
      else case oe_xadd env (rt_ID target) of
             Some e \<Rightarrow> (Inl e, w)
           | None \<Rightarrow> (Inr (), w\<lparr>ow_embed :=
               add_embed_entry (oe_now env) ns g (rt_ID target) (rt_ObjectID target) sid sver (ow_embed w)\<rparr>))"

text \<open>The loops over targets: a failed publish is logged and passed over.\<close>

definition publish_targets ::
  "ops_env \<Rightarrow> namespace \<Rightarrow> int \<Rightarrow> string \<Rightarrow> string \<Rightarrow> CatalogReembedTarget list \<Rightarrow> ops_world \<Rightarrow> ops_world" where
  "publish_targets env ns g sid sver targets w =
     fold (\<lambda>t w. snd (publishCatalogEnqueue env ns g sid sver t w)) targets w"

section \<open>Re-embedding a namespace\<close>

definition ReembedOnlyStateAll :: string where "ReembedOnlyStateAll = ''all''"
definition ReembedOnlyStateEmbedded :: string where "ReembedOnlyStateEmbedded = ''embedded''"
definition ReembedOnlyStateFailed :: string where "ReembedOnlyStateFailed = ''failed''"

definition ReEmbedRequest_Valid :: "string \<Rightarrow> bool" where
  "ReEmbedRequest_Valid onlyState \<longleftrightarrow>
     onlyState \<in> {[], ReembedOnlyStateAll, ReembedOnlyStateEmbedded, ReembedOnlyStateFailed}"

text \<open>The row is not at the target: \<^verbatim>\<open>strategy_id\<close> or version null or different.\<close>

definition off_target :: "string \<Rightarrow> string \<Rightarrow> catalog_row \<Rightarrow> bool" where
  "off_target sid sver r \<longleftrightarrow>
     ci_strategy_id r = None \<or> ci_strategy_version r = None \<or> (ci_strategy_id r, ci_strategy_version r) \<noteq> (Some sid, Some sver)"

text \<open>The \<^verbatim>\<open>WHERE\<close> and \<^verbatim>\<open>SET\<close> clauses of \<^verbatim>\<open>reembedResetSQL\<close>.\<close>

definition reembed_selects :: "string \<Rightarrow> namespace \<Rightarrow> string \<Rightarrow> string \<Rightarrow> catalog_row \<Rightarrow> bool" where
  "reembed_selects onlyState ns sid sver r \<longleftrightarrow>
     ci_namespace r = ns \<and>
     (if onlyState = ReembedOnlyStateAll then ci_state r \<in> {StateEmbedded, StateFailed, StateDeadLetter}
      else if onlyState = ReembedOnlyStateEmbedded then ci_state r = StateEmbedded
      else if onlyState = ReembedOnlyStateFailed then ci_state r \<in> {StateFailed, StateDeadLetter}
      else ci_state r \<in> {StateEmbedded, StateFailed, StateDeadLetter} \<and> off_target sid sver r)"

definition reembed_reset :: "time \<Rightarrow> catalog_row \<Rightarrow> catalog_row" where
  "reembed_reset now r =
     r\<lparr>ci_state := StatePending, ci_attempt_count := 0, ci_last_error := None, ci_strategy_version := None, ci_updated_at := now\<rparr>"

definition target_of :: "catalog_row \<Rightarrow> CatalogReembedTarget" where
  "target_of r = \<lparr>rt_ID = ci_id r, rt_ObjectID = ci_object_id r\<rparr>"

definition SelectAndResetStaleCatalogItems ::
  "go_error option \<Rightarrow> time \<Rightarrow> namespace \<Rightarrow> string \<Rightarrow> string \<Rightarrow> string \<Rightarrow> catalog_table
   \<Rightarrow> (go_error + CatalogReembedTarget list) \<times> catalog_table" where
  "SelectAndResetStaleCatalogItems fault now ns sid sver onlyState t =
     (let P = reembed_selects onlyState ns sid sver
      in case fault of
           Some e \<Rightarrow> (Inl e, t)
         | None \<Rightarrow> (Inr (map target_of (filter P (ct_rows t))), update_items P (reembed_reset now) t))"

text \<open>
  One transaction for the run row and the reset: a failure after the insert takes both back, except
  for the drawn run id.
\<close>

definition StartReembedRun ::
  "ops_env \<Rightarrow> namespace \<Rightarrow> string \<Rightarrow> string \<Rightarrow> string \<Rightarrow> time \<Rightarrow> ops_world
   \<Rightarrow> (go_error + int \<times> CatalogReembedTarget list) \<times> ops_world" where
  "StartReembedRun env ns sid sver onlyState startedAt w =
     (case oe_begin env of
        Some e \<Rightarrow> (Inl e, w)
      | None \<Rightarrow>
          (case InsertReembedRun (oe_insert env) ns sid sver startedAt (ow_runs w) of
             (Inl e, _) \<Rightarrow> (Inl e, w)
           | (Inr i, runs) \<Rightarrow>
               let rolled_back = w\<lparr>ow_runs := (ow_runs w)\<lparr>rt_seq := rt_seq runs\<rparr>\<rparr>
               in case SelectAndResetStaleCatalogItems (oe_reset env) (oe_now env) ns sid sver onlyState (ow_items w) of
                    (Inl e, _) \<Rightarrow> (Inl e, rolled_back)
                  | (Inr targets, items) \<Rightarrow>
                      (case oe_commit env of
                         Some e \<Rightarrow> (Inl e, rolled_back)
                       | None \<Rightarrow> (Inr (i, targets), (with_ops_items items w)\<lparr>ow_runs := runs\<rparr>))))"

record CatalogReEmbedResponse =
  re_BatchRunID :: int
  re_Namespace :: namespace
  re_StrategyID :: string
  re_StrategyVersion :: string
  re_StaleItems :: nat
  re_OnlyState :: string
  re_StartedAt :: time

text \<open>The part of \<^verbatim>\<open>TriggerReEmbed\<close> under the in-memory claim on the namespace.\<close>

definition reembed_claimed ::
  "ops_env \<Rightarrow> namespace \<Rightarrow> string \<Rightarrow> string \<Rightarrow> string \<Rightarrow> int \<Rightarrow> ops_world
   \<Rightarrow> (go_error + CatalogReEmbedResponse option) \<times> ops_world" where
  "reembed_claimed env ns onlyState sid sver g w =
     (case FindRunningReembedRun (oe_find env) ns (ow_runs w) of
        Inl e \<Rightarrow> (Inl e, w)
      | Inr (Some existing) \<Rightarrow> (Inl (AdminError ErrReembedAlreadyRunning), w)
      | Inr None \<Rightarrow>
          (case StartReembedRun env ns sid sver onlyState (oe_now env) (oe_between env w) of
             (Inl e, w1) \<Rightarrow> (Inl e, w1)
           | (Inr (i, targets), w1) \<Rightarrow>
               (Inr (Some \<lparr>re_BatchRunID = i, re_Namespace = ns, re_StrategyID = sid, re_StrategyVersion = sver,
                  re_StaleItems = length targets, re_OnlyState = onlyState, re_StartedAt = oe_now env\<rparr>),
                publish_targets env ns g sid sver targets w1)))"

definition TriggerReEmbed ::
  "ops_env \<Rightarrow> namespace \<Rightarrow> string \<Rightarrow> ops_world \<Rightarrow> (go_error + CatalogReEmbedResponse option) \<times> ops_world" where
  "TriggerReEmbed env ns onlyState w =
     (case oe_picker env of
        None \<Rightarrow> (Inl (AdminError ErrCatalogStrategyPickerUnavailable), w)
      | Some get \<Rightarrow>
          (case GetCatalogStrategy get ns of
             Inl e \<Rightarrow> (Inl e, w)
           | Inr None \<Rightarrow> (Inr None, w)
           | Inr (Some (sid, sver, g)) \<Rightarrow>
               (case oe_namespace env ns of
                  Inl e \<Rightarrow> (Inl e, w)
                | Inr nsConfig \<Rightarrow>
                    if (case nsConfig of None \<Rightarrow> False | Some c \<Rightarrow> cfg_Paused c) then (Inl (AdminError ErrNamespacePaused), w)
                    else if sver = [] then (Inl (Failure ''no strategy_version''), w)
                    else if ns \<in> set (ow_running w) then (Inl (AdminError ErrReembedAlreadyRunning), w)
                    else case reembed_claimed env ns onlyState sid sver g (w\<lparr>ow_running := ns # ow_running w\<rparr>) of
                           (res, w1) \<Rightarrow> (res, w1\<lparr>ow_running := filter (\<lambda>n. n \<noteq> ns) (ow_running w1)\<rparr>))))"

section \<open>Browsing\<close>

record CatalogItemSummary =
  cs_ID :: int
  cs_ObjectID :: string
  cs_AuthorSubjectID :: string
  cs_ContentPreview :: string
  cs_State :: item_state
  cs_StrategyID :: string
  cs_StrategyVersion :: string
  cs_AttemptCount :: int
  cs_LastError :: string
  cs_EmbeddedAt :: "time option"
  cs_UpdatedAt :: time

record CatalogVector =
  cv_Collection :: string
  cv_NumericID :: int
  cv_Dim :: nat
  cv_Preview :: "real list"

record CatalogItemDetail = CatalogItemSummary +
  cd_Namespace :: namespace
  cd_Content :: string
  cd_Metadata :: "(string \<times> json) list option"
  cd_Vector :: "CatalogVector option"
  cd_CreatedAt :: time

text \<open>The author of the left join.\<close>

definition author_of :: "object_row list \<Rightarrow> catalog_row \<Rightarrow> string option" where
  "author_of objs r = Option.bind (lookup_row object_key objs (item_key r)) ob_author"

definition item_detail :: "string \<Rightarrow> catalog_row \<Rightarrow> CatalogItemDetail" where
  "item_detail author r =
     \<lparr>cs_ID = ci_id r, cs_ObjectID = ci_object_id r, cs_AuthorSubjectID = author, cs_ContentPreview = [],
      cs_State = ci_state r, cs_StrategyID = coalesce (ci_strategy_id r), cs_StrategyVersion = coalesce (ci_strategy_version r),
      cs_AttemptCount = ci_attempt_count r, cs_LastError = coalesce (ci_last_error r), cs_EmbeddedAt = ci_embedded_at r,
      cs_UpdatedAt = ci_updated_at r, cd_Namespace = ci_namespace r, cd_Content = ci_content r,
      cd_Metadata = unmarshalMetadata (ci_metadata r), cd_Vector = None, cd_CreatedAt = ci_created_at r\<rparr>"

definition repo_GetCatalogItem ::
  "go_error option \<Rightarrow> namespace \<Rightarrow> int \<Rightarrow> catalog_world \<Rightarrow> go_error + CatalogItemDetail option" where
  "repo_GetCatalogItem fault ns i c =
     (case fault of
        Some e \<Rightarrow> Inl e
      | None \<Rightarrow>
          Inr (case item_row (cw_items c) i of
                 None \<Rightarrow> None
               | Some r \<Rightarrow> if ci_namespace r = ns then Some (item_detail (coalesce (author_of (cw_objects c) r)) r) else None))"

definition LookupNumericObjectID :: "go_error option \<Rightarrow> namespace \<Rightarrow> string \<Rightarrow> id_table \<Rightarrow> go_error + int option" where
  "LookupNumericObjectID fault ns oid ids =
     (case fault of Some e \<Rightarrow> Inl e | None \<Rightarrow> Inr (id_of ids ns ''object'' oid))"

definition namespaceGeneration :: "ops_env \<Rightarrow> namespace \<Rightarrow> go_error + int" where
  "namespaceGeneration env ns =
     (case oe_namespace env ns of
        Inl e \<Rightarrow> Inl e
      | Inr None \<Rightarrow> Inr 1
      | Inr (Some cfg) \<Rightarrow> Inr (inc_Generation (NewIncarnation ns (cfg_Generation cfg))))"

definition catalogVectorPreviewDims :: nat where
  "catalogVectorPreviewDims = 16"

text \<open>\<open>fetch\<close> is the answer of the vector database to the read of one point.\<close>

definition attachCatalogVector ::
  "ops_env \<Rightarrow> (dense_store \<Rightarrow> string \<Rightarrow> int \<Rightarrow> go_error + dense_point option) option \<Rightarrow> embed_world
   \<Rightarrow> CatalogItemDetail \<Rightarrow> CatalogItemDetail" where
  "attachCatalogVector env fetch w item =
     (case fetch of
        None \<Rightarrow> item
      | Some get \<Rightarrow>
          (case LookupNumericObjectID (oe_lookup env) (cd_Namespace item) (cs_ObjectID item) (ew_ids w) of
             Inl _ \<Rightarrow> item
           | Inr None \<Rightarrow> item
           | Inr (Some pid) \<Rightarrow>
               (case namespaceGeneration env (cd_Namespace item) of
                  Inl _ \<Rightarrow> item
                | Inr g \<Rightarrow>
                    let collection = CollectionName (NewIncarnation (cd_Namespace item) g) CollectionObjectsDense
                    in case get (ew_dense w) collection pid of
                         Inr (Some p) \<Rightarrow>
                           item\<lparr>cd_Vector := Some \<lparr>cv_Collection = collection, cv_NumericID = pid,
                             cv_Dim = length (dp_vector p), cv_Preview = take catalogVectorPreviewDims (dp_vector p)\<rparr>\<rparr>
                       | _ \<Rightarrow> item)))"

definition GetCatalogItem ::
  "ops_env \<Rightarrow> (dense_store \<Rightarrow> string \<Rightarrow> int \<Rightarrow> go_error + dense_point option) option \<Rightarrow> namespace \<Rightarrow> int \<Rightarrow> embed_world
   \<Rightarrow> go_error + CatalogItemDetail option" where
  "GetCatalogItem env fetch ns i w =
     (case repo_GetCatalogItem (oe_item env) ns i (ew_cat w) of
        Inl e \<Rightarrow> Inl e
      | Inr item \<Rightarrow> Inr (map_option (attachCatalogVector env fetch w) item))"

definition escapeLikePrefix :: "string \<Rightarrow> string" where
  "escapeLikePrefix s =
     concat (map (\<lambda>c. if c = CHR 0x5C then [CHR 0x5C, CHR 0x5C] else if c = CHR ''%'' then CHR 0x5C # ''%''
                      else if c = CHR ''_'' then CHR 0x5C # ''_'' else [c]) s)"

fun state_name :: "item_state \<Rightarrow> string" where
  "state_name StatePending = ''pending''"
| "state_name StateInFlight = ''in_flight''"
| "state_name StateEmbedded = ''embedded''"
| "state_name StateFailed = ''failed''"
| "state_name StateDeadLetter = ''dead_letter''"

text \<open>\<^verbatim>\<open>LEFT(content, 240)\<close> counts characters; stored content is valid UTF-8.\<close>

definition content_preview :: "string \<Rightarrow> string" where
  "content_preview s = concat (take 240 (runes s))"

definition item_summary :: "string \<Rightarrow> catalog_row \<Rightarrow> CatalogItemSummary" where
  "item_summary author r =
     \<lparr>cs_ID = ci_id r, cs_ObjectID = ci_object_id r, cs_AuthorSubjectID = author,
      cs_ContentPreview = content_preview (ci_content r), cs_State = ci_state r,
      cs_StrategyID = coalesce (ci_strategy_id r), cs_StrategyVersion = coalesce (ci_strategy_version r),
      cs_AttemptCount = ci_attempt_count r, cs_LastError = coalesce (ci_last_error r), cs_EmbeddedAt = ci_embedded_at r,
      cs_UpdatedAt = ci_updated_at r\<rparr>"

text \<open>\<open>ilike\<close> is the database's case-insensitive pattern match with the backslash as escape.\<close>

definition item_listed ::
  "(string \<Rightarrow> string \<Rightarrow> bool) \<Rightarrow> namespace \<Rightarrow> string \<Rightarrow> string \<Rightarrow> string \<Rightarrow> object_row list \<Rightarrow> catalog_row \<Rightarrow> bool" where
  "item_listed ilike ns state objectIDFilter authorFilter objs r \<longleftrightarrow>
     ci_namespace r = ns
     \<and> (state = [] \<or> state = ''all'' \<or> state_name (ci_state r) = state)
     \<and> (objectIDFilter = [] \<or> ilike (''%'' @ escapeLikePrefix objectIDFilter @ ''%'') (ci_object_id r))
     \<and> (authorFilter = [] \<or> author_of objs r = Some authorFilter)"

definition repo_ListCatalogItems ::
  "(string \<Rightarrow> string \<Rightarrow> bool) \<Rightarrow> go_error option \<Rightarrow> go_error option \<Rightarrow> namespace \<Rightarrow> string \<Rightarrow> int \<Rightarrow> int \<Rightarrow> string \<Rightarrow> string
   \<Rightarrow> catalog_world \<Rightarrow> go_error + CatalogItemSummary list \<times> nat" where
  "repo_ListCatalogItems ilike count_fault rows_fault ns state limit offset objectIDFilter authorFilter c =
     (let lim = (if limit \<le> 0 then 50 else if limit > 500 then 500 else limit); off = (if offset < 0 then 0 else offset);
          rows = filter (item_listed ilike ns state objectIDFilter authorFilter (cw_objects c)) (ct_rows (cw_items c))
      in case count_fault of
           Some e \<Rightarrow> Inl e
         | None \<Rightarrow>
             (case rows_fault of
                Some e \<Rightarrow> Inl e
              | None \<Rightarrow>
                  Inr (map (\<lambda>r. item_summary (coalesce (author_of (cw_objects c) r)) r)
                         (take (nat lim) (drop (nat off) (rev (sort_key (\<lambda>r. (ci_updated_at r, ci_id r)) rows)))),
                       length rows)))"

record CatalogItemsListResponse =
  cl_Items :: "CatalogItemSummary list"
  cl_Total :: nat
  cl_Limit :: int
  cl_Offset :: int

definition ListCatalogItems ::
  "(string \<Rightarrow> string \<Rightarrow> bool) \<Rightarrow> go_error option \<Rightarrow> go_error option \<Rightarrow> namespace \<Rightarrow> string \<Rightarrow> int \<Rightarrow> int \<Rightarrow> string \<Rightarrow> string
   \<Rightarrow> catalog_world \<Rightarrow> go_error + CatalogItemsListResponse" where
  "ListCatalogItems ilike count_fault rows_fault ns state limit offset objectIDFilter authorFilter c =
     (let lim = (if limit \<le> 0 then 50 else if limit > 500 then 500 else limit)
      in case repo_ListCatalogItems ilike count_fault rows_fault ns state lim offset objectIDFilter authorFilter c of
           Inl e \<Rightarrow> Inl e
         | Inr (items, n) \<Rightarrow> Inr \<lparr>cl_Items = items, cl_Total = n, cl_Limit = lim, cl_Offset = offset\<rparr>)"

section \<open>Putting items back\<close>

definition redrive_row :: "time \<Rightarrow> catalog_row \<Rightarrow> catalog_row" where
  "redrive_row now r = r\<lparr>ci_state := StatePending, ci_attempt_count := 0, ci_last_error := None, ci_updated_at := now\<rparr>"

definition repo_RedriveCatalogItem ::
  "go_error option \<Rightarrow> time \<Rightarrow> namespace \<Rightarrow> int \<Rightarrow> catalog_table \<Rightarrow> (go_error + CatalogItemDetail option) \<times> catalog_table" where
  "repo_RedriveCatalogItem fault now ns i t =
     (let P = (\<lambda>r. ci_namespace r = ns \<and> ci_id r = i \<and> ci_state r \<in> {StateFailed, StateDeadLetter})
      in case fault of
           Some e \<Rightarrow> (Inl e, t)
         | None \<Rightarrow> (Inr (map_option (item_detail [] \<circ> redrive_row now) (find P (ct_rows t))), update_items P (redrive_row now) t))"

definition repo_BulkRedriveDeadletter ::
  "go_error option \<Rightarrow> time \<Rightarrow> namespace \<Rightarrow> catalog_table \<Rightarrow> (go_error + CatalogReembedTarget list) \<times> catalog_table" where
  "repo_BulkRedriveDeadletter fault now ns t =
     (let P = (\<lambda>r. ci_namespace r = ns \<and> ci_state r = StateDeadLetter)
      in case fault of
           Some e \<Rightarrow> (Inl e, t)
         | None \<Rightarrow> (Inr (map target_of (filter P (ct_rows t))), update_items P (redrive_row now) t))"

record CatalogRedriveResponse =
  rd_ID :: int
  rd_ObjectID :: string
  rd_State :: item_state

definition RedriveCatalogItem ::
  "ops_env \<Rightarrow> namespace \<Rightarrow> int \<Rightarrow> ops_world \<Rightarrow> (go_error + CatalogRedriveResponse option) \<times> ops_world" where
  "RedriveCatalogItem env ns i w =
     (case oe_picker env of
        None \<Rightarrow> (Inl (AdminError ErrCatalogStrategyPickerUnavailable), w)
      | Some get \<Rightarrow>
          (case GetCatalogStrategy get ns of
             Inl e \<Rightarrow> (Inl e, w)
           | Inr None \<Rightarrow> (Inr None, w)
           | Inr (Some (sid, sver, g)) \<Rightarrow>
               (case repo_RedriveCatalogItem (oe_redrive env) (oe_now env) ns i (ow_items w) of
                  (Inl e, t) \<Rightarrow> (Inl e, with_ops_items t w)
                | (Inr None, t) \<Rightarrow> (Inr None, with_ops_items t w)
                | (Inr (Some item), t) \<Rightarrow>
                    (Inr (Some \<lparr>rd_ID = cs_ID item, rd_ObjectID = cs_ObjectID item, rd_State = cs_State item\<rparr>),
                     publish_targets env ns g sid sver [\<lparr>rt_ID = cs_ID item, rt_ObjectID = cs_ObjectID item\<rparr>]
                       (with_ops_items t w)))))"

definition BulkRedriveDeadletter ::
  "ops_env \<Rightarrow> namespace \<Rightarrow> ops_world \<Rightarrow> (go_error + (namespace \<times> nat) option) \<times> ops_world" where
  "BulkRedriveDeadletter env ns w =
     (case oe_picker env of
        None \<Rightarrow> (Inl (AdminError ErrCatalogStrategyPickerUnavailable), w)
      | Some get \<Rightarrow>
          (case GetCatalogStrategy get ns of
             Inl e \<Rightarrow> (Inl e, w)
           | Inr None \<Rightarrow> (Inr None, w)
           | Inr (Some (sid, sver, g)) \<Rightarrow>
               (case repo_BulkRedriveDeadletter (oe_redrive env) (oe_now env) ns (ow_items w) of
                  (Inl e, t) \<Rightarrow> (Inl e, with_ops_items t w)
                | (Inr targets, t) \<Rightarrow>
                    (Inr (Some (ns, length targets)), publish_targets env ns g sid sver targets (with_ops_items t w)))))"

section \<open>Deleting an item\<close>

text \<open>\<^verbatim>\<open>DeletePoint\<close>: a missing collection is no error.\<close>

definition DeletePoint :: "go_error option \<Rightarrow> string \<Rightarrow> int \<Rightarrow> dense_store \<Rightarrow> (go_error + unit) \<times> dense_store" where
  "DeletePoint fault collection pid st =
     (case fault of Some e \<Rightarrow> (Inl e, st) | None \<Rightarrow> (Inr (), st\<lparr>ds_points := (ds_points st)((collection, pid) := None)\<rparr>))"

definition repo_DeleteCatalogItem ::
  "go_error option \<Rightarrow> namespace \<Rightarrow> int \<Rightarrow> catalog_table \<Rightarrow> (go_error + string option) \<times> catalog_table" where
  "repo_DeleteCatalogItem fault ns i t =
     (let P = (\<lambda>r. ci_namespace r = ns \<and> ci_id r = i)
      in case fault of
           Some e \<Rightarrow> (Inl e, t)
         | None \<Rightarrow> (Inr (map_option ci_object_id (find P (ct_rows t))), t\<lparr>ct_rows := delete_where P (ct_rows t)\<rparr>))"

definition deleteCatalogItemGeneration ::
  "ops_env \<Rightarrow> namespace \<Rightarrow> int \<Rightarrow> int \<Rightarrow> embed_world \<Rightarrow> (go_error + unit) \<times> embed_world" where
  "deleteCatalogItemGeneration env ns g i w =
     (case repo_GetCatalogItem (oe_item env) ns i (ew_cat w) of
        Inl e \<Rightarrow> (Inl e, w)
      | Inr None \<Rightarrow> (Inr (), w)
      | Inr (Some item) \<Rightarrow>
          let points =
                (if \<not> oe_deleter env then (Inr (), ew_dense w)
                 else case LookupNumericObjectID (oe_lookup env) ns (cs_ObjectID item) (ew_ids w) of
                        Inl e \<Rightarrow> (Inl e, ew_dense w)
                      | Inr None \<Rightarrow> (Inr (), ew_dense w)
                      | Inr (Some pid) \<Rightarrow>
                          DeletePoint (oe_point env) (CollectionName (NewIncarnation ns g) CollectionObjectsDense) pid (ew_dense w))
          in case points of
               (Inl e, st) \<Rightarrow> (Inl e, w\<lparr>ew_dense := st\<rparr>)
             | (Inr _, st) \<Rightarrow>
                 (case repo_DeleteCatalogItem (oe_delete env) ns i (ew_items w) of
                    (Inl e, t) \<Rightarrow> (Inl e, with_items t (w\<lparr>ew_dense := st\<rparr>))
                  | (Inr _, t) \<Rightarrow> (Inr (), with_items t (w\<lparr>ew_dense := st\<rparr>))))"

definition DeleteCatalogItem ::
  "ops_env \<Rightarrow> lctx \<Rightarrow> namespace \<Rightarrow> int \<Rightarrow> embed_world \<Rightarrow> (go_error + unit) \<times> embed_world" where
  "DeleteCatalogItem env ctx ns i w =
     (case oe_lifecycle env of
        Some svc \<Rightarrow>
          fst (WithWriter svc ew_ledger ctx ns (\<lambda>leased current w. deleteCatalogItemGeneration env ns (lc_Generation current) i w) w)
      | None \<Rightarrow>
          (case namespaceGeneration env ns of
             Inl e \<Rightarrow> (Inl e, w)
           | Inr g \<Rightarrow> deleteCatalogItemGeneration env ns g i w))"

section \<open>Counting and history\<close>

definition GetLastCatalogEmbeddedAt :: "go_error option \<Rightarrow> namespace \<Rightarrow> catalog_table \<Rightarrow> go_error + time option" where
  "GetLastCatalogEmbeddedAt fault ns t =
     (let times = List.map_filter ci_embedded_at (filter (\<lambda>r. ci_namespace r = ns \<and> ci_state r = StateEmbedded) (ct_rows t))
      in case fault of Some e \<Rightarrow> Inl e | None \<Rightarrow> Inr (if times = [] then None else Some (Max (set times))))"

definition CountStaleCatalogItems :: "go_error option \<Rightarrow> namespace \<Rightarrow> string \<Rightarrow> string \<Rightarrow> catalog_table \<Rightarrow> go_error + nat" where
  "CountStaleCatalogItems fault ns sid sver t =
     (case fault of
        Some e \<Rightarrow> Inl e
      | None \<Rightarrow> Inr (length (filter (\<lambda>r. ci_namespace r = ns \<and> ci_state r \<in> {StatePending, StateInFlight, StateFailed}
                                \<and> off_target sid sver r) (ct_rows t))))"

record CatalogItemStateCounts =
  sc_Pending :: nat
  sc_InFlight :: nat
  sc_Embedded :: nat
  sc_Failed :: nat
  sc_DeadLetter :: nat

definition CountCatalogItemStates :: "go_error option \<Rightarrow> namespace \<Rightarrow> catalog_table \<Rightarrow> go_error + CatalogItemStateCounts" where
  "CountCatalogItemStates fault ns t =
     (case fault of
        Some e \<Rightarrow> Inl e
      | None \<Rightarrow> Inr \<lparr>sc_Pending = count_state ns StatePending t, sc_InFlight = count_state ns StateInFlight t,
                     sc_Embedded = count_state ns StateEmbedded t, sc_Failed = count_state ns StateFailed t,
                     sc_DeadLetter = count_state ns StateDeadLetter t\<rparr>)"

text \<open>The sample a bucket keeps: the largest backlog, the latest on ties.\<close>

definition sample_rank :: "backlog_sample \<Rightarrow> nat \<times> time" where
  "sample_rank s = (sm_pending s + sm_in_flight s + sm_failed s + sm_dead_letter s, sm_sampled_at s)"

definition GetCatalogBacklogHistory ::
  "go_error option \<Rightarrow> time \<Rightarrow> namespace \<Rightarrow> int \<Rightarrow> int \<Rightarrow> backlog_sample list \<Rightarrow> go_error + backlog_sample list" where
  "GetCatalogBacklogHistory fault now ns windowSeconds bucketSeconds t =
     (if windowSeconds \<le> 0 \<or> bucketSeconds < 0 then Inl (Failure ''invalid window/bucket seconds'')
      else case fault of
             Some e \<Rightarrow> Inl e
           | None \<Rightarrow>
               let rows = filter (\<lambda>s. sm_namespace s = ns \<and> now - seconds windowSeconds < sm_sampled_at s) t;
                   b = (\<lambda>s. bucket_of bucketSeconds (sm_sampled_at s))
               in Inr (if bucketSeconds = 0 then sort_key sm_sampled_at rows
                       else map (\<lambda>ts. (last (sort_key sample_rank (filter (\<lambda>s. b s = ts) rows)))\<lparr>sm_sampled_at := ts\<rparr>)
                              (sort (remdups (map b rows)))))"

record CatalogFailureReason =
  fr_Reason :: string
  fr_Count :: nat
  fr_SampleObjectID :: string

definition failure_reason :: "catalog_row \<Rightarrow> string" where
  "failure_reason r = (case ci_last_error r of None \<Rightarrow> ''<no error message>'' | Some e \<Rightarrow> e)"

text \<open>Reasons of equal count come in no promised order; here in the order of their first rows.\<close>

definition GetCatalogFailuresSummary ::
  "go_error option \<Rightarrow> time \<Rightarrow> namespace \<Rightarrow> int \<Rightarrow> int \<Rightarrow> catalog_table \<Rightarrow> go_error + CatalogFailureReason list" where
  "GetCatalogFailuresSummary fault now ns windowSeconds limit t =
     (if windowSeconds \<le> 0 then Inl (Failure ''invalid window seconds'')
      else case fault of
             Some e \<Rightarrow> Inl e
           | None \<Rightarrow>
               let lim = (if limit \<le> 0 then 10 else limit);
                   rows = filter (\<lambda>r. ci_namespace r = ns \<and> ci_state r \<in> {StateFailed, StateDeadLetter}
                              \<and> now - seconds windowSeconds < ci_updated_at r) (ct_rows t);
                   bucket = (\<lambda>reason. let rs = filter (\<lambda>r. failure_reason r = reason) rows
                      in \<lparr>fr_Reason = reason, fr_Count = length rs,
                          fr_SampleObjectID = ci_object_id (last (sort_key ci_updated_at rs))\<rparr>)
               in Inr (take (nat lim) (sort_key (\<lambda>b. - int (fr_Count b)) (map bucket (remdups (map failure_reason rows))))))"

section \<open>Operators keep the embedder's promise\<close>

lemma add_embed_entry_sel [simp]:
  "ew_items (add_embed_entry now ns g i oid sid sver w) = ew_items w" "ew_ledger (add_embed_entry now ns g i oid sid sver w) = ew_ledger w"
  "ew_ids (add_embed_entry now ns g i oid sid sver w) = ew_ids w" "ew_dense (add_embed_entry now ns g i oid sid sver w) = ew_dense w"
  "ew_cache (add_embed_entry now ns g i oid sid sver w) = ew_cache w"
  by (simp_all add: add_embed_entry_def)

lemma add_embed_entry_inv [simp]:
  "embed_inv hash build (add_embed_entry now ns g i oid sid sver w) = embed_inv hash build w"
  by (rule embed_inv_cong) simp_all

lemma publish_targets_sel [simp]:
  "ow_runs (publish_targets env ns g sid sver ts w) = ow_runs w" "ow_running (publish_targets env ns g sid sver ts w) = ow_running w"
  "ow_items (publish_targets env ns g sid sver ts w) = ow_items w"
  "embed_inv hash build (ow_embed (publish_targets env ns g sid sver ts w)) = embed_inv hash build (ow_embed w)"
  by (induction ts arbitrary: w) (simp_all add: publish_targets_def publishCatalogEnqueue_def split: option.split)

lemma publish_targets_entries:
  assumes "oe_redis env"
  shows "cw_streams (ew_cat (ow_embed (publish_targets env ns g sid sver ts w))) = cw_streams (ew_cat (ow_embed w)) @
     map (\<lambda>t. (generationStreamName ns g, \<lparr>ee_catalog_item_id = rt_ID t, ee_namespace = ns, ee_namespace_generation = g,
       ee_object_id = rt_ObjectID t, ee_strategy_id = sid, ee_strategy_version = sver, ee_enqueued_at = oe_now env\<rparr>))
       (filter (\<lambda>t. oe_xadd env (rt_ID t) = None) ts)"
  using assms
  by (induction ts arbitrary: w)
    (simp_all add: publish_targets_def publishCatalogEnqueue_def add_embed_entry_def split: option.split)

lemma moves_back [simp]: "moves_row (reembed_reset now)" "moves_row (redrive_row now)"
  by (simp_all add: moves_row_def reembed_reset_def redrive_row_def)

lemma update_ops_inv:
  assumes "embed_inv hash build (ow_embed w)" and "moves_row f" and "\<And>r. ci_state (f r) \<noteq> StateEmbedded"
  shows "embed_inv hash build (ow_embed (with_ops_items (update_items P f (ow_items w)) w))"
  using embed_inv_update [OF assms(1,2), of P] assms(3) by (simp add: with_ops_items_def)

lemma with_ops_items_id [simp]: "embed_inv hash build (ow_embed (with_ops_items (ow_items w) w)) = embed_inv hash build (ow_embed w)"
  unfolding with_ops_items_def by simp (rule embed_inv_cong, simp_all)

lemma StartReembedRun_cases:
  assumes "StartReembedRun env ns sid sver onlyState startedAt w = (res, w')"
  obtains (failed) e n where "res = Inl e" "w' = w\<lparr>ow_runs := (ow_runs w)\<lparr>rt_seq := n\<rparr>\<rparr>"
  | (started) "res = Inr (rt_seq (ow_runs w), map target_of (filter (reembed_selects onlyState ns sid sver) (ct_rows (ow_items w))))"
      "w' = (with_ops_items (update_items (reembed_selects onlyState ns sid sver) (reembed_reset (oe_now env)) (ow_items w)) w)
         \<lparr>ow_runs := snd (insert_reembed ns sid sver startedAt (ow_runs w))\<rparr>"
proof -
  have id: "w = w\<lparr>ow_runs := (ow_runs w)\<lparr>rt_seq := rt_seq (ow_runs w)\<rparr>\<rparr>" by simp
  show ?thesis
  proof (cases "oe_begin env")
    case (Some e)
    then have "res = Inl e" "w' = w" using assms by (simp_all add: StartReembedRun_def)
    with id failed show ?thesis by metis
  next
    case begun: None
    show ?thesis
    proof (cases "oe_insert env")
      case (Some e)
      then have "res = Inl e" "w' = w" using assms begun by (simp_all add: StartReembedRun_def InsertReembedRun_def)
      with id failed show ?thesis by metis
    next
      case None
      have "(\<exists>e. res = Inl e) \<and> w' = w\<lparr>ow_runs := (ow_runs w)\<lparr>rt_seq := rt_seq (ow_runs w) + 1\<rparr>\<rparr> \<or>
        res = Inr (rt_seq (ow_runs w), map target_of (filter (reembed_selects onlyState ns sid sver) (ct_rows (ow_items w)))) \<and>
        w' = (with_ops_items (update_items (reembed_selects onlyState ns sid sver) (reembed_reset (oe_now env)) (ow_items w)) w)
           \<lparr>ow_runs := snd (insert_reembed ns sid sver startedAt (ow_runs w))\<rparr>"
        using assms begun None
        by (cases "oe_reset env"; cases "oe_commit env")
          (auto simp: StartReembedRun_def InsertReembedRun_def insert_reembed_def SelectAndResetStaleCatalogItems_def Let_def)
      then show ?thesis using failed started by metis
    qed
  qed
qed

lemma StartReembedRun_inv:
  assumes "embed_inv hash build (ow_embed w)" and "StartReembedRun env ns sid sver onlyState startedAt w = (res, w')"
  shows "embed_inv hash build (ow_embed w')"
  using assms(2)
proof (cases rule: StartReembedRun_cases)
  case started
  show ?thesis unfolding started(2) using update_ops_inv [OF assms(1) moves_back(1)] by (simp add: reembed_reset_def)
qed (use assms(1) in simp)

text \<open>Other sessions act between the check and the start; here only on the run log.\<close>

definition runs_between :: "ops_env \<Rightarrow> bool" where
  "runs_between env \<longleftrightarrow> (\<forall>w. ow_embed (oe_between env w) = ow_embed w)"

lemma TriggerReEmbed_cases:
  assumes "TriggerReEmbed env ns onlyState w = (res, w')"
  obtains (refused) "w' = w" "\<And>x. res \<noteq> Inr (Some x)"
  | (claimed) get sid sver g w1 where "oe_picker env = Some get" "GetCatalogStrategy get ns = Inr (Some (sid, sver, g))"
      "sver \<noteq> []" "ns \<notin> set (ow_running w)"
      "reembed_claimed env ns onlyState sid sver g (w\<lparr>ow_running := ns # ow_running w\<rparr>) = (res, w1)"
      "w' = w1\<lparr>ow_running := filter (\<lambda>n. n \<noteq> ns) (ow_running w1)\<rparr>"
proof -
  have "w' = w \<and> (\<forall>x. res \<noteq> Inr (Some x)) \<or> (\<exists>get sid sver g w1. oe_picker env = Some get
      \<and> GetCatalogStrategy get ns = Inr (Some (sid, sver, g)) \<and> sver \<noteq> [] \<and> ns \<notin> set (ow_running w)
      \<and> reembed_claimed env ns onlyState sid sver g (w\<lparr>ow_running := ns # ow_running w\<rparr>) = (res, w1)
      \<and> w' = w1\<lparr>ow_running := filter (\<lambda>n. n \<noteq> ns) (ow_running w1)\<rparr>)"
    using assms by (auto simp: TriggerReEmbed_def split: option.splits sum.splits if_splits prod.splits)
  then show ?thesis using refused claimed by blast
qed

lemma TriggerReEmbed_inv:
  assumes "embed_inv hash build (ow_embed w)" and "runs_between env" and "TriggerReEmbed env ns onlyState w = (res, w')"
  shows "embed_inv hash build (ow_embed w')"
  using assms(3)
proof (cases rule: TriggerReEmbed_cases)
  case (claimed get sid sver g w1)
  let ?w = "w\<lparr>ow_running := ns # ow_running w\<rparr>"
  have "embed_inv hash build (ow_embed (oe_between env ?w))" using assms(1,2) by (simp add: runs_between_def)
  note start = StartReembedRun_inv [OF this]
  obtain r w2 where "StartReembedRun env ns sid sver onlyState (oe_now env) (oe_between env ?w) = (r, w2)" by fastforce
  with start claimed(5) assms(1) have "embed_inv hash build (ow_embed w1)"
    by (auto simp: reembed_claimed_def split: sum.splits option.splits prod.splits)
  then show ?thesis by (simp add: claimed(6))
qed (use assms(1) in simp)

lemma RedriveCatalogItem_inv:
  assumes "embed_inv hash build (ow_embed w)"
  shows "embed_inv hash build (ow_embed (snd (RedriveCatalogItem env ns i w)))"
proof -
  obtain r t where t: "repo_RedriveCatalogItem (oe_redrive env) (oe_now env) ns i (ow_items w) = (r, t)" by fastforce
  have "embed_inv hash build (ow_embed (with_ops_items t w))"
    using t assms update_ops_inv [OF assms moves_back(2)]
    by (cases "oe_redrive env") (auto simp: repo_RedriveCatalogItem_def redrive_row_def Let_def)
  with t assms show ?thesis by (auto simp: RedriveCatalogItem_def split: option.split sum.split prod.split)
qed

lemma BulkRedriveDeadletter_inv:
  assumes "embed_inv hash build (ow_embed w)"
  shows "embed_inv hash build (ow_embed (snd (BulkRedriveDeadletter env ns w)))"
proof -
  obtain r t where t: "repo_BulkRedriveDeadletter (oe_redrive env) (oe_now env) ns (ow_items w) = (r, t)" by fastforce
  have "embed_inv hash build (ow_embed (with_ops_items t w))"
    using t assms update_ops_inv [OF assms moves_back(2)]
    by (cases "oe_redrive env") (auto simp: repo_BulkRedriveDeadletter_def redrive_row_def Let_def)
  with t assms show ?thesis by (auto simp: BulkRedriveDeadletter_def split: option.split sum.split prod.split)
qed

lemma delete_rows_inv:
  assumes inv: "embed_inv hash build w" and r: "item_row (ew_items w) i = Some r" "ci_namespace r = ns"
    and pts: "ds_points st = ds_points (ew_dense w) \<or>
      (\<exists>pid. id_of (ew_ids w) ns ''object'' (ci_object_id r) = Some pid \<and> (\<forall>c q. q \<noteq> pid \<longrightarrow> ds_points st (c, q) = ds_points (ew_dense w) (c, q)))"
  shows "embed_inv hash build (with_items ((ew_items w)\<lparr>ct_rows := delete_where (\<lambda>r. ci_namespace r = ns \<and> ci_id r = i) (ct_rows (ew_items w))\<rparr>)
           (w\<lparr>ew_dense := st\<rparr>))"
proof -
  let ?rows = "delete_where (\<lambda>r. ci_namespace r = ns \<and> ci_id r = i) (ct_rows (ew_items w))"
  have wf: "catalog_wf (ew_items w)" "idmap_wf (ew_ids w)" using inv by (simp_all add: embed_inv_def)
  have "item_ok hash build (ew_ledger w) (ew_ids w) (ds_points st) x" if x: "x \<in> set ?rows" for x
  proof -
    have ok: "item_ok hash build (ew_ledger w) (ew_ids w) (ds_points (ew_dense w)) x"
      using inv x by (auto simp: embed_inv_def list_all_iff delete_where_def)
    have key: "(ci_namespace x, ci_object_id x) \<noteq> (ns, ci_object_id r)"
    proof
      assume eq: "(ci_namespace x, ci_object_id x) = (ns, ci_object_id r)"
      have "x \<in> set (ct_rows (ew_items w))" "r \<in> set (ct_rows (ew_items w))" "ci_id r = i"
        using x lookup_row_SomeD [OF r(1)] by (auto simp: delete_where_def)
      moreover from this eq r(2) have "x = r"
        using wf(1) by (auto simp: catalog_wf_def keyed_def distinct_map inj_on_def item_key_def)
      ultimately show False using x r(2) by (simp add: delete_where_def)
    qed
    from pts show ?thesis
    proof
      assume "\<exists>pid. id_of (ew_ids w) ns ''object'' (ci_object_id r) = Some pid
        \<and> (\<forall>c q. q \<noteq> pid \<longrightarrow> ds_points st (c, q) = ds_points (ew_dense w) (c, q))"
      then obtain pid where "id_of (ew_ids w) ns ''object'' (ci_object_id r) = Some pid"
        and "\<And>c q. q \<noteq> pid \<Longrightarrow> ds_points st (c, q) = ds_points (ew_dense w) (c, q)" by blast
      from item_ok_points [OF wf(2) this _ ok] key show ?thesis by blast
    qed (use ok in simp)
  qed
  moreover have "catalog_wf ((ew_items w)\<lparr>ct_rows := ?rows\<rparr>)"
    using wf(1) by (auto simp: catalog_wf_def list_all_iff) (auto simp: delete_where_def)
  ultimately show ?thesis using inv by (simp add: embed_inv_def list_all_iff)
qed

lemma deleteCatalogItemGeneration_inv:
  assumes inv: "embed_inv hash build w" and del: "oe_delete env = None"
  shows "embed_inv hash build (snd (deleteCatalogItemGeneration env ns g i w))"
proof (cases "repo_GetCatalogItem (oe_item env) ns i (ew_cat w)")
  case (Inl e)
  with inv show ?thesis by (simp add: deleteCatalogItemGeneration_def)
next
  case (Inr found)
  show ?thesis
  proof (cases found)
    case None
    with Inr inv show ?thesis by (simp add: deleteCatalogItemGeneration_def)
  next
    case (Some item)
    with Inr obtain r where r: "item_row (ew_items w) i = Some r" "ci_namespace r = ns" and item: "cs_ObjectID item = ci_object_id r"
      by (auto simp: repo_GetCatalogItem_def item_detail_def split: option.splits if_splits)
    define points where "points = (if \<not> oe_deleter env then (Inr (), ew_dense w)
       else case LookupNumericObjectID (oe_lookup env) ns (cs_ObjectID item) (ew_ids w) of
              Inl e \<Rightarrow> (Inl e, ew_dense w)
            | Inr None \<Rightarrow> (Inr (), ew_dense w)
            | Inr (Some pid) \<Rightarrow>
                DeletePoint (oe_point env) (CollectionName (NewIncarnation ns g) CollectionObjectsDense) pid (ew_dense w))"
    obtain res st where pst: "points = (res, st)" by fastforce
    have pts: "ds_points st = ds_points (ew_dense w) \<or>
      (\<exists>pid. id_of (ew_ids w) ns ''object'' (ci_object_id r) = Some pid \<and> (\<forall>c q. q \<noteq> pid \<longrightarrow> ds_points st (c, q) = ds_points (ew_dense w) (c, q)))"
      using pst unfolding points_def item by (auto simp: LookupNumericObjectID_def DeletePoint_def split: if_splits option.splits sum.splits)
    have failed: "ds_points st = ds_points (ew_dense w)" if "res = Inl e" for e
      using pst that unfolding points_def by (auto simp: DeletePoint_def split: if_splits option.splits sum.splits)
    show ?thesis
    proof (cases res)
      case (Inl e)
      have "embed_inv hash build (w\<lparr>ew_dense := st\<rparr>) = embed_inv hash build w"
        using failed [OF Inl] by (intro embed_inv_cong) simp_all
      with inv Inr Some pst Inl show ?thesis
        by (simp add: deleteCatalogItemGeneration_def points_def [symmetric] Let_def)
    next
      case (Inr u)
      with delete_rows_inv [OF inv r pts] \<open>repo_GetCatalogItem (oe_item env) ns i (ew_cat w) = Inr found\<close> Some pst del show ?thesis
        by (simp add: deleteCatalogItemGeneration_def points_def [symmetric] repo_DeleteCatalogItem_def Let_def)
    qed
  qed
qed

lemma DeleteCatalogItem_inv:
  assumes "embed_inv hash build w" and "oe_delete env = None"
  shows "embed_inv hash build (snd (DeleteCatalogItem env ctx ns i w))"
proof (cases "oe_lifecycle env")
  case None
  with assms deleteCatalogItemGeneration_inv [OF assms] show ?thesis by (auto simp: DeleteCatalogItem_def split: sum.split)
next
  case (Some svc)
  have "embed_inv hash build (snd (fst (WithWriter svc ew_ledger ctx ns
      (\<lambda>leased current w. deleteCatalogItemGeneration env ns (lc_Generation current) i w) w)))"
    by (rule fence.keeps) (simp_all add: assms deleteCatalogItemGeneration_inv)
  with Some show ?thesis by (simp add: DeleteCatalogItem_def)
qed

end
