(* ===== verification/Embed_Pipeline.thy ===== *)
theory Embed_Pipeline
  imports Catalog_Embedder
begin

text \<open>
  What the embedder achieves and where it falls short, on the model of \<open>Catalog_Embedder\<close>: the
  entry that leaves the catalog is the one the embedder reads; an undisturbed delivery embeds; the
  attempt budget ends every retry; and two schedules in which the acknowledgement or the stored
  vector is wrong.
\<close>

section \<open>The entry on the wire\<close>

text \<open>
  The message a consumer reads for a published entry: Redis keeps every value as text, integers in
  decimal; \<open>fmt_time\<close> is the RFC 3339 rendering of the enqueue time.
\<close>

definition entry_message :: "(time \<Rightarrow> string) \<Rightarrow> string \<Rightarrow> embed_entry \<Rightarrow> XMessage" where
  "entry_message fmt_time mid e =
     \<lparr>xm_ID = mid, xm_Values =
        [(''catalog_item_id'', GoString (show_int (ee_catalog_item_id e))), (''namespace'', GoString (ee_namespace e)),
         (''namespace_generation'', GoString (show_int (ee_namespace_generation e))),
         (''object_id'', GoString (ee_object_id e)), (''strategy_id'', GoString (ee_strategy_id e)),
         (''strategy_version'', GoString (ee_strategy_version e)),
         (''enqueued_at'', GoString (fmt_time (ee_enqueued_at e)))]\<rparr>"

lemma parse_int64_show_int:
  assumes "int64 i"
  shows "parse_int64 (show_int i) = Some i"
proof (cases "i < 0")
  case True
  then show ?thesis using assms
    by (simp add: show_int_def parse_int64_def parse_digits_show_nat int64_def nat_le_iff)
next
  case False
  obtain c cs where c: "show_nat (nat i) = c # cs" by (cases "show_nat (nat i)") auto
  moreover have "\<not> is_digit (CHR ''-'')" "\<not> is_digit (CHR ''+'')" by code_simp+
  ultimately have "c \<noteq> CHR ''-''" "c \<noteq> CHR ''+''" using show_nat_digits [of "nat i"] by auto
  with c False assms parse_digits_show_nat [of "nat i"] show ?thesis
    by (simp add: show_int_def parse_int64_def int64_def nat_less_iff)
qed

lemma show_int_not_Nil [simp]: "show_int i \<noteq> []"
  by (simp add: show_int_def)

section \<open>An undisturbed delivery\<close>

text \<open>The entry the catalog publishes for a row is the entry the embedder decodes, field by field:
  the row id, the stamped generation and the informational fields all survive the wire, for every
  64-bit id and generation from 1 on.\<close>

lemma embed_entry_roundtrip:
  assumes "int64 (ee_catalog_item_id e)" and "int64 (ee_namespace_generation e)" and "1 \<le> ee_namespace_generation e"
    and "fmt_time (ee_enqueued_at e) \<noteq> []" and "parse_time (fmt_time (ee_enqueued_at e)) = Some (ee_enqueued_at e)"
  shows "DecodeStreamEntry parse_time (entry_message fmt_time mid e) = Inr
    \<lparr>se_EntryID = mid, se_CatalogItemID = ee_catalog_item_id e, se_Namespace = ee_namespace e,
     se_NamespaceGeneration = Some (ee_namespace_generation e), se_ObjectID = ee_object_id e,
     se_StrategyID = ee_strategy_id e, se_StrategyVer = ee_strategy_version e, se_EnqueuedAt = ee_enqueued_at e\<rparr>"
  using assms by (simp add: DecodeStreamEntry_def entry_message_def parse_int64_show_int stringField_def Let_def)

lemma ensure_collections_ok:
  assumes "\<And>n. qe_exists env n = None" and "\<And>n. qe_create env n = None"
  shows "\<exists>st'. ensure_collections env config names st = (Inr (), st') \<and> ds_points st' = ds_points st
     \<and> (\<forall>n. ds_collections st' n =
          (case ds_collections st n of Some c \<Rightarrow> Some c | None \<Rightarrow> if n \<in> set names then Some config else None))"
proof (induction names arbitrary: st)
  case (Cons name names)
  show ?case
  proof (cases "ds_collections st name")
    case (Some c)
    with Cons [of st] assms show ?thesis by (auto split: option.split)
  next
    case None
    let ?st = "st\<lparr>ds_collections := (ds_collections st)(name \<mapsto> config)\<rparr>"
    from Cons [of ?st] obtain st' where st': "ensure_collections env config names ?st = (Inr (), st')"
      "ds_points st' = ds_points ?st"
      "\<forall>n. ds_collections st' n = (case ds_collections ?st n of Some c \<Rightarrow> Some c | None \<Rightarrow> if n \<in> set names then Some config else None)"
      by blast
    with None assms show ?thesis by (auto simp: createCollection_def split: option.split)
  qed
qed (auto split: option.split)

lemma GetOrCreate_quiet:
  assumes "idt_seq t \<le> numeric_id_max" and "is_ok (RequireNamespaceLease ctx ns)"
  shows "\<exists>pid t'. GetOrCreate quiet_ids ctx sid ns entity t = (Inr pid, t') \<and> idt_seq t' \<le> idt_seq t + 1"
  using assms by (cases "RequireNamespaceLease ctx ns"; cases "id_of t ns entity sid")
    (auto simp: GetOrCreate_def GetOrCreateBatch_def LookupBatch_def missingFrom_def quiet_ids_def Let_def)

definition quiet_env :: "embed_env \<Rightarrow> bool" where
  "quiet_env env \<longleftrightarrow> ev_lifecycle env = Some healthy \<and> ev_load env = None \<and> ev_in_flight env = None
     \<and> ev_mark_embedded env = None \<and> ev_ctx env = None \<and> ev_ids env = quiet_ids
     \<and> (\<forall>n. qe_exists (ev_qdrant env) n = None) \<and> (\<forall>n. qe_create (ev_qdrant env) n = None)
     \<and> qe_upsert (ev_qdrant env) = None \<and> ev_envelope env = None \<and> ev_ack env = None"

text \<open>
  The namespace of the row is active at a generation, its configuration names a strategy that can
  be built and embeds the row's content at the configured dimension, the attempt budget is not
  used up, the collection is missing or fits, and numeric ids are left.
\<close>

definition namespace_active :: "ledger \<Rightarrow> namespace \<Rightarrow> int \<Rightarrow> bool" where
  "namespace_active L ns g \<longleftrightarrow> sys_state (system_lifecycle L) = SystemActive \<and> 1 \<le> g
     \<and> (\<exists>lc. GetNamespace None ns L = Inr lc \<and> lc_State lc = StateActive \<and> lc_Generation lc = g)"

definition strategy_ready :: "embed_env \<Rightarrow> Config \<Rightarrow> strategy \<Rightarrow> namespace \<Rightarrow> embed_world \<Rightarrow> bool" where
  "strategy_ready env cfg s ns w \<longleftrightarrow>
     (let sid = cfg_CatalogStrategyID cfg; ver = cfg_CatalogStrategyVersion cfg; ps = cfg_CatalogStrategyParams cfg
      in ev_build env sid ver ps = Inr s
         \<and> (\<exists>key. strategyCacheKey env sid ver ps = Inr key \<and> (\<forall>s'. ew_cache w ns = Some (key, s') \<longrightarrow> s' = s)))"

definition collection_fits :: "Config \<Rightarrow> namespace \<Rightarrow> int \<Rightarrow> embed_world \<Rightarrow> bool" where
  "collection_fits cfg ns g w \<longleftrightarrow>
     (let inc = NewIncarnation ns g; name = CollectionName inc CollectionObjectsDense;
          distance = (if cfg_DenseDistance cfg = [] then ''cosine'' else cfg_DenseDistance cfg)
      in 0 \<le> cfg_EmbeddingDim cfg \<and> cfg_EmbeddingDim cfg < 2 ^ 64
         \<and> (ds_collections (ew_dense w) name = None \<and> ensure_key inc (cfg_EmbeddingDim cfg) distance \<notin> set (ew_ensured w)
            \<or> (\<exists>metric. ds_collections (ew_dense w) name = Some (DenseCollection (cfg_EmbeddingDim cfg) metric))))"

definition embeddable :: "embed_env \<Rightarrow> Config \<Rightarrow> strategy \<Rightarrow> real list \<Rightarrow> int \<Rightarrow> embed_world \<Rightarrow> catalog_row \<Rightarrow> bool" where
  "embeddable env cfg s vec g w r \<longleftrightarrow>
     namespace_active (ew_ledger w) (ci_namespace r) g
     \<and> (\<forall>ctx. ev_get env ctx (ci_namespace r) = Inr (Some cfg)) \<and> cfg_DenseSource cfg = DenseSourceCatalog
     \<and> ci_state r \<noteq> StateEmbedded \<and> ci_attempt_count r < max_attempts env cfg
     \<and> strategy_ready env cfg s (ci_namespace r) w
     \<and> st_Embed s None (ci_content r) = Inr vec \<and> int (length vec) = cfg_EmbeddingDim cfg
     \<and> collection_fits cfg (ci_namespace r) g w \<and> idt_seq (ew_ids w) \<le> numeric_id_max"

lemma resolveStrategy_ready:
  assumes "strategy_ready env cfg s ns w"
  shows "\<exists>c. resolveStrategy env ns cfg w = (Inr s, w\<lparr>ew_cache := c\<rparr>) \<and> (\<forall>w'. ew_cache w' = c \<longrightarrow> strategy_ready env cfg s ns w')"
proof -
  from assms obtain key where key: "strategyCacheKey env (cfg_CatalogStrategyID cfg) (cfg_CatalogStrategyVersion cfg)
      (cfg_CatalogStrategyParams cfg) = Inr key" "\<forall>s'. ew_cache w ns = Some (key, s') \<longrightarrow> s' = s"
    "ev_build env (cfg_CatalogStrategyID cfg) (cfg_CatalogStrategyVersion cfg) (cfg_CatalogStrategyParams cfg) = Inr s"
    by (auto simp: strategy_ready_def Let_def)
  then have new: "strategy_ready env cfg s ns w'" if "ew_cache w' ns = Some (key, s)" for w'
    using that by (simp add: strategy_ready_def Let_def)
  show ?thesis
  proof (cases "ew_cache w ns = Some (key, s)")
    case True
    with new key(1) show ?thesis by (intro exI [of _ "ew_cache w"]) (simp add: resolveStrategy_def)
  next
    case False
    then have "\<forall>s'. ew_cache w ns \<noteq> Some (key, s')" using key(2) by auto
    then have "resolveStrategy env ns cfg w = (Inr s, w\<lparr>ew_cache := (ew_cache w)(ns \<mapsto> (key, s))\<rparr>)"
      using key(1,3) by (auto simp: resolveStrategy_def split: option.split)
    with new show ?thesis by (intro exI [of _ "(ew_cache w)(ns \<mapsto> (key, s))"]) simp
  qed
qed

lemma ensure_ready:
  assumes "quiet_env env" and "collection_fits cfg ns g w" and "resolveIncarnation ctx ns cfg = NewIncarnation ns g"
  shows "\<exists>st ens. ensureNamespaceCollections env ctx ns cfg w = (Inr (), w\<lparr>ew_dense := st, ew_ensured := ens\<rparr>)
    \<and> ds_points st = ds_points (ew_dense w)
    \<and> (\<exists>metric. ds_collections st (CollectionName (NewIncarnation ns g) CollectionObjectsDense)
         = Some (DenseCollection (cfg_EmbeddingDim cfg) metric))"
proof -
  let ?inc = "NewIncarnation ns g"
  define distance where "distance = (if cfg_DenseDistance cfg = [] then ''cosine'' else cfg_DenseDistance cfg)"
  have d: "cfg_EmbeddingDim cfg mod 2 ^ 64 = cfg_EmbeddingDim cfg"
    using assms(2) by (simp add: collection_fits_def Let_def)
  have fits: "ds_collections (ew_dense w) (CollectionName ?inc CollectionObjectsDense) = None
        \<and> ensure_key ?inc (cfg_EmbeddingDim cfg) distance \<notin> set (ew_ensured w)
      \<or> (\<exists>metric. ds_collections (ew_dense w) (CollectionName ?inc CollectionObjectsDense) = Some (DenseCollection (cfg_EmbeddingDim cfg) metric))"
    using assms(2) by (simp add: collection_fits_def Let_def distance_def)
  obtain st where st: "EnsureDenseCollections (ev_qdrant env) ?inc (cfg_EmbeddingDim cfg) distance (ew_dense w) = (Inr (), st)"
    "ds_points st = ds_points (ew_dense w)"
    "ds_collections st (CollectionName ?inc CollectionObjectsDense) =
       (case ds_collections (ew_dense w) (CollectionName ?inc CollectionObjectsDense) of
          Some c \<Rightarrow> Some c | None \<Rightarrow> Some (DenseCollection (cfg_EmbeddingDim cfg) (resolveDenseDistance distance)))"
    using ensure_collections_ok [of "ev_qdrant env" "DenseCollection (cfg_EmbeddingDim cfg) (resolveDenseDistance distance)"
        "map (CollectionName ?inc) [CollectionObjectsDense, CollectionSubjectsDense]" "ew_dense w"] assms(1)
    by (auto simp: EnsureDenseCollections_def quiet_env_def)
  have w: "w = w\<lparr>ew_dense := ew_dense w, ew_ensured := ew_ensured w\<rparr>" by simp
  show ?thesis
  proof (cases "ensure_key ?inc (cfg_EmbeddingDim cfg) distance \<in> set (ew_ensured w)")
    case True
    then have "ensureNamespaceCollections env ctx ns cfg w = (Inr (), w\<lparr>ew_dense := ew_dense w, ew_ensured := ew_ensured w\<rparr>)"
      unfolding ensureNamespaceCollections_def Let_def assms(3) d distance_def [symmetric] by simp
    with fits True show ?thesis by blast
  next
    case False
    then have "ensureNamespaceCollections env ctx ns cfg w
        = (Inr (), w\<lparr>ew_dense := st, ew_ensured := ensure_key ?inc (cfg_EmbeddingDim cfg) distance # ew_ensured w\<rparr>)"
      unfolding ensureNamespaceCollections_def Let_def assms(3) d distance_def [symmetric] by (simp add: st(1))
    with fits st(2,3) show ?thesis by (auto split: option.splits)
  qed
qed

lemma rows_affected_pos: "x \<in> set t \<Longrightarrow> P x \<Longrightarrow> rows_affected P t \<noteq> 0"
  by (auto simp: rows_affected_def filter_empty_conv)

text \<open>
  The first part under these conditions: the row is claimed, with one attempt more, and the
  vector and the point id are handed on; only the id mappings and the process's caches change.
\<close>

lemma prepare_item_ready:
  assumes quiet: "quiet_env env" and ready: "embeddable env cfg s vec g w r" and row: "item_row (ew_items w) i = Some r"
    and lease: "leased ctx (ci_namespace r) g" and wf: "idmap_wf (ew_ids w)"
  shows "\<exists>pid w1. prepare_item env ctx (pending_item r) w
        = (Inr \<lparr>em_cfg = cfg, em_strategy = s, em_vector = vec, em_point = pid\<rparr>, w1)
    \<and> ew_items w1 = update_items (\<lambda>r. ci_id r = i) (in_flight_row (ev_now env)) (ew_items w)
    \<and> id_of (ew_ids w1) (ci_namespace r) ''object'' (ci_object_id r) = Some pid \<and> id_extends (ew_ids w) (ew_ids w1)
    \<and> ds_points (ew_dense w1) = ds_points (ew_dense w)
    \<and> (\<exists>metric. ds_collections (ew_dense w1) (CollectionName (NewIncarnation (ci_namespace r) g) CollectionObjectsDense)
         = Some (DenseCollection (cfg_EmbeddingDim cfg) metric))
    \<and> strategy_ready env cfg s (ci_namespace r) w1 \<and> idmap_wf (ew_ids w1) \<and> idt_seq (ew_ids w1) \<le> idt_seq (ew_ids w) + 1"
proof -
  let ?item = "pending_item r" and ?ns = "ci_namespace r"
  have id: "ci_id r = i" using lookup_row_key [OF row] .
  have sel: "pi_ID ?item = i" "pi_Namespace ?item = ?ns" "pi_ObjectID ?item = ci_object_id r" "pi_Content ?item = ci_content r"
    "pi_State ?item = ci_state r" by (simp_all add: pending_item_def id)
  have g: "1 \<le> g" using ready by (simp add: embeddable_def namespace_active_def)
  then have lok: "is_ok (RequireNamespaceLease ctx ?ns)" using lease by (auto simp: leased_def RequireNamespaceLease_def)
  have inc: "resolveIncarnation ctx ?ns c = NewIncarnation ?ns g" for c by (rule resolveIncarnation_leased [OF lease lok])
  define t where "t = update_items (\<lambda>r. ci_id r = i) (in_flight_row (ev_now env)) (ew_items w)"
  define w1 where "w1 = publishItemStateChanged env ctx ?item ''pending'' ''in_flight'' (with_items t w)"
  have mark: "MarkInFlight (ev_in_flight env) (ev_now env) i (ew_items w) = (Inr (ci_attempt_count r + 1), t)"
    using quiet row by (simp add: MarkInFlight_def quiet_env_def t_def in_flight_row_def)
  have "prepare_item env ctx ?item w = embed_item env ctx ?item cfg w1"
    using ready mark by (simp add: prepare_item_def embeddable_def sel w1_def Let_def)
  moreover obtain c where two: "resolveStrategy env ?ns cfg w1 = (Inr s, w1\<lparr>ew_cache := c\<rparr>)"
    and cached: "\<And>w'. ew_cache w' = c \<Longrightarrow> strategy_ready env cfg s ?ns w'"
    using resolveStrategy_ready [of env cfg s ?ns w1] ready
    by (auto simp: embeddable_def w1_def strategy_ready_def [of _ _ _ _ "publishItemStateChanged _ _ _ _ _ _"]
        strategy_ready_def [of _ _ _ _ w] Let_def)
  let ?w2 = "w1\<lparr>ew_cache := c\<rparr>"
  have fits: "collection_fits cfg ?ns g ?w2"
  proof -
    have "ew_dense ?w2 = ew_dense w" "ew_ensured ?w2 = ew_ensured w"
      by (simp_all add: w1_def publishItemStateChanged_def with_items_def Let_def)
    moreover have "collection_fits cfg ?ns g w" using ready by (simp add: embeddable_def)
    ultimately show ?thesis by (simp only: collection_fits_def)
  qed
  obtain st ens where three: "ensureNamespaceCollections env ctx ?ns cfg ?w2 = (Inr (), ?w2\<lparr>ew_dense := st, ew_ensured := ens\<rparr>)"
    "ds_points st = ds_points (ew_dense ?w2)"
    "\<exists>metric. ds_collections st (CollectionName (NewIncarnation ?ns g) CollectionObjectsDense) = Some (DenseCollection (cfg_EmbeddingDim cfg) metric)"
    using ensure_ready [OF quiet fits inc] by blast
  have ids: "ew_ids ?w2 = ew_ids w" "ew_items ?w2 = t" "ew_dense ?w2 = ew_dense w" by (simp_all add: w1_def)
  have seq: "idt_seq (ew_ids w) \<le> numeric_id_max" using ready by (simp add: embeddable_def)
  obtain pid t' where four: "GetOrCreate quiet_ids ctx (ci_object_id r) ?ns ''object'' (ew_ids w) = (Inr pid, t')" "idt_seq t' \<le> idt_seq (ew_ids w) + 1"
    using GetOrCreate_quiet [OF seq lok] by blast
  note ids' = GetOrCreate_result [OF quiet_ids_adds wf four(1)]
  have "embed_item env ctx ?item cfg w1 = (Inr \<lparr>em_cfg = cfg, em_strategy = s, em_vector = vec, em_point = pid\<rparr>,
      ?w2\<lparr>ew_dense := st, ew_ensured := ens, ew_ids := t'\<rparr>)"
    using ready quiet two three(1) four(1) ids
    by (simp add: embed_item_def sel embeddable_def quiet_env_def GetOrCreateObjectID_def)
  moreover have "strategy_ready env cfg s ?ns (?w2\<lparr>ew_dense := st, ew_ensured := ens, ew_ids := t'\<rparr>)" by (rule cached) simp
  moreover have "idmap_wf t'" using ids' wf by (simp add: id_extends_def)
  ultimately show ?thesis using ids' three(2,3) ids four(2) by (auto simp: t_def)
qed

text \<open>The second part on a row that still has the content: the point is stored and the row embedded.\<close>

lemma commit_item_ready:
  assumes quiet: "quiet_env env" and lease: "leased ctx (pi_Namespace item) g" "1 \<le> g"
    and coll: "ds_collections (ew_dense w) (CollectionName (NewIncarnation (pi_Namespace item) g) CollectionObjectsDense)
        = Some (DenseCollection (int (length (em_vector em))) metric)"
    and row: "item_row (ew_items w) (pi_ID item) = Some r" "ci_content_hash r = pi_ContentHash item"
  shows "\<exists>w'. commit_item env ctx item em w = ((OutcomeEmbedded, None), w')
    \<and> ds_points (ew_dense w') = (ds_points (ew_dense w))((CollectionName (NewIncarnation (pi_Namespace item) g) CollectionObjectsDense,
         em_point em) \<mapsto> item_point env item (em_strategy em) (ev_clock env) (em_vector em))
    \<and> ew_items w' = update_items (\<lambda>r. ci_id r = pi_ID item \<and> ci_content_hash r = pi_ContentHash item)
         (embedded_row (ev_now env) (st_ID (em_strategy em)) (st_Version (em_strategy em)) (ev_clock env)) (ew_items w)
    \<and> ew_ids w' = ew_ids w \<and> ds_collections (ew_dense w') = ds_collections (ew_dense w)"
proof -
  have lok: "is_ok (RequireNamespaceLease ctx (pi_Namespace item))" using lease by (auto simp: leased_def RequireNamespaceLease_def)
  have inc: "resolveIncarnation ctx (pi_Namespace item) (em_cfg em) = NewIncarnation (pi_Namespace item) g"
    by (rule resolveIncarnation_leased [OF lease(1) lok])
  have up: "point_upsert (ev_qdrant env) (CollectionName (NewIncarnation (pi_Namespace item) g) CollectionObjectsDense) (em_point em)
      (item_point env item (em_strategy em) (ev_clock env) (em_vector em)) (ew_dense w)
    = (Inr (), (ew_dense w)\<lparr>ds_points := (ds_points (ew_dense w))((CollectionName (NewIncarnation (pi_Namespace item) g) CollectionObjectsDense,
         em_point em) \<mapsto> item_point env item (em_strategy em) (ev_clock env) (em_vector em))\<rparr>)"
    using quiet coll by (simp add: point_upsert_def quiet_env_def item_point_def)
  have "r \<in> set (ct_rows (ew_items w))" "ci_id r = pi_ID item" using lookup_row_SomeD [OF row(1)] by auto
  then have "rows_affected (\<lambda>r. ci_id r = pi_ID item \<and> ci_content_hash r = pi_ContentHash item) (ct_rows (ew_items w)) \<noteq> 0"
    using row(2) by (intro rows_affected_pos [of r]) simp_all
  then show ?thesis
    using quiet by (simp add: commit_item_def upsertVector_def inc up MarkEmbedded_def exec_update_def quiet_env_def Let_def)
qed

lemma namespace_active_writer:
  assumes "namespace_active (led x) ns g" and "ctx_lease ctx = None"
  shows "\<exists>lc ctx'. fst (WithWriter healthy led ctx ns fn x) = fn ctx' lc x \<and> leased ctx' ns g"
proof -
  from assms(1) obtain lc where "sys_state (system_lifecycle (led x)) = SystemActive"
    "GetNamespace None ns (led x) = Inr lc" "lc_State lc = StateActive" "lc_Generation lc = g"
    by (auto simp: namespace_active_def)
  with writer_healthy [of ctx led x ns lc fn] assms(2)
  have "fst (WithWriter healthy led ctx ns fn x) = fn (with_lease ctx ns g LockShared) lc x" by simp
  moreover have "leased (with_lease ctx ns g LockShared) ns g" by (simp add: leased_def with_lease_def)
  ultimately show ?thesis by blast
qed

lemma ProcessItem_embeds:
  assumes quiet: "quiet_env env" and ready: "embeddable env cfg s vec g w r" and row: "item_row (ew_items w) i = Some r"
    and wf: "idmap_wf (ew_ids w)" and ctx: "ctx_lease ctx = None"
  shows "\<exists>pid w'. ProcessItem env ctx i w = ((OutcomeEmbedded, None), w')
    \<and> ew_items w' = update_items (\<lambda>x. ci_id x = i \<and> ci_content_hash x = ci_content_hash r)
         (embedded_row (ev_now env) (st_ID s) (st_Version s) (ev_clock env))
         (update_items (\<lambda>r. ci_id r = i) (in_flight_row (ev_now env)) (ew_items w))
    \<and> item_row (ew_items w') i = Some (embedded_row (ev_now env) (st_ID s) (st_Version s) (ev_clock env) (in_flight_row (ev_now env) r))
    \<and> id_of (ew_ids w') (ci_namespace r) ''object'' (ci_object_id r) = Some pid
    \<and> ds_points (ew_dense w') = (ds_points (ew_dense w))((CollectionName (NewIncarnation (ci_namespace r) g) CollectionObjectsDense, pid)
         \<mapsto> item_point env (pending_item r) s (ev_clock env) vec)
    \<and> id_extends (ew_ids w) (ew_ids w')
    \<and> (\<exists>metric. ds_collections (ew_dense w') (CollectionName (NewIncarnation (ci_namespace r) g) CollectionObjectsDense)
         = Some (DenseCollection (cfg_EmbeddingDim cfg) metric))"
proof -
  let ?item = "pending_item r" and ?ns = "ci_namespace r"
  let ?fn = "\<lambda>leased (lc :: NamespaceLifecycle) (p :: ProcessOutcome \<times> embed_world).
     case p of (_, w) \<Rightarrow> (case processLoadedItem env leased ?item w of
       ((out, err), w1) \<Rightarrow> (case err of None \<Rightarrow> Inr () | Some e \<Rightarrow> Inl e, (out, w1)))"
  let ?led = "\<lambda>(_ :: ProcessOutcome, w). ew_ledger w"
  have id: "ci_id r = i" using lookup_row_key [OF row] .
  have active: "namespace_active (?led (OutcomeEmbedded, w)) ?ns g" using ready by (simp add: embeddable_def)
  obtain lc ctx' where ww: "fst (WithWriter healthy ?led ctx ?ns ?fn (OutcomeEmbedded, w)) = ?fn ctx' lc (OutcomeEmbedded, w)"
    and lease: "leased ctx' ?ns g"
    using namespace_active_writer [of ?led "(OutcomeEmbedded, w)" ?ns g ctx ?fn, OF active ctx] by blast
  obtain pid w1 metric where one: "prepare_item env ctx' ?item w
        = (Inr \<lparr>em_cfg = cfg, em_strategy = s, em_vector = vec, em_point = pid\<rparr>, w1)"
    "ew_items w1 = update_items (\<lambda>r. ci_id r = i) (in_flight_row (ev_now env)) (ew_items w)"
    "id_of (ew_ids w1) ?ns ''object'' (ci_object_id r) = Some pid"
    "ds_points (ew_dense w1) = ds_points (ew_dense w)"
    "ds_collections (ew_dense w1) (CollectionName (NewIncarnation ?ns g) CollectionObjectsDense)
       = Some (DenseCollection (cfg_EmbeddingDim cfg) metric)" "id_extends (ew_ids w) (ew_ids w1)"
    using prepare_item_ready [OF quiet ready row lease wf] by blast
  let ?em = "\<lparr>em_cfg = cfg, em_strategy = s, em_vector = vec, em_point = pid\<rparr>"
  have row1: "item_row (ew_items w1) (pi_ID ?item) = Some (in_flight_row (ev_now env) r)"
    using row id by (simp add: one(2) item_row_update [OF moves_rows(1)] pending_item_def)
  have hash: "ci_content_hash (in_flight_row (ev_now env) r) = pi_ContentHash ?item"
    by (simp add: pending_item_def in_flight_row_def)
  have g: "1 \<le> g" "cfg_EmbeddingDim cfg = int (length vec)"
    using ready by (simp_all add: embeddable_def namespace_active_def)
  obtain w' where two: "commit_item env ctx' ?item ?em w1 = ((OutcomeEmbedded, None), w')"
    "ds_points (ew_dense w') = (ds_points (ew_dense w1))((CollectionName (NewIncarnation ?ns g) CollectionObjectsDense, pid)
         \<mapsto> item_point env ?item s (ev_clock env) vec)"
    "ew_items w' = update_items (\<lambda>r. ci_id r = i \<and> ci_content_hash r = pi_ContentHash ?item)
       (embedded_row (ev_now env) (st_ID s) (st_Version s) (ev_clock env)) (ew_items w1)"
    "ew_ids w' = ew_ids w1" "ds_collections (ew_dense w') = ds_collections (ew_dense w1)"
    using commit_item_ready [OF quiet _ g(1) _ row1 hash, of ctx' ?em metric] one(5) lease g(2) id
    by (auto simp: pending_item_def)
  have "processLoadedItem env ctx' ?item w = ((OutcomeEmbedded, None), w')"
    by (simp add: processLoadedItem_def one(1) two(1))
  then have "ProcessItem env ctx i w = ((OutcomeEmbedded, None), w')"
    using quiet row ww by (simp add: ProcessItem_def LoadByID_def quiet_env_def pending_item_def)
  moreover have "item_row (ew_items w') i = Some (embedded_row (ev_now env) (st_ID s) (st_Version s) (ev_clock env) (in_flight_row (ev_now env) r))"
    using row1 hash id by (simp add: two(3) item_row_update [OF moves_rows(2)] pending_item_def in_flight_row_def)
  moreover have "pi_ContentHash ?item = ci_content_hash r" by (simp add: pending_item_def)
  ultimately show ?thesis using one(2-6) two(2-5) by auto
qed

lemma ProcessItem_ready:
  assumes quiet: "quiet_env env" and ready: "embeddable env cfg s vec g w r" and row: "item_row (ew_items w) i = Some r"
    and wf: "idmap_wf (ew_ids w)" and ctx: "ctx_lease ctx = None"
  shows "\<exists>pid w'. ProcessItem env ctx i w = ((OutcomeEmbedded, None), w')
    \<and> ew_items w' = update_items (\<lambda>x. ci_id x = i \<and> ci_content_hash x = ci_content_hash r)
         (embedded_row (ev_now env) (st_ID s) (st_Version s) (ev_clock env))
         (update_items (\<lambda>r. ci_id r = i) (in_flight_row (ev_now env)) (ew_items w))
    \<and> item_row (ew_items w') i = Some (embedded_row (ev_now env) (st_ID s) (st_Version s) (ev_clock env) (in_flight_row (ev_now env) r))
    \<and> id_of (ew_ids w') (ci_namespace r) ''object'' (ci_object_id r) = Some pid
    \<and> ds_points (ew_dense w') = (ds_points (ew_dense w))((CollectionName (NewIncarnation (ci_namespace r) g) CollectionObjectsDense, pid)
         \<mapsto> item_point env (pending_item r) s (ev_clock env) vec)"
  using ProcessItem_embeds [OF assms] by blast

text \<open>A row embedded under the configured strategy is passed over.\<close>

lemma ProcessItem_skips_embedded:
  assumes quiet: "quiet_env env" and active: "namespace_active (ew_ledger w) (ci_namespace r) g"
    and row: "item_row (ew_items w) i = Some r" "ci_state r = StateEmbedded"
    and cfg: "\<forall>c. ev_get env c (ci_namespace r) = Inr (Some cfg)" "cfg_DenseSource cfg = DenseSourceCatalog"
      "ci_strategy_id r = Some (cfg_CatalogStrategyID cfg)" "ci_strategy_version r = Some (cfg_CatalogStrategyVersion cfg)"
    and ctx: "ctx_lease ctx = None"
  shows "ProcessItem env ctx i w = ((OutcomeSkipped, None), w)"
proof -
  have "prepare_item env c (pending_item r) w = (Inl (OutcomeSkipped, None), w)" for c
    using cfg row by (simp add: prepare_item_def pending_item_def coalesce_def)
  then have "processLoadedItem env c (pending_item r) w = ((OutcomeSkipped, None), w)" for c
    by (simp add: processLoadedItem_def)
  then show ?thesis
    using namespace_active_writer [of "\<lambda>(_, w). ew_ledger w" "(OutcomeEmbedded, w)" "ci_namespace r" g ctx
        "\<lambda>leased _ (_, w). case processLoadedItem env leased (pending_item r) w of
           ((out, err), w1) \<Rightarrow> (case err of None \<Rightarrow> Inr () | Some e \<Rightarrow> Inl e, (out, w1))"] quiet row(1) active ctx
    by (auto simp: ProcessItem_def LoadByID_def quiet_env_def pending_item_def)
qed

lemma active_envelope: "namespace_active L ns g \<Longrightarrow> EvaluateEnvelope None L ns (Some g) = Inr EnvelopeProcess"
  by (auto simp: namespace_active_def EvaluateEnvelope_def)

lemma item_of_update:
  "moves_row f \<Longrightarrow> item_of (update_items P f t) ns oid = map_option (\<lambda>r. if P r then f r else r) (item_of t ns oid)"
  by (simp add: update_items_def moves_row_key)

lemma ingested_row_keys: "ci_namespace (ingested_row env ns r t) = ns" "ci_object_id (ingested_row env ns r t) = ir_ObjectID r"
proof -
  have "item_key (ingested_row env ns r t) = (ns, ir_ObjectID r)"
    using lookup_row_key [of item_key "ct_rows t" "(ns, ir_ObjectID r)"]
    by (auto simp: ingested_row_def item_key_def fresh_row_def split: option.split)
  then show "ci_namespace (ingested_row env ns r t) = ns" "ci_object_id (ingested_row env ns r t) = ir_ObjectID r"
    by (simp_all add: item_key_def)
qed

section \<open>Attempts\<close>

text \<open>The row's namespace and its attempt count.\<close>

definition attempts :: "int \<Rightarrow> embed_world \<Rightarrow> (namespace \<times> int) option" where
  "attempts i w = map_option (\<lambda>r. (ci_namespace r, ci_attempt_count r)) (item_row (ew_items w) i)"

lemma attempts_publish [simp]: "attempts i (publishItemStateChanged env ctx item f s w) = attempts i w"
  by (simp add: attempts_def)

lemma exec_update_missed:
  assumes "\<forall>r \<in> set (ct_rows t). \<not> P r"
  shows "exec_update None missed P f t = (Inl missed, t)"
proof -
  have "update_where P f (ct_rows t) = ct_rows t" using assms by (simp add: update_where_def map_idI)
  then show ?thesis using assms by (simp add: exec_update_def rows_affected_def filter_empty_conv update_items_def)
qed

lemma exec_update_attempts:
  assumes "exec_update fault missed P f (ew_items w) = (res, t)" and "moves_row f" and "\<And>r. ci_attempt_count (f r) = ci_attempt_count r"
  shows "attempts i (with_items t w) = attempts i w"
proof (cases fault)
  case None
  then have "t = update_items P f (ew_items w)" using assms(1) by (auto simp: exec_update_def)
  then show ?thesis using assms(2,3)
    by (cases "item_row (ew_items w) i") (simp_all add: attempts_def item_row_update [OF assms(2)] moves_row_def)
next
  case (Some e)
  then show ?thesis using assms(1) by (auto simp: exec_update_def attempts_def)
qed

lemma deadLetterOutcome_attempts: "attempts i (snd (deadLetterOutcome env ctx item reason w)) = attempts i w"
proof -
  obtain r t where t: "MarkDeadLetter (ev_mark_dead env) (ev_now env) (pi_ID item) reason (ew_items w) = (r, t)" by fastforce
  then have "attempts i (with_items t w) = attempts i w"
    unfolding MarkDeadLetter_def by (rule exec_update_attempts [OF _ moves_rows(3)]) simp
  with t show ?thesis by (simp add: deadLetterOutcome_def split: sum.split)
qed

lemma markFailed_attempts: "attempts i (markFailed env ctx item reason w) = attempts i w"
proof -
  obtain r t where t: "MarkFailed (ev_mark_failed env) (ev_now env) (pi_ID item) reason (ew_items w) = (r, t)" by fastforce
  then have "attempts i (with_items t w) = attempts i w"
    unfolding MarkFailed_def by (rule exec_update_attempts [OF _ moves_rows(3)]) simp
  with t show ?thesis by (simp add: markFailed_def split: sum.split)
qed

lemma attempts_cong: "ew_cat w' = ew_cat w \<Longrightarrow> attempts i w' = attempts i w"
  by (simp add: attempts_def)

lemma resolveStrategy_cat: "ew_cat (snd (resolveStrategy env ns cfg w)) = ew_cat w"
  by (simp add: resolveStrategy_def split: prod.split sum.split option.split)

lemma ensureNamespaceCollections_cat: "ew_cat (snd (ensureNamespaceCollections env ctx ns cfg w)) = ew_cat w"
  unfolding ensureNamespaceCollections_def Let_def by (simp split: prod.split sum.split)

lemma embed_item_attempts: "attempts i (snd (embed_item env ctx item cfg w)) = attempts i w"
proof -
  obtain r1 w1 where one: "resolveStrategy env (pi_Namespace item) cfg w = (r1, w1)" by fastforce
  obtain r2 w2 where two: "ensureNamespaceCollections env ctx (pi_Namespace item) cfg w1 = (r2, w2)" by fastforce
  have c: "ew_cat w1 = ew_cat w" "ew_cat w2 = ew_cat w"
    using resolveStrategy_cat [of env "pi_Namespace item" cfg w] one
      ensureNamespaceCollections_cat [of env ctx "pi_Namespace item" cfg w1] two by simp_all
  have a: "attempts i w1 = attempts i w" "attempts i w2 = attempts i w" "attempts i (w2\<lparr>ew_ids := ids\<rparr>) = attempts i w" for ids
    using c by (simp_all add: attempts_def)
  show ?thesis
    unfolding embed_item_def one prod.case two
    using deadLetterOutcome_attempts [of i env ctx item _ w1] markFailed_attempts [of i env ctx item] a
    by (auto simp: handleEmbedError_def split: sum.split prod.split if_splits) (metis snd_conv)+
qed

lemma commit_item_attempts:
  assumes "commit_item env ctx item em w = ((OutcomeFailed, err), w')"
  shows "attempts i w' = attempts i w"
proof -
  obtain r st where up: "upsertVector env item (resolveIncarnation ctx (pi_Namespace item) (em_cfg em)) (em_point em)
      (em_vector em) (em_strategy em) (ev_clock env) w = (r, w\<lparr>ew_dense := st\<rparr>)"
    unfolding upsertVector_def by (metis (no_types, lifting) prod.case prod.exhaust)
  show ?thesis
  proof (cases r)
    case (Inl e)
    have "attempts i (invalidateEnsured (pi_Namespace item) (w\<lparr>ew_dense := st\<rparr>)) = attempts i w" by (rule attempts_cong) simp
    with assms up Inl show ?thesis by (auto simp: commit_item_def Let_def markFailed_attempts)
  next
    case (Inr u)
    define P where "P = (\<lambda>r :: catalog_row. ci_id r = pi_ID item \<and> ci_content_hash r = pi_ContentHash item)"
    define f where "f = embedded_row (ev_now env) (st_ID (em_strategy em)) (st_Version (em_strategy em)) (ev_clock env)"
    obtain e t where mark: "exec_update (ev_mark_embedded env) (EmbedderError ErrStaleItem) P f (ew_items w) = (Inl e, t)"
      "w' = with_items t (w\<lparr>ew_dense := st\<rparr>)"
      using assms up Inr by (auto simp: commit_item_def MarkEmbedded_def Let_def P_def f_def split: prod.splits sum.splits)
    have "t = ew_items w"
    proof (cases "ev_mark_embedded env")
      case None
      with mark(1) have "\<forall>r \<in> set (ct_rows (ew_items w)). \<not> P r"
        by (auto simp: exec_update_def rows_affected_def filter_empty_conv split: if_splits)
      from exec_update_missed [OF this] None mark(1) show ?thesis by simp
    qed (use mark(1) in \<open>simp add: exec_update_def\<close>)
    with mark(2) show ?thesis by (simp add: attempts_def)
  qed
qed

text \<open>
  A delivery whose bookkeeping works: the row and the configuration can be read, the claim and, if
  it comes to that, the dead letter can be written. Strategy, vector store, id mapping and every
  other write may fail in any way.
\<close>

definition books_kept :: "Config \<Rightarrow> embed_env \<Rightarrow> bool" where
  "books_kept cfg env \<longleftrightarrow> ev_lifecycle env = Some healthy \<and> ev_load env = None \<and> ev_in_flight env = None \<and> ev_mark_dead env = None
     \<and> (\<forall>ctx ns. ev_get env ctx ns = Inr (Some cfg)) \<and> cfg_DenseSource cfg = DenseSourceCatalog"

lemma ProcessItem_counts:
  assumes books: "books_kept cfg env" and active: "namespace_active (ew_ledger w) (ci_namespace r) g"
    and row: "item_row (ew_items w) i = Some r" and run: "ProcessItem env background i w = ((out, err), w')"
  shows "ShouldAck out \<or> attempts i w' = Some (ci_namespace r, ci_attempt_count r + 1) \<and> ci_attempt_count r < max_attempts env cfg"
proof -
  let ?item = "pending_item r" and ?ns = "ci_namespace r"
  let ?fn = "\<lambda>leased (lc :: NamespaceLifecycle) (p :: ProcessOutcome \<times> embed_world).
     case p of (_, w) \<Rightarrow> (case processLoadedItem env leased ?item w of
       ((out, err), w1) \<Rightarrow> (case err of None \<Rightarrow> Inr () | Some e \<Rightarrow> Inl e, (out, w1)))"
  let ?led = "\<lambda>(_ :: ProcessOutcome, w). ew_ledger w"
  have id: "ci_id r = i" using lookup_row_key [OF row] .
  have "ctx_lease background = None" by (simp add: background_def)
  then obtain lc ctx where ww: "fst (WithWriter healthy ?led background ?ns ?fn (OutcomeEmbedded, w)) = ?fn ctx lc (OutcomeEmbedded, w)"
    using namespace_active_writer [of ?led "(OutcomeEmbedded, w)" ?ns g background ?fn] active by auto
  then obtain err' where pl: "processLoadedItem env ctx ?item w = ((out, err'), w')"
    using run books row
    by (auto simp: ProcessItem_def LoadByID_def books_kept_def pending_item_def split: prod.splits sum.splits option.splits)
  show ?thesis
  proof (cases "ShouldAck out")
    case False
    then have out: "out = OutcomeFailed" by (simp add: ShouldAck_def)
    define t where "t = update_items (\<lambda>r. ci_id r = i) (in_flight_row (ev_now env)) (ew_items w)"
    define w1 where "w1 = publishItemStateChanged env ctx ?item ''pending'' ''in_flight'' (with_items t w)"
    have mark: "MarkInFlight (ev_in_flight env) (ev_now env) (pi_ID ?item) (ew_items w) = (Inr (ci_attempt_count r + 1), t)"
      using books row by (simp add: MarkInFlight_def books_kept_def t_def in_flight_row_def pending_item_def id)
    have at1: "attempts i w1 = Some (ci_namespace r, ci_attempt_count r + 1)"
      using row id by (simp add: w1_def) (simp add: attempts_def t_def item_row_update [OF moves_rows(1)] in_flight_row_def)
    have not_skipped: "\<not> (pi_State ?item = StateEmbedded \<and> pi_StrategyID ?item = cfg_CatalogStrategyID cfg
                  \<and> pi_StrategyVersion ?item = cfg_CatalogStrategyVersion cfg)"
      using pl out books by (auto simp: processLoadedItem_def prepare_item_def books_kept_def)
    have limit: "\<not> ci_attempt_count r + 1 > max_attempts env cfg"
    proof
      assume over: "ci_attempt_count r + 1 > max_attempts env cfg"
      have "rows_affected (\<lambda>r. ci_id r = pi_ID ?item) (ct_rows t) \<noteq> 0"
        using row id lookup_row_SomeD [OF row]
        by (intro rows_affected_pos [of "in_flight_row (ev_now env) r"])
          (auto simp: t_def update_items_def update_where_def pending_item_def in_flight_row_def image_iff)
      then have "fst (deadLetterOutcome env ctx ?item reason w1) = (OutcomeDeadLetter, None)" for reason
        using books by (simp add: deadLetterOutcome_def MarkDeadLetter_def exec_update_def books_kept_def w1_def)
      moreover define reason where
        "reason = ''attempt '' @ show_int (ci_attempt_count r + 1) @ '' exceeds max '' @ show_int (max_attempts env cfg)"
      ultimately obtain w2 where dead: "deadLetterOutcome env ctx ?item reason w1 = ((OutcomeDeadLetter, None), w2)"
        by (metis prod.collapse)
      have "prepare_item env ctx ?item w = (Inl (OutcomeDeadLetter, None), w2)"
        using books not_skipped mark over dead unfolding prepare_item_def Let_def reason_def w1_def
        by (auto simp: books_kept_def)
      with pl out show False by (simp add: processLoadedItem_def)
    qed
    have prep: "prepare_item env ctx ?item w = embed_item env ctx ?item cfg w1"
      using books not_skipped mark limit by (auto simp: prepare_item_def books_kept_def w1_def Let_def)
    obtain res w2 where emb: "embed_item env ctx ?item cfg w1 = (res, w2)" by fastforce
    have "attempts i w2 = Some (ci_namespace r, ci_attempt_count r + 1)" using embed_item_attempts [of i env ctx ?item cfg w1] emb at1 by simp
    moreover have "attempts i w' = attempts i w2"
      using pl prep emb out commit_item_attempts [of env ctx ?item _ w2 err' w' i]
      by (auto simp: processLoadedItem_def split: sum.splits)
    ultimately show ?thesis using limit by simp
  qed simp
qed

text \<open>
  Redelivery of one entry, each time under the conditions of the moment, until it is acknowledged
  or the deliveries considered are used up.
\<close>

fun redeliver :: "int \<Rightarrow> embed_env list \<Rightarrow> embed_world \<Rightarrow> ProcessOutcome list \<times> embed_world" where
  "redeliver i [] w = ([], w)"
| "redeliver i (env # envs) w =
     (case ProcessItem env background i w of
        ((out, err), w1) \<Rightarrow>
          if ShouldAck out then ([out], w1) else case redeliver i envs w1 of (outs, w2) \<Rightarrow> (out # outs, w2))"

lemma redeliver_ends:
  assumes "namespace_active (ew_ledger w) ns g" and "attempts i w = Some (ns, n)"
    and "list_all (\<lambda>env. books_kept cfg env \<and> max_attempts env cfg \<le> N) envs" and "nat (N - n) < length envs"
  shows "\<exists>outs out w'. redeliver i envs w = (outs @ [out], w') \<and> ShouldAck out \<and> length outs \<le> nat (N - n)"
  using assms
proof (induction envs arbitrary: w n)
  case (Cons env envs)
  obtain out err w1 where run: "ProcessItem env background i w = ((out, err), w1)" by (metis prod.exhaust)
  from Cons.prems(2) obtain r where row: "item_row (ew_items w) i = Some r" "ci_namespace r = ns" "ci_attempt_count r = n"
    by (auto simp: attempts_def)
  show ?case
  proof (cases "ShouldAck out")
    case True
    with run show ?thesis by (intro exI [of _ "[]"]) simp
  next
    case False
    have more: "attempts i w1 = Some (ns, n + 1)" "n < max_attempts env cfg"
      using ProcessItem_counts [of cfg env w r g i out err w1] Cons.prems(1,3) row run False by auto
    have "namespace_active (ew_ledger w1) ns g"
      using Cons.prems(1) ProcessItem_rest [of w env background i] run by (simp add: keeps_rest_def)
    moreover have "n < N" using more(2) Cons.prems(3) by simp
    moreover from this have "nat (N - (n + 1)) < length envs" using Cons.prems(4) by simp
    ultimately obtain outs out' w' where "redeliver i envs w1 = (outs @ [out'], w')" "ShouldAck out'" "length outs \<le> nat (N - (n + 1))"
      using Cons.IH [of w1 "n + 1"] more(1) Cons.prems(3) by auto
    with run False \<open>n < N\<close> show ?thesis by (intro exI [of _ "out # outs"] exI [of _ out'] exI [of _ w']) simp
  qed
qed simp

section \<open>A concrete pipeline\<close>

definition tally_strategy :: strategy where
  "tally_strategy = \<lparr>st_ID = ''hashing'', st_Version = ''v1'', st_Dim = 64, st_MaxInputBytes = 0,
     st_Embed = (\<lambda>c x. case c of Some e \<Rightarrow> Inl e | None \<Rightarrow> Inr (replicate 64 (real (length x))))\<rparr>"

definition shop_eenv :: "time \<Rightarrow> embed_env" where
  "shop_eenv now = \<lparr>ev_lifecycle = Some healthy, ev_now = now, ev_clock = now,
     ev_get = (\<lambda>_ ns. Inr (Some (base_config ''shop'' 1))), ev_default_max = 2, ev_build = (\<lambda>_ _ _. Inr tally_strategy),
     ev_marshal = (\<lambda>_. Inr []), ev_sha = (\<lambda>s. s), ev_rfc3339 = show_nat \<circ> nat, ev_error_text = (\<lambda>_. []), ev_ctx = None,
     ev_publisher = True, ev_load = None, ev_in_flight = None, ev_mark_embedded = None, ev_mark_failed = None,
     ev_mark_dead = None, ev_ids = quiet_ids,
     ev_qdrant = \<lparr>qe_exists = (\<lambda>_. None), qe_create = (\<lambda>_. None), qe_upsert = None\<rparr>, ev_envelope = None, ev_ack = None\<rparr>"

definition shop_eworld :: "catalog_world \<Rightarrow> embed_world" where
  "shop_eworld c = \<lparr>ew_cat = c, ew_ids = \<lparr>idt_rows = [], idt_seq = 1\<rparr>,
     ew_dense = \<lparr>ds_collections = Map.empty, ds_points = Map.empty\<rparr>, ew_cache = Map.empty, ew_ensured = [], ew_changes = []\<rparr>"

abbreviation shop_row :: catalog_row where
  "shop_row \<equiv> fresh_row 3 9 ''shop'' ''o'' ''hi'' ''hi'' []"

lemma shop_quiet: "quiet_env (shop_eenv now)"
  by (simp add: quiet_env_def shop_eenv_def)

lemma shop_active: "namespace_active shop_ledger ''shop'' 1"
  unfolding namespace_active_def shop_ledger_get by (simp add: shop_ledger_def shop_lifecycle_def)

lemma shop_embeddable:
  "embeddable (shop_eenv now) (base_config ''shop'' 1) tally_strategy (replicate 64 2) 1 (shop_eworld (shop_stored 9 shop_cworld)) shop_row"
proof -
  have "cw_ledger (shop_stored 9 shop_cworld) = shop_ledger" by (simp add: shop_stored_def shop_cworld_def)
  then show ?thesis
    using shop_active
    by (simp add: embeddable_def shop_eworld_def shop_eenv_def base_config_def max_attempts_def strategy_ready_def
        strategyCacheKey_def tally_strategy_def collection_fits_def numeric_id_max_def fresh_row_def Let_def)
qed

lemma shop_ids: "idmap_wf (ew_ids (shop_eworld c))"
  by (simp add: shop_eworld_def idmap_wf_def keyed_def numeric_id_max_def)

definition shop_embed_entry :: embed_entry where
  "shop_embed_entry = \<lparr>ee_catalog_item_id = 3, ee_namespace = ''shop'', ee_namespace_generation = 1, ee_object_id = ''o'',
     ee_strategy_id = ''hashing'', ee_strategy_version = ''v1'', ee_enqueued_at = 9\<rparr>"

definition decimal_time :: "string \<Rightarrow> time option" where
  "decimal_time s = map_option int (parse_digits 0 s)"

lemma shop_entry_decodes:
  "DecodeStreamEntry decimal_time (entry_message (show_nat \<circ> nat) ''9-0'' shop_embed_entry)
      = Inr \<lparr>se_EntryID = ''9-0'', se_CatalogItemID = 3, se_Namespace = ''shop'', se_NamespaceGeneration = Some 1,
          se_ObjectID = ''o'', se_StrategyID = ''hashing'', se_StrategyVer = ''v1'', se_EnqueuedAt = 9\<rparr>"
  using embed_entry_roundtrip [of shop_embed_entry "show_nat \<circ> nat" decimal_time "''9-0''"]
  by (simp add: shop_embed_entry_def int64_def decimal_time_def parse_digits_show_nat)

text \<open>A concrete run: an ingest and its delivery.\<close>

lemma shop_embedded_run:
  "\<exists>w r. (embed_step (\<lambda>c. c) (\<lambda>_ _ _. Inr tally_strategy))\<^sup>*\<^sup>* (shop_eworld shop_cworld) w
     \<and> embed_start (shop_eworld shop_cworld) \<and> ew_ledger w = shop_ledger \<and> phase (ew_ledger w) ''shop'' = ActiveAt 1
     \<and> item_row (ew_items w) 3 = Some r \<and> ci_state r = StateEmbedded \<and> ci_namespace r = ''shop'' \<and> ci_object_id r = ''o''
     \<and> ci_strategy_id r = Some ''hashing'' \<and> ci_strategy_version r = Some ''v1''"
proof -
  let ?w0 = "shop_eworld shop_cworld" and ?w1 = "shop_eworld (shop_stored 9 shop_cworld)" and ?env = "shop_eenv 12"
  let ?step = "embed_step (\<lambda>c. c) (\<lambda>_ _ _. Inr tally_strategy)"
  have "ce_hash (shop_cenv 9) = (\<lambda>c. c)" by (simp add: shop_cenv_def)
  moreover have "Ingest (shop_cenv 9) background ''shop'' (Some shop_text) (ew_cat ?w0)
      = (Inr (scan_item shop_row), shop_stored 9 shop_cworld)"
    using shop_text_ingested [of 9] by (simp add: shop_eworld_def)
  moreover have "?w1 = ?w0\<lparr>ew_cat := shop_stored 9 shop_cworld\<rparr>" by (simp add: shop_eworld_def)
  ultimately have one: "?step ?w0 ?w1" using embed_step.ingest [of "shop_cenv 9" "\<lambda>c. c"] by metis
  let ?w2 = "embed_handleMessage ?env decimal_time background ''shop'' (entry_message (show_nat \<circ> nat) ''9-0'' shop_embed_entry) ?w1"
  have two: "?step ?w1 ?w2"
    by (rule embed_step.deliver) (simp_all add: shop_eenv_def background_def)
  have run: "?step\<^sup>*\<^sup>* ?w0 ?w2" by (rule converse_rtranclp_into_rtranclp [of ?step, OF one r_into_rtranclp [of ?step, OF two]])
  have start: "embed_start ?w0" using shop_ids [of shop_cworld] by (simp add: embed_start_def shop_eworld_def shop_cworld_def)
  have row: "item_row (ew_items ?w1) 3 = Some shop_row" by (simp add: shop_eworld_def shop_stored_def fresh_row_def)
  have ctx: "ctx_lease background = None" by (simp add: background_def)
  obtain w' where pr: "ProcessItem ?env background 3 ?w1 = ((OutcomeEmbedded, None), w')"
    and r: "item_row (ew_items w') 3 = Some (embedded_row 12 ''hashing'' ''v1'' 12 (in_flight_row 12 shop_row))" (is "_ = Some ?r")
    using ProcessItem_ready [OF shop_quiet shop_embeddable row shop_ids ctx, of 12]
    by (auto simp: tally_strategy_def) (auto simp: shop_eenv_def)
  have led: "ew_ledger ?w1 = shop_ledger" by (simp add: shop_eworld_def shop_stored_def shop_cworld_def)
  have w2: "?w2 = embed_ack None ''9-0'' w'"
    using shop_entry_decodes pr active_envelope [OF shop_active] led
    by (simp add: embed_handleMessage_def) (simp add: shop_eenv_def entry_message_def ShouldAck_def)
  have row2: "item_row (ew_items ?w2) 3 = Some ?r" using r by (simp add: w2 embed_ack_def)
  have emb: "ci_state ?r = StateEmbedded" "ci_namespace ?r = ''shop''" "ci_object_id ?r = ''o''"
    "ci_strategy_id ?r = Some ''hashing''" "ci_strategy_version ?r = Some ''v1''"
    by (simp_all add: embedded_row_def in_flight_row_def fresh_row_def)
  have led2: "ew_ledger ?w2 = shop_ledger"
    using ProcessItem_rest [of ?w1 ?env background 3] pr led by (simp add: w2 embed_ack_def keeps_rest_def)
  then have "phase (ew_ledger ?w2) ''shop'' = ActiveAt 1"
    using phase_of_get [of "''shop''" shop_ledger] shop_ledger_get by (simp add: shop_lifecycle_def)
  with run start led2 row2 emb show ?thesis by (intro exI conjI)
qed

section \<open>Properties\<close>

text \<open>C26: From an accepted request to a stored vector: when an ingest publishes an entry and nothing fails
  while that entry is delivered, the embedder ends with the row embedded under the strategy it
  recorded, the point of the object's own id in the current generation's collection holding this
  strategy's vector of exactly the accepted content, and the entry acknowledged.\<close>

theorem published_content_gets_embedded:
  assumes ing: "Ingest cenv ictx ns req (ew_cat w) = (Inr it, c)"
    and pub: "cw_streams c = cw_streams (ew_cat w) @ [(stream, e)]"
    and wf: "catalog_wf (ew_items w)" "idmap_wf (ew_ids w)"
    and env: "quiet_env env" "ctx_lease ctx = None"
    and wire: "ee_namespace_generation e = g" "int64 g" "int64 (it_ID it)"
      "fmt_time (ee_enqueued_at e) \<noteq> []" "parse_time (fmt_time (ee_enqueued_at e)) = Some (ee_enqueued_at e)"
    and ready: "\<forall>row. item_of (cw_items c) ns (it_ObjectID it) = Some row \<longrightarrow> embeddable env cfg s vec g (w\<lparr>ew_cat := c\<rparr>) row"
  shows "\<exists>w' row pid p. embed_handleMessage env parse_time ctx ns (entry_message fmt_time mid e) (w\<lparr>ew_cat := c\<rparr>) = w'
    \<and> item_of (ew_items w') ns (it_ObjectID it) = Some row \<and> ci_state row = StateEmbedded \<and> ci_content row = it_Content it
    \<and> ci_strategy_id row = Some (st_ID s) \<and> ci_strategy_version row = Some (st_Version s)
    \<and> id_of (ew_ids w') ns ''object'' (it_ObjectID it) = Some pid
    \<and> ds_points (ew_dense w') (CollectionName (NewIncarnation ns g) CollectionObjectsDense, pid) = Some p
    \<and> st_Embed s None (it_Content it) = Inr (dp_vector p)
    \<and> cw_acked (ew_cat w') = cw_acked (ew_cat w) @ [mid]"
  using ing
proof (cases rule: Ingest_cases)
  case (stored r cfg' ctx')
  let ?row = "ingested_row cenv ns r (ew_items w)" and ?w = "w\<lparr>ew_cat := c\<rparr>"
  have it: "it_ID it = ci_id ?row" "it_ObjectID it = ir_ObjectID r" "it_Content it = ci_content ?row"
    using stored(3) ingested_row_keys [of cenv ns r "ew_items w"] by (simp_all add: scan_item_def)
  have e: "ee_catalog_item_id e = ci_id ?row" using pub stored(5) by (auto simp: embed_entry_of_def split: if_splits)
  have look: "item_of (cw_items c) ns (it_ObjectID it) = Some ?row" using stored(4) it by (simp add: row_written_def)
  have wfc: "catalog_wf (cw_items c)" by (rule Ingest_wf [OF wf(1) ing])
  have row: "item_row (ew_items ?w) (ci_id ?row) = Some ?row"
    using wfc lookup_row_SomeD [OF look] by (simp add: lookup_row_mem catalog_wf_def)
  have emb: "embeddable env cfg s vec g ?w ?row" using ready look by blast
  have active: "namespace_active (ew_ledger ?w) ns g" using emb ingested_row_keys [of cenv ns r "ew_items w"] by (simp add: embeddable_def)
  have dec: "\<exists>entry. DecodeStreamEntry parse_time (entry_message fmt_time mid e) = Inr entry
      \<and> se_CatalogItemID entry = ci_id ?row \<and> se_NamespaceGeneration entry = Some g"
    using wire it e active embed_entry_roundtrip [of e fmt_time parse_time mid] by (simp add: namespace_active_def)
  have "idmap_wf (ew_ids ?w)" using wf(2) by simp
  from ProcessItem_ready [OF env(1) emb row this env(2)] ingested_row_keys [of cenv ns r "ew_items w"]
  obtain pid w' where run: "ProcessItem env ctx (ci_id ?row) ?w = ((OutcomeEmbedded, None), w')"
    and items: "ew_items w' = update_items (\<lambda>x. ci_id x = ci_id ?row \<and> ci_content_hash x = ci_content_hash ?row)
         (embedded_row (ev_now env) (st_ID s) (st_Version s) (ev_clock env))
         (update_items (\<lambda>r. ci_id r = ci_id ?row) (in_flight_row (ev_now env)) (cw_items c))"
    and pid: "id_of (ew_ids w') ns ''object'' (it_ObjectID it) = Some pid"
    and pts: "ds_points (ew_dense w') (CollectionName (NewIncarnation ns g) CollectionObjectsDense, pid)
         = Some (item_point env (pending_item ?row) s (ev_clock env) vec)"
    using it by auto
  have "embed_handleMessage env parse_time ctx ns (entry_message fmt_time mid e) ?w = embed_ack None mid w'"
    using dec run active_envelope [OF active] env(1)
    by (auto simp: embed_handleMessage_def quiet_env_def ShouldAck_def) (simp_all add: entry_message_def)
  moreover have "item_of (ew_items (embed_ack None mid w')) ns (it_ObjectID it)
      = Some (embedded_row (ev_now env) (st_ID s) (st_Version s) (ev_clock env) (in_flight_row (ev_now env) ?row))"
    using look by (simp add: embed_ack_def items item_of_update moves_rows in_flight_row_def)
  moreover have "cw_acked (ew_cat (embed_ack None mid w')) = cw_acked (ew_cat w) @ [mid]"
    using ProcessItem_rest [of ?w env ctx "ci_id ?row"] run Ingest_acked [of cenv ictx ns req "ew_cat w"] ing
    by (simp add: embed_ack_def catalog_ack_def keeps_rest_def)
  moreover have "st_Embed s None (it_Content it) = Inr (dp_vector (item_point env (pending_item ?row) s (ev_clock env) vec))"
    using emb it by (simp add: embeddable_def item_point_def)
  ultimately show ?thesis using pid pts it
    by (intro exI [of _ "embed_ack None mid w'"]
        exI [of _ "embedded_row (ev_now env) (st_ID s) (st_Version s) (ev_clock env) (in_flight_row (ev_now env) ?row)"]
        exI [of _ pid] exI [of _ "item_point env (pending_item ?row) s (ev_clock env) vec"])
      (simp add: embedded_row_def in_flight_row_def embed_ack_def)
qed simp_all

theorem published_content_gets_embedded_witness:
  "\<exists>row pid p. let w' = embed_handleMessage (shop_eenv 12) decimal_time background ''shop''
         (entry_message (show_nat \<circ> nat) ''9-0'' shop_embed_entry) (shop_eworld (shop_stored 9 shop_cworld))
     in item_of (ew_items w') ''shop'' ''o'' = Some row \<and> ci_state row = StateEmbedded \<and> ci_content row = ''hi''
        \<and> ds_points (ew_dense w') (CollectionName (NewIncarnation ''shop'' 1) CollectionObjectsDense, pid) = Some p
        \<and> dp_vector p = replicate 64 2 \<and> cw_acked (ew_cat w') = [''9-0'']"
proof -
  let ?w = "shop_eworld shop_cworld" and ?c = "shop_stored 9 shop_cworld"
  have ing: "Ingest (shop_cenv 9) background ''shop'' (Some shop_text) (ew_cat ?w) = (Inr (scan_item shop_row), ?c)"
    using shop_text_ingested [of 9] by (simp add: shop_eworld_def)
  have w: "?w\<lparr>ew_cat := ?c\<rparr> = shop_eworld ?c" by (simp add: shop_eworld_def)
  have pub: "cw_streams ?c = cw_streams (ew_cat ?w) @ [(generationStreamName ''shop'' 1, shop_embed_entry)]"
    by (simp add: shop_stored_def shop_eworld_def shop_cworld_def embed_entry_of_def shop_embed_entry_def shop_cenv_def
        base_config_def fresh_row_def)
  have wf: "catalog_wf (ew_items ?w)" by (simp add: shop_eworld_def shop_cworld_def catalog_wf_def keyed_def)
  have ready: "\<forall>row. item_of (cw_items ?c) ''shop'' (it_ObjectID (scan_item shop_row)) = Some row \<longrightarrow>
      embeddable (shop_eenv 12) (base_config ''shop'' 1) tally_strategy (replicate 64 2) 1 (?w\<lparr>ew_cat := ?c\<rparr>) row"
    using shop_embeddable [of 12] unfolding w
    by (simp add: shop_stored_def item_key_def)
  have wire: "ee_namespace_generation shop_embed_entry = 1" "int64 1" "int64 (it_ID (scan_item shop_row))"
    "(show_nat \<circ> nat) (ee_enqueued_at shop_embed_entry) \<noteq> []"
    "decimal_time ((show_nat \<circ> nat) (ee_enqueued_at shop_embed_entry)) = Some (ee_enqueued_at shop_embed_entry)"
    by (simp_all add: shop_embed_entry_def int64_def decimal_time_def parse_digits_show_nat fresh_row_def)
  have ctx: "ctx_lease background = None" by (simp add: background_def)
  have "st_Embed tally_strategy None ''hi'' = Inr (replicate 64 2)" by (simp add: tally_strategy_def)
  moreover have "it_ObjectID (scan_item shop_row) = ''o''" "it_Content (scan_item shop_row) = ''hi''" "cw_acked (ew_cat ?w) = []"
    by (simp_all add: scan_item_def fresh_row_def shop_eworld_def shop_cworld_def)
  moreover define w' where "w' = embed_handleMessage (shop_eenv 12) decimal_time background ''shop''
      (entry_message (show_nat \<circ> nat) ''9-0'' shop_embed_entry) (shop_eworld ?c)"
  ultimately obtain row pid p where "item_of (ew_items w') ''shop'' ''o'' = Some row" "ci_state row = StateEmbedded"
    "ci_content row = ''hi''" "dp_vector p = replicate 64 2" "cw_acked (ew_cat w') = [''9-0'']"
    "ds_points (ew_dense w') (CollectionName (NewIncarnation ''shop'' 1) CollectionObjectsDense, pid) = Some p"
    using published_content_gets_embedded [where fmt_time = "show_nat \<circ> nat" and parse_time = decimal_time and w = ?w
        and mid = "''9-0''", OF ing pub wf shop_ids shop_quiet ctx wire ready] unfolding w by auto
  then show ?thesis unfolding Let_def w'_def [symmetric] by blast
qed

text \<open>C31: An entry can be acknowledged although nothing was done for it: when the writer fence cannot be
  taken after the row was loaded (here: no session for the lock), the outcome is still the zero
  value, which is \<^verbatim>\<open>OutcomeEmbedded\<close>, so the worker acknowledges and the row keeps its state.
  The stream will not deliver the item again; only the recovery sweep can, and it passes over rows
  in state \<^verbatim>\<open>failed\<close>.\<close>

theorem fence_failure_acknowledges:
  assumes "DecodeStreamEntry parse_time m = Inr entry" and "ev_lifecycle env = Some svc" and "ctx_lease ctx = None"
    and "EvaluateEnvelope (ev_envelope env) (ew_ledger w) ns (se_NamespaceGeneration entry) = Inr EnvelopeProcess"
    and "LoadByID (ev_load env) (se_CatalogItemID entry) (ew_items w) = Inr item"
    and "acquirePair (se_pairwise svc) (se_locks svc) (pi_Namespace item) LockShared = (Inl e, evs)"
  shows "ProcessItem env ctx (se_CatalogItemID entry) w = ((OutcomeEmbedded, Some e), w)
    \<and> embed_handleMessage env parse_time ctx ns m w = embed_ack (ev_ack env) (xm_ID m) w"
proof -
  have "ProcessItem env ctx (se_CatalogItemID entry) w = ((OutcomeEmbedded, Some e), w)"
    using assms by (simp add: ProcessItem_def WithWriter_def)
  with assms show ?thesis by (simp add: embed_handleMessage_def ShouldAck_def)
qed

definition down_locks :: svc_env where
  "down_locks = healthy\<lparr>se_locks := \<lparr>lf_conn = Some (Failure ''down''), lf_lock = (\<lambda>_. None), lf_unlock = (\<lambda>_. None)\<rparr>\<rparr>"

theorem fence_failure_acknowledges_witness:
  "let w = shop_eworld (shop_stored 9 shop_cworld);
       w' = embed_handleMessage ((shop_eenv 12)\<lparr>ev_lifecycle := Some down_locks\<rparr>) decimal_time background ''shop''
              (entry_message (show_nat \<circ> nat) ''9-0'' shop_embed_entry) w
   in cw_acked (ew_cat w') = [''9-0''] \<and> ew_items w' = ew_items w \<and> map ci_state (ct_rows (ew_items w')) = [StatePending]"
proof -
  let ?w = "shop_eworld (shop_stored 9 shop_cworld)" and ?env = "(shop_eenv 12)\<lparr>ev_lifecycle := Some down_locks\<rparr>"
  let ?entry = "\<lparr>se_EntryID = ''9-0'', se_CatalogItemID = 3, se_Namespace = ''shop'', se_NamespaceGeneration = Some 1,
          se_ObjectID = ''o'', se_StrategyID = ''hashing'', se_StrategyVer = ''v1'', se_EnqueuedAt = 9\<rparr>"
  have dec: "DecodeStreamEntry decimal_time (entry_message (show_nat \<circ> nat) ''9-0'' shop_embed_entry) = Inr ?entry"
    by (rule shop_entry_decodes)
  have life: "ev_lifecycle ?env = Some down_locks" and ctx: "ctx_lease background = None"
    by (simp_all add: background_def)
  have "ew_ledger ?w = shop_ledger" by (simp add: shop_eworld_def shop_stored_def shop_cworld_def)
  then have proc: "EvaluateEnvelope (ev_envelope ?env) (ew_ledger ?w) ''shop'' (se_NamespaceGeneration ?entry) = Inr EnvelopeProcess"
    using active_envelope [OF shop_active] by (simp add: shop_eenv_def)
  have load: "LoadByID (ev_load ?env) (se_CatalogItemID ?entry) (ew_items ?w) = Inr (pending_item shop_row)"
    by (simp add: LoadByID_def shop_eenv_def shop_eworld_def shop_stored_def)
  obtain e evs where lock: "acquirePair (se_pairwise down_locks) (se_locks down_locks) (pi_Namespace (pending_item shop_row)) LockShared = (Inl e, evs)"
    by (simp add: acquirePair_def AcquirePair_def down_locks_def healthy_def)
  have acked: "embed_ack (ev_ack ?env) (xm_ID (entry_message (show_nat \<circ> nat) ''9-0'' shop_embed_entry)) ?w = embed_ack None ''9-0'' ?w"
    by (simp add: shop_eenv_def entry_message_def)
  from fence_failure_acknowledges [OF dec life ctx proc load lock, THEN conjunct2] show ?thesis
    unfolding Let_def acked by (simp add: embed_ack_def catalog_ack_def shop_eworld_def shop_stored_def shop_cworld_def fresh_row_def)
qed

text \<open>C29: Redelivery of an entry ends: as long as the row, the configuration, the claim and the dead letter
  can be read and written, whatever else fails on each delivery (strategy, vector store, id
  mapping, any other write), the entry is acknowledged after at most as many failed deliveries as
  attempts are left under the largest limit in force, so no item is retried for ever.\<close>

theorem retry_budget_ends_redelivery:
  assumes "namespace_active (ew_ledger w) (ci_namespace r) g" and "item_row (ew_items w) i = Some r"
    and "\<forall>env \<in> set envs. books_kept cfg env \<and> max_attempts env cfg \<le> N"
    and "nat (N - ci_attempt_count r) < length envs"
  shows "\<exists>outs out w'. redeliver i envs w = (outs @ [out], w') \<and> ShouldAck out
    \<and> length outs \<le> nat (N - ci_attempt_count r)"
  using redeliver_ends [of w "ci_namespace r" g i "ci_attempt_count r" cfg N envs] assms
  by (simp add: attempts_def list_all_iff)

definition qdrant_down :: embed_env where
  "qdrant_down = (shop_eenv 12)\<lparr>ev_qdrant := \<lparr>qe_exists = (\<lambda>_. None), qe_create = (\<lambda>_. None), qe_upsert = Some (Failure ''down'')\<rparr>\<rparr>"

theorem retry_budget_ends_redelivery_witness:
  "\<exists>outs out w'. redeliver 3 (replicate 4 qdrant_down) (shop_eworld (shop_stored 9 shop_cworld)) = (outs @ [out], w')
     \<and> ShouldAck out \<and> length outs \<le> 2"
proof -
  let ?w = "shop_eworld (shop_stored 9 shop_cworld)"
  have row: "item_row (ew_items ?w) 3 = Some shop_row" by (simp add: shop_eworld_def shop_stored_def fresh_row_def)
  have active: "namespace_active (ew_ledger ?w) (ci_namespace shop_row) 1"
    using shop_active by (simp add: shop_eworld_def shop_stored_def shop_cworld_def fresh_row_def)
  have books: "\<forall>env \<in> set (replicate 4 qdrant_down). books_kept (base_config ''shop'' 1) env \<and> max_attempts env (base_config ''shop'' 1) \<le> 2"
    by (simp add: books_kept_def max_attempts_def qdrant_down_def shop_eenv_def base_config_def)
  have "nat (2 - ci_attempt_count shop_row) < length (replicate 4 qdrant_down)" by (simp add: fresh_row_def)
  from retry_budget_ends_redelivery [OF active row books this] show ?thesis by (simp add: fresh_row_def)
qed

text \<open>C30: Two deliveries of one row that overlap can leave a vector of old content behind for good. When
  the second worker has already embedded newer content under the configured strategy, the first
  one's commit still overwrites the point with its older vector and only then loses the hash
  guard; the row stays \<^verbatim>\<open>embedded\<close>, so the retry of the failed entry skips it and nothing stores
  the newer vector again.\<close>

theorem overlapping_embed_leaves_stale_vector:
  assumes quiet: "quiet_env env" "quiet_env env'" and lease: "leased ctx (pi_Namespace item) g" and active: "namespace_active (ew_ledger w) (pi_Namespace item) g"
    and coll: "ds_collections (ew_dense w) (CollectionName (NewIncarnation (pi_Namespace item) g) CollectionObjectsDense)
        = Some (DenseCollection (int (length (em_vector em))) metric)"
    and row: "catalog_wf (ew_items w)" "item_row (ew_items w) (pi_ID item) = Some r" "ci_namespace r = pi_Namespace item"
    and newer: "ci_content_hash r \<noteq> pi_ContentHash item" "ci_state r = StateEmbedded"
    and cfg: "\<forall>c. ev_get env' c (pi_Namespace item) = Inr (Some cfg)" "cfg_DenseSource cfg = DenseSourceCatalog"
      "ci_strategy_id r = Some (cfg_CatalogStrategyID cfg)" "ci_strategy_version r = Some (cfg_CatalogStrategyVersion cfg)"
  shows "\<exists>w'. commit_item env ctx item em w = ((OutcomeFailed, Some (EmbedderError ErrStaleItem)), w')
    \<and> ew_cat w' = ew_cat w \<and> ew_ids w' = ew_ids w
    \<and> ds_points (ew_dense w') (CollectionName (NewIncarnation (pi_Namespace item) g) CollectionObjectsDense, em_point em)
        = Some (item_point env item (em_strategy em) (ev_clock env) (em_vector em))
    \<and> ProcessItem env' background (pi_ID item) w' = ((OutcomeSkipped, None), w')"
proof -
  let ?coll = "CollectionName (NewIncarnation (pi_Namespace item) g) CollectionObjectsDense"
  let ?P = "\<lambda>r. ci_id r = pi_ID item \<and> ci_content_hash r = pi_ContentHash item"
  have g: "1 \<le> g" using active by (simp add: namespace_active_def)
  then have lok: "is_ok (RequireNamespaceLease ctx (pi_Namespace item))" using lease by (auto simp: leased_def RequireNamespaceLease_def)
  have inc: "resolveIncarnation ctx (pi_Namespace item) (em_cfg em) = NewIncarnation (pi_Namespace item) g"
    by (rule resolveIncarnation_leased [OF lease lok])
  have "\<forall>x \<in> set (ct_rows (ew_items w)). \<not> ?P x"
    using lookup_row_mem [of ci_id "ct_rows (ew_items w)"] row(1,2) newer(1) by (force simp: catalog_wf_def)
  note missed = exec_update_missed [OF this]
  define w' where "w' = with_items (ew_items w) (w\<lparr>ew_dense := (ew_dense w)\<lparr>ds_points := (ds_points (ew_dense w))((?coll, em_point em)
      \<mapsto> item_point env item (em_strategy em) (ev_clock env) (em_vector em))\<rparr>\<rparr>)"
  have "commit_item env ctx item em w = ((OutcomeFailed, Some (EmbedderError ErrStaleItem)), w')"
    using quiet coll
    by (simp add: commit_item_def upsertVector_def inc point_upsert_def item_point_def quiet_env_def w'_def MarkEmbedded_def missed Let_def)
  moreover have same: "ew_cat w' = ew_cat w" "ew_ids w' = ew_ids w" by (simp_all add: w'_def) (simp add: with_items_def)
  moreover have "ProcessItem env' background (pi_ID item) w' = ((OutcomeSkipped, None), w')"
    by (rule ProcessItem_skips_embedded [OF quiet(2) _ _ _ _ cfg(2-4)])
      (use active row newer cfg(1) same in \<open>simp_all add: w'_def background_def\<close>)
  moreover have "ds_points (ew_dense w') (?coll, em_point em) = Some (item_point env item (em_strategy em) (ev_clock env) (em_vector em))"
    by (simp add: w'_def)
  ultimately show ?thesis by blast
qed

definition shop_news :: IngestRequest where
  "shop_news = shop_text\<lparr>ir_Content := ''new''\<rparr>"

abbreviation shop_lease :: lctx where
  "shop_lease \<equiv> with_lease background ''shop'' 1 LockShared"

abbreviation news_row :: catalog_row where
  "news_row \<equiv> conflict_row 13 ''new'' ''new'' [] (in_flight_row 12 shop_row)"

lemma shop_news_checked: "checked_request ''shop'' (Some shop_news) = Inr shop_news"
proof -
  have "isStorable ''o''" "isStorable []" "sanitizeStorable ''new'' = ''new''" "TrimSpace ''new'' \<noteq> []"
    by (simp_all add: isStorable_def sanitizeStorable_def ValidString_def ToValidUTF8_def TrimSpace_def NUL_def
        pieces_ascii byte_def space_piece_def rune_value_def IsSpace_def)
  then show ?thesis by (simp add: checked_request_def shop_news_def shop_text_def sanitizeStorableMetadata_def Let_def)
qed

lemma shop_news_ingested:
  assumes "cw_ledger c = shop_ledger" and "ct_rows (cw_items c) = [in_flight_row 12 shop_row]"
  shows "\<exists>c'. Ingest (shop_cenv 13) background ''shop'' (Some shop_news) c = (Inr (scan_item news_row), c')
    \<and> cw_ledger c' = shop_ledger \<and> ct_rows (cw_items c') = [news_row] \<and> ct_seq (cw_items c') = ct_seq (cw_items c) + 1"
proof -
  have "Ingest (shop_cenv 13) background ''shop'' (Some shop_news) c = ingestActive (shop_cenv 13) shop_lease ''shop'' shop_news c"
    using assms by (simp add: Ingest_def shop_news_checked) (simp add: shop_cenv_def shop_writer background_def)
  moreover have "\<exists>c'. ingestActive (shop_cenv 13) shop_lease ''shop'' shop_news c = (Inr (scan_item news_row), c')
    \<and> cw_ledger c' = shop_ledger \<and> ct_rows (cw_items c') = [news_row] \<and> ct_seq (cw_items c') = ct_seq (cw_items c) + 1"
    using assms by (simp add: ingestActive_def ingest_gate_def shop_cenv_def base_config_def max_content_def shop_news_def shop_text_def
        UpsertWithAttribution_def Upsert_def marshalMetadata_def publish_def item_key_def in_flight_row_def fresh_row_def
        conflict_row_def update_where_def Let_def)
  ultimately show ?thesis by simp
qed

theorem overlapping_embed_leaves_stale_vector_witness:
  "\<exists>em w1 it c w2 w' pid p.
     prepare_item (shop_eenv 12) shop_lease (pending_item shop_row) (shop_eworld (shop_stored 9 shop_cworld)) = (Inr em, w1)
   \<and> Ingest (shop_cenv 13) background ''shop'' (Some shop_news) (ew_cat w1) = (Inr it, c)
   \<and> ProcessItem (shop_eenv 14) background 3 (w1\<lparr>ew_cat := c\<rparr>) = ((OutcomeEmbedded, None), w2)
   \<and> commit_item (shop_eenv 15) shop_lease (pending_item shop_row) em w2 = ((OutcomeFailed, Some (EmbedderError ErrStaleItem)), w')
   \<and> map (\<lambda>r. (ci_content r, ci_state r)) (ct_rows (ew_items w')) = [(''new'', StateEmbedded)]
   \<and> id_of (ew_ids w') ''shop'' ''object'' ''o'' = Some pid
   \<and> ds_points (ew_dense w') (CollectionName (NewIncarnation ''shop'' 1) CollectionObjectsDense, pid) = Some p
   \<and> st_Embed tally_strategy None ''hi'' = Inr (dp_vector p) \<and> st_Embed tally_strategy None ''new'' \<noteq> Inr (dp_vector p)
   \<and> ProcessItem (shop_eenv 16) background 3 w' = ((OutcomeSkipped, None), w')"
proof -
  let ?w0 = "shop_eworld (shop_stored 9 shop_cworld)" and ?cfg = "base_config ''shop'' 1" and ?item = "pending_item shop_row"
  let ?coll = "CollectionName (NewIncarnation ''shop'' 1) CollectionObjectsDense"
  have keys: "ci_id shop_row = 3" "ci_namespace shop_row = ''shop''" "ci_object_id shop_row = ''o''" by (simp_all add: fresh_row_def)
  have row0: "item_row (ew_items ?w0) 3 = Some shop_row" by (simp add: shop_eworld_def shop_stored_def keys)
  have lease: "leased shop_lease ''shop'' 1" by (simp add: leased_def with_lease_def)
  obtain pid w1 where one: "prepare_item (shop_eenv 12) shop_lease ?item ?w0
        = (Inr \<lparr>em_cfg = ?cfg, em_strategy = tally_strategy, em_vector = replicate 64 2, em_point = pid\<rparr>, w1)"
    and items1: "ew_items w1 = update_items (\<lambda>r. ci_id r = 3) (in_flight_row 12) (ew_items ?w0)"
    and ids1: "id_of (ew_ids w1) ''shop'' ''object'' ''o'' = Some pid" "idmap_wf (ew_ids w1)" "idt_seq (ew_ids w1) \<le> idt_seq (ew_ids ?w0) + 1"
    and coll1: "\<exists>metric. ds_collections (ew_dense w1) ?coll = Some (DenseCollection (cfg_EmbeddingDim ?cfg) metric)"
    and strat1: "strategy_ready (shop_eenv 12) ?cfg tally_strategy ''shop'' w1"
    using prepare_item_ready [OF shop_quiet shop_embeddable row0 _ shop_ids, of shop_lease 12] lease
    unfolding keys by (auto simp: shop_eenv_def)
  let ?em = "\<lparr>em_cfg = ?cfg, em_strategy = tally_strategy, em_vector = replicate 64 2, em_point = pid\<rparr>"
  have "ew_ledger w1 = shop_ledger"
    using prepare_item_rest [of ?w0 "shop_eenv 12" shop_lease ?item] one
    by (simp add: keeps_rest_def shop_eworld_def shop_stored_def shop_cworld_def)
  moreover have "ct_rows (ew_items w1) = [in_flight_row 12 shop_row]" "ct_seq (ew_items w1) = 4"
    by (simp_all add: items1 update_items_def update_where_def shop_eworld_def shop_stored_def keys)
  ultimately obtain c where two: "Ingest (shop_cenv 13) background ''shop'' (Some shop_news) (ew_cat w1) = (Inr (scan_item news_row), c)"
    and c: "cw_ledger c = shop_ledger" "ct_rows (cw_items c) = [news_row]" "ct_seq (cw_items c) = 5"
    using shop_news_ingested [of "ew_cat w1"] by auto
  let ?w = "w1\<lparr>ew_cat := c\<rparr>"
  have news: "ci_id news_row = 3" "ci_namespace news_row = ''shop''" "ci_object_id news_row = ''o''" "ci_content news_row = ''new''"
    "ci_content_hash news_row = ''new''" "ci_state news_row = StatePending" "ci_attempt_count news_row = 0"
    by (simp_all add: conflict_row_def in_flight_row_def fresh_row_def)
  have ready: "embeddable (shop_eenv 14) ?cfg tally_strategy (replicate 64 3) 1 ?w news_row"
  proof -
    have "strategy_ready (shop_eenv 14) ?cfg tally_strategy ''shop'' ?w"
      using strat1 by (simp add: strategy_ready_def strategyCacheKey_def shop_eenv_def Let_def)
    moreover have "collection_fits ?cfg ''shop'' 1 ?w"
      using coll1 by (simp add: collection_fits_def Let_def) (simp add: base_config_def)
    moreover have "idt_seq (ew_ids ?w) \<le> numeric_id_max" using ids1(3) by (simp add: shop_eworld_def numeric_id_max_def)
    ultimately show ?thesis using c(1) news shop_active
      by (simp add: embeddable_def) (simp add: shop_eenv_def base_config_def max_attempts_def tally_strategy_def)
  qed
  have row: "item_row (ew_items ?w) 3 = Some news_row" using c(2) news(1) by simp
  let ?r = "embedded_row 14 ''hashing'' ''v1'' 14 (in_flight_row 14 news_row)"
  have wf: "idmap_wf (ew_ids ?w)" using ids1(2) by simp
  obtain w2 metric where three: "ProcessItem (shop_eenv 14) background 3 ?w = ((OutcomeEmbedded, None), w2)"
    and items2: "ew_items w2 = update_items (\<lambda>x. ci_id x = 3 \<and> ci_content_hash x = ''new'') (embedded_row 14 ''hashing'' ''v1'' 14)
         (update_items (\<lambda>r. ci_id r = 3) (in_flight_row 14) (cw_items c))"
    and row2: "item_row (ew_items w2) 3 = Some ?r"
    and ids2: "id_extends (ew_ids w1) (ew_ids w2)"
    and coll2: "ds_collections (ew_dense w2) ?coll = Some (DenseCollection (cfg_EmbeddingDim ?cfg) metric)"
    using ProcessItem_embeds [OF shop_quiet ready row wf, of background] unfolding news
    by (auto simp: background_def tally_strategy_def) (auto simp: shop_eenv_def)
  have rows2: "ct_rows (ew_items w2) = [?r]" "ct_seq (ew_items w2) = 5"
    by (simp_all add: items2 update_items_def update_where_def c news in_flight_row_def)
  have pid2: "id_of (ew_ids w2) ''shop'' ''object'' ''o'' = Some pid"
    by (rule id_of_extends [OF ids1(2) ids2 ids1(1)])
  have r: "ci_id ?r = 3" "ci_namespace ?r = ''shop''" "ci_content ?r = ''new''" "ci_content_hash ?r = ''new''" "ci_state ?r = StateEmbedded"
    "ci_attempt_count ?r = 0" "ci_strategy_id ?r = Some (cfg_CatalogStrategyID ?cfg)" "ci_strategy_version ?r = Some (cfg_CatalogStrategyVersion ?cfg)"
    using news by (simp_all add: embedded_row_def in_flight_row_def base_config_def)
  have item: "pi_ID ?item = 3" "pi_Namespace ?item = ''shop''" "pi_ContentHash ?item = ''hi''"
    by (simp_all add: pending_item_def fresh_row_def)
  have active: "namespace_active (ew_ledger w2) (pi_Namespace ?item) 1"
    using ProcessItem_rest [of ?w "shop_eenv 14" background 3] three c(1) shop_active item by (simp add: keeps_rest_def)
  have wf2: "catalog_wf (ew_items w2)" using rows2 r by (simp add: catalog_wf_def keyed_def)
  have coll: "ds_collections (ew_dense w2) (CollectionName (NewIncarnation (pi_Namespace ?item) 1) CollectionObjectsDense)
      = Some (DenseCollection (int (length (em_vector ?em))) metric)" using coll2 item by (simp add: base_config_def)
  have lease': "leased shop_lease (pi_Namespace ?item) 1" using lease item by simp
  have at: "item_row (ew_items w2) (pi_ID ?item) = Some ?r" using row2 item by simp
  have other: "ci_namespace ?r = pi_Namespace ?item" "ci_content_hash ?r \<noteq> pi_ContentHash ?item" using r item by simp_all
  have get: "\<forall>c. ev_get (shop_eenv 16) c (pi_Namespace ?item) = Inr (Some ?cfg)" "cfg_DenseSource ?cfg = DenseSourceCatalog"
    by (simp_all add: shop_eenv_def base_config_def)
  from overlapping_embed_leaves_stale_vector [OF shop_quiet shop_quiet lease' active coll wf2 at other r(5) get r(7,8), of 15]
  obtain w' where four: "commit_item (shop_eenv 15) shop_lease ?item ?em w2 = ((OutcomeFailed, Some (EmbedderError ErrStaleItem)), w')"
    "ew_cat w' = ew_cat w2" "ew_ids w' = ew_ids w2"
    "ds_points (ew_dense w') (?coll, pid) = Some (item_point (shop_eenv 15) ?item tally_strategy (ev_clock (shop_eenv 15)) (replicate 64 2))"
    "ProcessItem (shop_eenv 16) background 3 w' = ((OutcomeSkipped, None), w')"
    unfolding item by auto
  have "map (\<lambda>r. (ci_content r, ci_state r)) (ct_rows (ew_items w')) = [(''new'', StateEmbedded)]"
    using four(2) rows2 r by simp
  moreover have "id_of (ew_ids w') ''shop'' ''object'' ''o'' = Some pid" using four(3) pid2 by simp
  moreover have "st_Embed tally_strategy None ''hi'' = Inr (dp_vector (item_point (shop_eenv 15) ?item tally_strategy (ev_clock (shop_eenv 15)) (replicate 64 2)))"
    "st_Embed tally_strategy None ''new'' \<noteq> Inr (dp_vector (item_point (shop_eenv 15) ?item tally_strategy (ev_clock (shop_eenv 15)) (replicate 64 2)))"
    by (simp_all add: tally_strategy_def item_point_def)
  ultimately show ?thesis using one two three four(1,4,5)
    by (intro exI [of _ ?em] exI [of _ w1] exI [of _ "scan_item news_row"] exI [of _ c] exI [of _ w2] exI [of _ w'] exI [of _ pid]
        exI [of _ "item_point (shop_eenv 15) ?item tally_strategy (ev_clock (shop_eenv 15)) (replicate 64 2)"] conjI)
qed

end
