(* ===== verification/Embed_Recovery.thy ===== *)
theory Embed_Recovery
  imports Catalog_Ops Embed_Pipeline
begin

text \<open>
  The background work around the embedder: the sweeper that republishes rows without an entry
  (\<^verbatim>\<open>internal/embedder/recovery_sweeper.go\<close>), the watcher that closes re-embed runs
  (\<^verbatim>\<open>reembed_watcher.go\<close>), the backlog sampler (\<^verbatim>\<open>backlog_sampler.go\<close>) and the registry of
  per-namespace consumers (\<^verbatim>\<open>worker.go\<close>). The list of catalog namespaces is a parameter.
\<close>

section \<open>Recovery sweep\<close>

record RecoverySweeperConfig =
  sw_Interval :: int
  sw_PendingStaleAfter :: int
  sw_InFlightStaleAfter :: int
  sw_BatchSize :: int

definition NewRecoverySweeper :: "RecoverySweeperConfig \<Rightarrow> RecoverySweeperConfig" where
  "NewRecoverySweeper cfg =
     \<lparr>sw_Interval = (if sw_Interval cfg \<le> 0 then minutes 2 else sw_Interval cfg),
      sw_PendingStaleAfter = (if sw_PendingStaleAfter cfg \<le> 0 then minutes 5 else sw_PendingStaleAfter cfg),
      sw_InFlightStaleAfter = (if sw_InFlightStaleAfter cfg \<le> 0 then minutes 15 else sw_InFlightStaleAfter cfg),
      sw_BatchSize = (if sw_BatchSize cfg \<le> 0 then 500 else sw_BatchSize cfg)\<rparr>"

text \<open>What \<^verbatim>\<open>XINFO GROUPS\<close> reports of a group: undelivered entries and delivered, unacknowledged ones.\<close>

record XInfoGroup =
  xg_Name :: string
  xg_Lag :: int
  xg_Pending :: int

record sweep_env =
  sv_lifecycle :: "svc_env option"
  sv_groups :: "string \<Rightarrow> go_error + XInfoGroup list"
  sv_clock :: time
  sv_now :: time
  sv_list :: "go_error option"
  sv_reset :: "go_error option"
  sv_xadd :: "int \<Rightarrow> go_error option"

definition defaultConsumerGroup :: string where
  "defaultConsumerGroup = ''embedder''"

definition embedStreamName :: "namespace \<Rightarrow> int \<Rightarrow> string" where
  "embedStreamName ns g = the (inc_MustPhysicalName (NewIncarnation ns g) KindEmbedStream)"

definition isMissingStreamErr :: "go_error \<Rightarrow> bool" where
  "isMissingStreamErr e = (case e of Failure msg \<Rightarrow> str_contains msg ''no such key'' | _ \<Rightarrow> False)"

definition streamDrained :: "sweep_env \<Rightarrow> namespace \<Rightarrow> int \<Rightarrow> go_error + bool" where
  "streamDrained env ns g =
     (case sv_groups env (embedStreamName ns g) of
        Inl e \<Rightarrow> if isMissingStreamErr e then Inr True else Inl e
      | Inr groups \<Rightarrow>
          (case find (\<lambda>g. xg_Name g = defaultConsumerGroup) groups of
             None \<Rightarrow> Inr True
           | Some g \<Rightarrow> Inr (xg_Lag g = 0 \<and> xg_Pending g = 0)))"

definition sweep_publish ::
  "sweep_env \<Rightarrow> namespace \<Rightarrow> int \<Rightarrow> string \<Rightarrow> string \<Rightarrow> StrandedItem \<Rightarrow> embed_world \<Rightarrow> (go_error + unit) \<times> embed_world" where
  "sweep_publish env ns g sid sver item w =
     (case sv_xadd env (sr_ID item) of
        Some e \<Rightarrow> (Inl e, w)
      | None \<Rightarrow> (Inr (), add_embed_entry (sv_clock env) ns g (sr_ID item) (sr_ObjectID item) sid sver w))"

definition sweepNamespace ::
  "RecoverySweeperConfig \<Rightarrow> sweep_env \<Rightarrow> namespace \<Rightarrow> int \<Rightarrow> string \<Rightarrow> string \<Rightarrow> embed_world \<Rightarrow> embed_world" where
  "sweepNamespace cfg env ns g sid sver w =
     (case streamDrained env ns g of
        Inl _ \<Rightarrow> w
      | Inr False \<Rightarrow> w
      | Inr True \<Rightarrow>
          let now = sv_clock env; limit = nat (sw_BatchSize cfg)
          in case ListStrandedPending (sv_list env) ns (now - sw_PendingStaleAfter cfg) limit (ew_items w) of
               Inl _ \<Rightarrow> w
             | Inr stranded \<Rightarrow>
                 (case ResetStrandedInFlight (sv_reset env) (sv_now env) ns (now - sw_InFlightStaleAfter cfg) limit (ew_items w) of
                    (r, t) \<Rightarrow>
                      let reset = (case r of Inl _ \<Rightarrow> [] | Inr items \<Rightarrow> items)
                      in fold (\<lambda>item w. snd (sweep_publish env ns g sid sver item w)) (stranded @ reset) (with_items t w)))"

text \<open>The tick: \<open>cancelled i\<close> is whether the context had ended before namespace \<open>i\<close>.\<close>

definition sweep_one :: "RecoverySweeperConfig \<Rightarrow> sweep_env \<Rightarrow> lctx \<Rightarrow> Config \<Rightarrow> embed_world \<Rightarrow> embed_world" where
  "sweep_one cfg env ctx c w =
     (let sweep = sweepNamespace cfg env (cfg_Namespace c) (cfg_Generation c) (cfg_CatalogStrategyID c) (cfg_CatalogStrategyVersion c)
      in case sv_lifecycle env of
           None \<Rightarrow> sweep w
         | Some svc \<Rightarrow>
             snd (fst (WithWriter svc ew_ledger ctx (cfg_Namespace c)
                    (\<lambda>leased current w. (Inr (), if lc_Generation current \<noteq> cfg_Generation c then w else sweep w)) w)))"

fun sweep_all ::
  "RecoverySweeperConfig \<Rightarrow> (nat \<Rightarrow> sweep_env) \<Rightarrow> (nat \<Rightarrow> bool) \<Rightarrow> lctx \<Rightarrow> nat \<Rightarrow> Config list \<Rightarrow> embed_world \<Rightarrow> embed_world" where
  "sweep_all cfg env cancelled ctx i [] w = w"
| "sweep_all cfg env cancelled ctx i (c # cs) w =
     (if cancelled i then w else sweep_all cfg env cancelled ctx (Suc i) cs (sweep_one cfg (env i) ctx c w))"

definition sweep_tick ::
  "RecoverySweeperConfig \<Rightarrow> (nat \<Rightarrow> sweep_env) \<Rightarrow> (nat \<Rightarrow> bool) \<Rightarrow> lctx \<Rightarrow> go_error + Config list \<Rightarrow> embed_world \<Rightarrow> embed_world" where
  "sweep_tick cfg env cancelled ctx listed w =
     (case listed of Inl _ \<Rightarrow> w | Inr configs \<Rightarrow> sweep_all cfg env cancelled ctx 0 configs w)"

section \<open>Closing re-embed runs\<close>

record watch_env =
  wa_lifecycle :: "svc_env option"
  wa_clock :: time
  wa_publisher :: bool
  wa_list :: "go_error option"
  wa_stale :: "int \<Rightarrow> go_error option"
  wa_embedded :: "int \<Rightarrow> go_error option"
  wa_complete :: "int \<Rightarrow> go_error option"

record CatalogReembedProgressEvent =
  pg_Namespace :: namespace
  pg_BatchRunID :: int
  pg_Processed :: nat
  pg_Total :: nat
  pg_At :: time

definition CountEmbeddedCatalogItems :: "go_error option \<Rightarrow> namespace \<Rightarrow> string \<Rightarrow> string \<Rightarrow> catalog_table \<Rightarrow> go_error + nat" where
  "CountEmbeddedCatalogItems fault ns sid sver t =
     (case fault of
        Some e \<Rightarrow> Inl e
      | None \<Rightarrow> Inr (length (filter (\<lambda>r. ci_namespace r = ns \<and> ci_state r = StateEmbedded
                                \<and> (ci_strategy_id r, ci_strategy_version r) = (Some sid, Some sver)) (ct_rows t))))"

definition whole_ms :: "int \<Rightarrow> int" where
  "whole_ms d = (if d < 0 then - (- d div 1000000) else d div 1000000)"

definition complete_run :: "watch_env \<Rightarrow> ReembedRun \<Rightarrow> nat \<Rightarrow> ops_world \<Rightarrow> (go_error + unit) \<times> ops_world" where
  "complete_run env run processed w =
     (case CompleteReembedRun (wa_complete env (rr_ID run)) (rr_ID run) (int processed) True []
             (wa_clock env) (whole_ms (wa_clock env - rr_StartedAt run)) (ow_runs w) of
        (None, runs) \<Rightarrow> (Inr (), w\<lparr>ow_runs := runs\<rparr>)
      | (Some e, runs) \<Rightarrow> (Inl e, w\<lparr>ow_runs := runs\<rparr>))"

definition watch_run ::
  "watch_env \<Rightarrow> lctx \<Rightarrow> ReembedRun \<Rightarrow> ops_world \<Rightarrow> CatalogReembedProgressEvent list \<times> ops_world" where
  "watch_run env ctx run w =
     (let ns = rr_Namespace run; sid = rr_TargetStrategyID run; sver = rr_TargetStrategyVersion run
      in case CountStaleCatalogItems (wa_stale env (rr_ID run)) ns sid sver (ow_items w) of
           Inl _ \<Rightarrow> ([], w)
         | Inr stale \<Rightarrow>
             let processed = (case CountEmbeddedCatalogItems (wa_embedded env (rr_ID run)) ns sid sver (ow_items w) of
                                Inl _ \<Rightarrow> 0 | Inr n \<Rightarrow> n);
                 events = (if wa_publisher env
                   then [\<lparr>pg_Namespace = ns, pg_BatchRunID = rr_ID run, pg_Processed = processed, pg_Total = processed + stale,
                          pg_At = wa_clock env\<rparr>] else [])
             in (events,
                 if 0 < stale then w
                 else case wa_lifecycle env of
                        None \<Rightarrow> snd (complete_run env run processed w)
                      | Some svc \<Rightarrow> snd (fst (WithWriter svc (\<lambda>w. ew_ledger (ow_embed w)) ctx ns (\<lambda>_ _ w. complete_run env run processed w) w))))"

fun watch_runs ::
  "watch_env \<Rightarrow> lctx \<Rightarrow> ReembedRun list \<Rightarrow> ops_world \<Rightarrow> CatalogReembedProgressEvent list \<times> ops_world" where
  "watch_runs env ctx [] w = ([], w)"
| "watch_runs env ctx (run # runs) w =
     (case watch_run env ctx run w of
        (evs, w1) \<Rightarrow> (case watch_runs env ctx runs w1 of (evs', w2) \<Rightarrow> (evs @ evs', w2)))"

definition watch_tick :: "watch_env \<Rightarrow> lctx \<Rightarrow> ops_world \<Rightarrow> CatalogReembedProgressEvent list \<times> ops_world" where
  "watch_tick env ctx w =
     (case ListOpenReembedRuns (wa_list env) (ow_runs w) of Inl _ \<Rightarrow> ([], w) | Inr runs \<Rightarrow> watch_runs env ctx runs w)"

section \<open>Backlog samples\<close>

record BacklogSamplerConfig =
  bl_Interval :: int
  bl_ForceWriteAfter :: int

definition NewBacklogSampler :: "BacklogSamplerConfig \<Rightarrow> BacklogSamplerConfig" where
  "NewBacklogSampler cfg =
     \<lparr>bl_Interval = (if bl_Interval cfg \<le> 0 then seconds 30 else bl_Interval cfg),
      bl_ForceWriteAfter = (if bl_ForceWriteAfter cfg \<le> 0 then minutes 5 else bl_ForceWriteAfter cfg)\<rparr>"

definition counts_of :: "backlog_sample \<Rightarrow> BacklogStateCounts" where
  "counts_of s = \<lparr>bc_Pending = sm_pending s, bc_InFlight = sm_in_flight s, bc_Failed = sm_failed s, bc_DeadLetter = sm_dead_letter s\<rparr>"

text \<open>The primary key \<^verbatim>\<open>(namespace, sampled_at)\<close> refuses a second sample of the same instant.\<close>

definition InsertBacklogSample ::
  "go_error option \<Rightarrow> namespace \<Rightarrow> time \<Rightarrow> BacklogStateCounts \<Rightarrow> int \<Rightarrow> backlog_sample list \<Rightarrow> (go_error + unit) \<times> backlog_sample list" where
  "InsertBacklogSample fault ns sampledAt counts streamLen t =
     (case fault of
        Some e \<Rightarrow> (Inl e, t)
      | None \<Rightarrow>
          if lookup_row (\<lambda>s. (sm_namespace s, sm_sampled_at s)) t (ns, sampledAt) \<noteq> None then (Inl (PgError ''23505''), t)
          else (Inr (), t @ [\<lparr>sm_namespace = ns, sm_sampled_at = sampledAt, sm_pending = bc_Pending counts,
                  sm_in_flight = bc_InFlight counts, sm_failed = bc_Failed counts, sm_dead_letter = bc_DeadLetter counts,
                  sm_stream_len = streamLen\<rparr>]))"

definition LatestBacklogSample ::
  "go_error option \<Rightarrow> namespace \<Rightarrow> backlog_sample list \<Rightarrow> go_error + (BacklogStateCounts \<times> int) option" where
  "LatestBacklogSample fault ns t =
     (case fault of
        Some e \<Rightarrow> Inl e
      | None \<Rightarrow>
          Inr (case rev (sort_key sm_sampled_at (filter (\<lambda>s. sm_namespace s = ns) t)) of
                 [] \<Rightarrow> None
               | s # _ \<Rightarrow> Some (counts_of s, sm_stream_len s)))"

record sampleSnapshot =
  ss_counts :: BacklogStateCounts
  ss_streamLen :: int
  ss_at :: time

datatype sampler_event =
    BacklogSnapshot namespace BacklogStateCounts int time
  | DeadLetterGrew namespace nat nat nat time

record sampler_state =
  sl_samples :: "backlog_sample list"
  sl_last :: "namespace \<rightharpoonup> sampleSnapshot"
  sl_events :: "sampler_event list"

record sampler_env =
  sa_redis :: bool
  sa_groups :: "string \<Rightarrow> go_error + XInfoGroup list"
  sa_xlen :: "string \<Rightarrow> go_error + int"
  sa_publisher :: bool
  sa_count :: "go_error option"
  sa_latest :: "go_error option"
  sa_insert :: "go_error option"

definition sampler_streamLen :: "sampler_env \<Rightarrow> namespace \<Rightarrow> int \<Rightarrow> go_error + int" where
  "sampler_streamLen env ns g =
     (let stream = embedStreamName ns g;
          total_len = (case sa_xlen env stream of
             Inl e \<Rightarrow> if e = ErrRedisNil then Inr 0 else Inl e
           | Inr n \<Rightarrow> Inr n)
      in if \<not> sa_redis env then Inr 0
         else case sa_groups env stream of
                Inl _ \<Rightarrow> total_len
              | Inr groups \<Rightarrow>
                  (case find (\<lambda>g. xg_Name g = defaultConsumerGroup) groups of
                     Some g \<Rightarrow> Inr (xg_Lag g + xg_Pending g)
                   | None \<Rightarrow> total_len))"

definition consumerLag :: "sampler_env \<Rightarrow> namespace \<Rightarrow> int \<Rightarrow> go_error + int" where
  "consumerLag env ns g =
     (if \<not> sa_redis env then Inr 0
      else case sa_groups env (embedStreamName ns g) of
             Inl e \<Rightarrow> if e = ErrRedisNil then Inr 0 else Inl e
           | Inr groups \<Rightarrow>
               Inr (case find (\<lambda>g. xg_Name g = defaultConsumerGroup) groups of None \<Rightarrow> 0 | Some g \<Rightarrow> xg_Pending g))"

text \<open>\<^verbatim>\<open>sampleOne\<close> without its gauges: what it remembers, writes and publishes.\<close>

definition sampleOne ::
  "BacklogSamplerConfig \<Rightarrow> sampler_env \<Rightarrow> namespace \<Rightarrow> int \<Rightarrow> time \<Rightarrow> catalog_table \<Rightarrow> sampler_state
   \<Rightarrow> (go_error + unit) \<times> sampler_state" where
  "sampleOne cfg env ns g now items st =
     (case CountBacklogStates (sa_count env) ns items of
        Inl e \<Rightarrow> (Inl e, st)
      | Inr counts \<Rightarrow>
          (case sampler_streamLen env ns g of
             Inl e \<Rightarrow> (Inl e, st)
           | Inr len \<Rightarrow>
               let (prev, st1) =
                     (case sl_last st ns of
                        Some p \<Rightarrow> (Some p, st)
                      | None \<Rightarrow>
                          (case LatestBacklogSample (sa_latest env) ns (sl_samples st) of
                             Inr (Some (db, db_len)) \<Rightarrow>
                               let p = \<lparr>ss_counts = db, ss_streamLen = db_len, ss_at = now\<rparr>
                               in (Some p, st\<lparr>sl_last := (sl_last st)(ns \<mapsto> p)\<rparr>)
                           | _ \<Rightarrow> (None, st)));
                   quiet = (case prev of
                              None \<Rightarrow> False
                            | Some p \<Rightarrow> ss_counts p = counts \<and> ss_streamLen p = len \<and> now - ss_at p < bl_ForceWriteAfter cfg);
                   prevDead = (case prev of None \<Rightarrow> 0 | Some p \<Rightarrow> bc_DeadLetter (ss_counts p))
               in if quiet then (Inr (), st1)
                  else case InsertBacklogSample (sa_insert env) ns now counts len (sl_samples st1) of
                         (Inl e, t) \<Rightarrow> (Inl e, st1\<lparr>sl_samples := t\<rparr>)
                       | (Inr _, t) \<Rightarrow>
                           (Inr (),
                            st1\<lparr>sl_samples := t,
                                sl_last := (sl_last st1)(ns \<mapsto> \<lparr>ss_counts = counts, ss_streamLen = len, ss_at = now\<rparr>),
                                sl_events := sl_events st1 @
                                  (if \<not> sa_publisher env then []
                                   else BacklogSnapshot ns counts len now #
                                     (if prevDead < bc_DeadLetter counts
                                      then [DeadLetterGrew ns prevDead (bc_DeadLetter counts) (bc_DeadLetter counts - prevDead) now]
                                      else []))\<rparr>)))"

definition sampler_tick ::
  "BacklogSamplerConfig \<Rightarrow> (namespace \<Rightarrow> sampler_env) \<Rightarrow> time \<Rightarrow> go_error + Config list \<Rightarrow> catalog_table \<Rightarrow> sampler_state \<Rightarrow> sampler_state" where
  "sampler_tick cfg env now listed items st =
     (case listed of
        Inl _ \<Rightarrow> st
      | Inr cfgs \<Rightarrow>
          fold (\<lambda>c st. snd (sampleOne cfg (env (cfg_Namespace c)) (cfg_Namespace c) (cfg_Generation c) now items st)) cfgs st)"

section \<open>The registry of consumers\<close>

text \<open>Streams with a running consumer; a refresh reports the consumers it starts and stops.\<close>

record refresh_result =
  rs_started :: "(namespace \<times> string) list"
  rs_stopped :: "string list"
  rs_running :: "string list"

definition enabled_streams :: "Config list \<Rightarrow> (string \<times> namespace) list" where
  "enabled_streams cfgs =
     map (\<lambda>c. (embedStreamName (cfg_Namespace c) (cfg_Generation c), cfg_Namespace c)) (filter (\<lambda>c. \<not> cfg_Paused c) cfgs)"

definition refreshNamespaces :: "go_error + Config list \<Rightarrow> string list \<Rightarrow> go_error + refresh_result" where
  "refreshNamespaces listed running =
     (case listed of
        Inl e \<Rightarrow> Inl e
      | Inr cfgs \<Rightarrow>
          let enabled = enabled_streams cfgs; streams = remdups (map fst enabled);
              started = filter (\<lambda>s. s \<notin> set running) streams
          in Inr \<lparr>rs_started = map (\<lambda>s. (the (map_of (rev enabled) s), s)) started,
                  rs_stopped = filter (\<lambda>s. s \<notin> set streams) running,
                  rs_running = filter (\<lambda>s. s \<in> set streams) running @ started\<rparr>)"

definition ensureGroup :: "go_error option \<Rightarrow> go_error option" where
  "ensureGroup created = (case created of None \<Rightarrow> None | Some e \<Rightarrow> if IsBusyGroupError e then None else Some e)"

record WorkerConfig =
  wc_PollInterval :: int
  wc_ReapInterval :: int
  wc_MinIdleReap :: int
  wc_ReadBlockTime :: int
  wc_ReadBatchSize :: int
  wc_ReapBatchSize :: int

definition NewWorker :: "WorkerConfig \<Rightarrow> WorkerConfig" where
  "NewWorker cfg =
     \<lparr>wc_PollInterval = (if wc_PollInterval cfg \<le> 0 then seconds 30 else wc_PollInterval cfg),
      wc_ReapInterval = (if wc_ReapInterval cfg \<le> 0 then seconds 60 else wc_ReapInterval cfg),
      wc_MinIdleReap = (if wc_MinIdleReap cfg \<le> 0 then seconds 60 else wc_MinIdleReap cfg),
      wc_ReadBlockTime = (if wc_ReadBlockTime cfg \<le> 0 then seconds 5 else wc_ReadBlockTime cfg),
      wc_ReadBatchSize = (if wc_ReadBatchSize cfg \<le> 0 then 32 else wc_ReadBatchSize cfg),
      wc_ReapBatchSize = (if wc_ReapBatchSize cfg \<le> 0 then 100 else wc_ReapBatchSize cfg)\<rparr>"

section \<open>What a sweep does\<close>

lemma embedStreamName_generation: "embedStreamName ns g = generationStreamName ns g"
  by (simp add: embedStreamName_def generationStreamName_def)

lemma sweep_publishes_sel [simp]:
  "ew_items (fold (\<lambda>item w. snd (sweep_publish env ns g sid sver item w)) items w) = ew_items w"
  "embed_inv hash build (fold (\<lambda>item w. snd (sweep_publish env ns g sid sver item w)) items w) = embed_inv hash build w"
  by (induction items arbitrary: w) (simp_all add: sweep_publish_def split: option.split)

definition sweep_entry :: "sweep_env \<Rightarrow> namespace \<Rightarrow> int \<Rightarrow> string \<Rightarrow> string \<Rightarrow> StrandedItem \<Rightarrow> string \<times> embed_entry" where
  "sweep_entry env ns g sid sver item =
     (embedStreamName ns g, \<lparr>ee_catalog_item_id = sr_ID item, ee_namespace = ns, ee_namespace_generation = g,
       ee_object_id = sr_ObjectID item, ee_strategy_id = sid, ee_strategy_version = sver, ee_enqueued_at = sv_clock env\<rparr>)"

lemma sweep_publishes_entries:
  "cw_streams (ew_cat (fold (\<lambda>item w. snd (sweep_publish env ns g sid sver item w)) items w))
     = cw_streams (ew_cat w) @ map (sweep_entry env ns g sid sver) (filter (\<lambda>i. sv_xadd env (sr_ID i) = None) items)"
  by (induction items arbitrary: w)
    (simp_all add: sweep_publish_def add_embed_entry_def sweep_entry_def embedStreamName_generation split: option.split)

lemma sweepNamespace_inv:
  assumes "embed_inv hash build w"
  shows "embed_inv hash build (sweepNamespace cfg env ns g sid sver w)"
proof -
  obtain r t where t: "ResetStrandedInFlight (sv_reset env) (sv_now env) ns (sv_clock env - sw_InFlightStaleAfter cfg)
      (nat (sw_BatchSize cfg)) (ew_items w) = (r, t)" by fastforce
  have "embed_inv hash build (with_items t w)" by (rule embed_step_inv [OF embed_step.reset [OF t] assms])
  with assms t show ?thesis by (simp add: sweepNamespace_def Let_def split: sum.split bool.split)
qed

lemma sweep_one_inv:
  assumes "embed_inv hash build w"
  shows "embed_inv hash build (sweep_one cfg env ctx c w)"
proof (cases "sv_lifecycle env")
  case None
  with sweepNamespace_inv [OF assms] show ?thesis by (simp add: sweep_one_def)
next
  case (Some svc)
  have "embed_inv hash build (snd (fst (WithWriter svc ew_ledger ctx (cfg_Namespace c) (\<lambda>leased current w. (Inr (),
      if lc_Generation current \<noteq> cfg_Generation c then w
      else sweepNamespace cfg env (cfg_Namespace c) (cfg_Generation c) (cfg_CatalogStrategyID c) (cfg_CatalogStrategyVersion c) w)) w)))"
    by (rule fence.keeps) (simp_all add: assms sweepNamespace_inv)
  with Some show ?thesis by (simp add: sweep_one_def)
qed

lemma sweep_all_inv: "embed_inv hash build w \<Longrightarrow> embed_inv hash build (sweep_all cfg env cancelled ctx i cs w)"
  by (induction cs arbitrary: i w) (simp_all add: sweep_one_inv)

lemma sweep_tick_inv: "embed_inv hash build w \<Longrightarrow> embed_inv hash build (sweep_tick cfg env cancelled ctx listed w)"
  by (simp add: sweep_tick_def sweep_all_inv split: sum.split)

lemma complete_run_embed: "ow_embed (snd (complete_run env run processed w)) = ow_embed w"
  by (simp add: complete_run_def split: prod.split option.split)

lemma watch_run_embed: "ow_embed (snd (watch_run env ctx run w)) = ow_embed w"
proof -
  have "ow_embed (snd (fst (WithWriter svc led ctx ns (\<lambda>_ _ w. complete_run env run processed w) w))) = ow_embed w"
    for svc led ns processed
    by (rule fence.keeps [where I = "\<lambda>v. ow_embed v = ow_embed w"]) (simp_all add: complete_run_embed)
  then show ?thesis
    unfolding watch_run_def Let_def by (simp add: complete_run_embed split: sum.split option.split)
qed

lemma watch_runs_embed: "ow_embed (snd (watch_runs env ctx runs w)) = ow_embed w"
proof (induction runs arbitrary: w)
  case (Cons run runs)
  show ?case using watch_run_embed [of env ctx run w] Cons by (auto split: prod.split) (metis snd_conv)
qed simp

lemma watch_tick_embed: "ow_embed (snd (watch_tick env ctx w)) = ow_embed w"
  by (simp add: watch_tick_def watch_runs_embed split: sum.split)

section \<open>The whole catalog pipeline\<close>

text \<open>
  Steps of the system with its operators: the steps of \<open>embed_step\<close>, every operator action, the
  sweep, the watcher, and any other change of the run log. A deletion is one whose row delete
  succeeds; what happens otherwise is a property below.
\<close>

inductive ops_step ::
  "(string \<Rightarrow> string) \<Rightarrow> (string \<Rightarrow> string \<Rightarrow> params \<Rightarrow> go_error + strategy) \<Rightarrow> ops_world \<Rightarrow> ops_world \<Rightarrow> bool"
  for hash build where
  embed: "embed_step hash build (ow_embed w) e \<Longrightarrow> ops_step hash build w (w\<lparr>ow_embed := e\<rparr>)"
| reembed: "runs_between env \<Longrightarrow> TriggerReEmbed env ns onlyState w = (res, w') \<Longrightarrow> ops_step hash build w w'"
| redrive: "ops_step hash build w (snd (RedriveCatalogItem env ns i w))"
| bulk: "ops_step hash build w (snd (BulkRedriveDeadletter env ns w))"
| delete: "oe_delete env = None \<Longrightarrow> ops_step hash build w (w\<lparr>ow_embed := snd (DeleteCatalogItem env ctx ns i (ow_embed w))\<rparr>)"
| sweep: "ops_step hash build w (w\<lparr>ow_embed := sweep_tick cfg senv cancelled ctx listed (ow_embed w)\<rparr>)"
| watch: "ops_step hash build w (snd (watch_tick wenv ctx w))"
| runs: "ops_step hash build w (w\<lparr>ow_runs := t\<rparr>)"

lemma ops_step_inv: "ops_step hash build w w' \<Longrightarrow> embed_inv hash build (ow_embed w) \<Longrightarrow> embed_inv hash build (ow_embed w')"
proof (induction rule: ops_step.induct)
  case (embed w e)
  then show ?case by (simp add: embed_step_inv)
next
  case (reembed env ns onlyState w res w')
  then show ?case using TriggerReEmbed_inv [OF reembed.prems reembed.hyps] by blast
next
  case (delete env w ctx ns i)
  then show ?case by (simp add: DeleteCatalogItem_inv)
qed (simp_all add: RedriveCatalogItem_inv BulkRedriveDeadletter_inv sweep_tick_inv watch_tick_embed)

lemma ops_run_inv: "(ops_step hash build)\<^sup>*\<^sup>* w w' \<Longrightarrow> embed_inv hash build (ow_embed w) \<Longrightarrow> embed_inv hash build (ow_embed w')"
  by (induction rule: rtranclp_induct) (auto intro: ops_step_inv)

lemma ops_run_embed:
  assumes "(embed_step hash build)\<^sup>*\<^sup>* (ow_embed w) e"
  shows "(ops_step hash build)\<^sup>*\<^sup>* w (w\<lparr>ow_embed := e\<rparr>)"
  using assms
proof (induction rule: rtranclp_induct)
  case (step e e')
  from ops_step.embed [of hash build "w\<lparr>ow_embed := e\<rparr>" e'] step show ?case by (simp add: rtranclp.rtrancl_into_rtrancl)
qed simp

section \<open>Effects used by the properties\<close>

definition stranded :: "RecoverySweeperConfig \<Rightarrow> sweep_env \<Rightarrow> namespace \<Rightarrow> catalog_row \<Rightarrow> bool" where
  "stranded cfg env ns r \<longleftrightarrow> ci_namespace r = ns \<and>
     (ci_state r = StatePending \<and> ci_updated_at r < sv_clock env - sw_PendingStaleAfter cfg \<or>
      ci_state r = StateInFlight \<and> ci_updated_at r < sv_clock env - sw_InFlightStaleAfter cfg)"

lemma stranded_rows_all:
  assumes "length (filter (stranded cfg env ns) (ct_rows t)) \<le> limit"
  shows "set (stranded_rows StatePending ns (sv_clock env - sw_PendingStaleAfter cfg) limit t)
      = {r \<in> set (ct_rows t). stranded cfg env ns r \<and> ci_state r = StatePending}"
    and "set (stranded_rows StateInFlight ns (sv_clock env - sw_InFlightStaleAfter cfg) limit t)
      = {r \<in> set (ct_rows t). stranded cfg env ns r \<and> ci_state r = StateInFlight}"
proof -
  have "length (filter P (ct_rows t)) \<le> limit" if "\<And>r. P r \<Longrightarrow> stranded cfg env ns r" for P
  proof -
    have "filter P (ct_rows t) = filter P (filter (stranded cfg env ns) (ct_rows t))" using that by (auto intro: filter_cong)
    then have "length (filter P (ct_rows t)) \<le> length (filter (stranded cfg env ns) (ct_rows t))" by (metis length_filter_le)
    with assms show ?thesis by linarith
  qed
  note small = this
  have "set (take limit (sort_key ci_updated_at (filter P (ct_rows t)))) = {r \<in> set (ct_rows t). P r}"
    if "\<And>r. P r \<Longrightarrow> stranded cfg env ns r" for P
    using small [OF that] by (simp add: take_all)
  note all = this
  show "set (stranded_rows StatePending ns (sv_clock env - sw_PendingStaleAfter cfg) limit t)
      = {r \<in> set (ct_rows t). stranded cfg env ns r \<and> ci_state r = StatePending}"
    unfolding stranded_rows_def by (subst all) (auto simp: stranded_def)
  show "set (stranded_rows StateInFlight ns (sv_clock env - sw_InFlightStaleAfter cfg) limit t)
      = {r \<in> set (ct_rows t). stranded cfg env ns r \<and> ci_state r = StateInFlight}"
    unfolding stranded_rows_def by (subst all) (auto simp: stranded_def)
qed

text \<open>A drained namespace within the batch size: exactly the stranded rows get an entry and are pending.\<close>

lemma sweepNamespace_effect:
  assumes "streamDrained env ns g = Inr True" and "sv_list env = None" and "sv_reset env = None" and "catalog_wf (ew_items w)"
    and "length (filter (stranded cfg env ns) (ct_rows (ew_items w))) \<le> nat (sw_BatchSize cfg)"
  shows "\<exists>items. cw_streams (ew_cat (sweepNamespace cfg env ns g sid sver w)) = cw_streams (ew_cat w) @
        map (sweep_entry env ns g sid sver) (filter (\<lambda>i. sv_xadd env (sr_ID i) = None) items)
    \<and> set items = stranded_item ` {r \<in> set (ct_rows (ew_items w)). stranded cfg env ns r}"
    and "ew_items (sweepNamespace cfg env ns g sid sver w) =
      update_items (\<lambda>r. stranded cfg env ns r \<and> ci_state r = StateInFlight) (\<lambda>r. r\<lparr>ci_state := StatePending, ci_updated_at := sv_now env\<rparr>) (ew_items w)"
proof -
  let ?t = "ew_items w" and ?limit = "nat (sw_BatchSize cfg)"
  let ?pend = "stranded_rows StatePending ns (sv_clock env - sw_PendingStaleAfter cfg) ?limit ?t"
  let ?fly = "stranded_rows StateInFlight ns (sv_clock env - sw_InFlightStaleAfter cfg) ?limit ?t"
  note all = stranded_rows_all [OF assms(5)]
  let ?Q = "\<lambda>r. ci_id r \<in> set (map ci_id ?fly)"
  have Q: "?Q r \<longleftrightarrow> stranded cfg env ns r \<and> ci_state r = StateInFlight" if "r \<in> set (ct_rows ?t)" for r
  proof
    assume "?Q r"
    then obtain x where x: "x \<in> set ?fly" "ci_id x = ci_id r" by auto
    then have "x \<in> set (ct_rows ?t)" "stranded cfg env ns x \<and> ci_state x = StateInFlight" using all(2) by auto
    moreover have "x = r" using calculation(1) that x(2) assms(4) by (auto simp: catalog_wf_def keyed_def distinct_map inj_on_def)
    ultimately show "stranded cfg env ns r \<and> ci_state r = StateInFlight" by simp
  next
    assume "stranded cfg env ns r \<and> ci_state r = StateInFlight"
    then have "r \<in> set ?fly" using that all(2) by simp
    then show "?Q r" by auto
  qed
  have w': "sweepNamespace cfg env ns g sid sver w = fold (\<lambda>item w. snd (sweep_publish env ns g sid sver item w))
      (map stranded_item ?pend @ map stranded_item (filter ?Q (ct_rows ?t)))
      (with_items (update_items ?Q (\<lambda>r. r\<lparr>ci_state := StatePending, ci_updated_at := sv_now env\<rparr>) ?t) w)"
    using assms(1-3) by (simp add: sweepNamespace_def ListStrandedPending_def ResetStrandedInFlight_def Let_def)
  have "set (map stranded_item ?pend @ map stranded_item (filter ?Q (ct_rows ?t)))
      = stranded_item ` {r \<in> set (ct_rows ?t). stranded cfg env ns r}"
  proof -
    have "set (filter ?Q (ct_rows ?t)) = {r \<in> set (ct_rows ?t). stranded cfg env ns r \<and> ci_state r = StateInFlight}" using Q by auto
    moreover have "ci_state r = StatePending \<or> ci_state r = StateInFlight" if "stranded cfg env ns r" for r
      using that by (auto simp: stranded_def)
    ultimately show ?thesis unfolding set_append set_map all(1) by blast
  qed
  moreover have "cw_streams (ew_cat (sweepNamespace cfg env ns g sid sver w)) = cw_streams (ew_cat w) @
      map (sweep_entry env ns g sid sver) (filter (\<lambda>i. sv_xadd env (sr_ID i) = None)
        (map stranded_item ?pend @ map stranded_item (filter ?Q (ct_rows ?t))))"
    unfolding w' sweep_publishes_entries by simp
  ultimately show "\<exists>items. cw_streams (ew_cat (sweepNamespace cfg env ns g sid sver w)) = cw_streams (ew_cat w) @
        map (sweep_entry env ns g sid sver) (filter (\<lambda>i. sv_xadd env (sr_ID i) = None) items)
    \<and> set items = stranded_item ` {r \<in> set (ct_rows (ew_items w)). stranded cfg env ns r}" by blast
  have "update_items ?Q f ?t = update_items (\<lambda>r. stranded cfg env ns r \<and> ci_state r = StateInFlight) f ?t" for f
    unfolding update_items_def update_where_def using Q by (auto intro: map_cong)
  then show "ew_items (sweepNamespace cfg env ns g sid sver w) =
      update_items (\<lambda>r. stranded cfg env ns r \<and> ci_state r = StateInFlight) (\<lambda>r. r\<lparr>ci_state := StatePending, ci_updated_at := sv_now env\<rparr>) (ew_items w)"
    unfolding w' by simp
qed

text \<open>Under a healthy fence the tick sweeps the namespace at its current generation, and only then.\<close>

lemma sweep_one_active:
  assumes "namespace_active (ew_ledger w) (cfg_Namespace c) g" and "ctx_lease ctx = None" and "sv_lifecycle env = Some healthy"
  shows "sweep_one cfg env ctx c w = (if g \<noteq> cfg_Generation c then w
    else sweepNamespace cfg env (cfg_Namespace c) (cfg_Generation c) (cfg_CatalogStrategyID c) (cfg_CatalogStrategyVersion c) w)"
proof -
  from assms(1) obtain lc where lc: "sys_state (system_lifecycle (ew_ledger w)) = SystemActive"
    "GetNamespace None (cfg_Namespace c) (ew_ledger w) = Inr lc" "lc_State lc = StateActive" "lc_Generation lc = g"
    by (auto simp: namespace_active_def)
  let ?fn = "\<lambda>(leased :: lctx) (current :: NamespaceLifecycle) w. (Inr () :: go_error + unit,
      if lc_Generation current \<noteq> cfg_Generation c then w
      else sweepNamespace cfg env (cfg_Namespace c) (cfg_Generation c) (cfg_CatalogStrategyID c) (cfg_CatalogStrategyVersion c) w)"
  show ?thesis
    using writer_healthy [of ctx ew_ledger w "cfg_Namespace c" lc ?fn] lc assms(2,3) by (simp add: sweep_one_def)
qed

lemma complete_run_other:
  "rr_ID run \<noteq> i \<Longrightarrow> run_of (ow_runs (snd (complete_run env run processed w))) i = run_of (ow_runs w) i"
  by (cases "wa_complete env (rr_ID run)")
    (auto simp: complete_run_def CompleteReembedRun_def reembed_closed_def intro!: run_of_update_other)

lemma watch_run_other:
  assumes "rr_ID run \<noteq> i"
  shows "run_of (ow_runs (snd (watch_run env ctx run w))) i = run_of (ow_runs w) i"
proof -
  have "run_of (ow_runs (snd (fst (WithWriter svc led ctx ns (\<lambda>_ _ w. complete_run env run processed w) w)))) i = run_of (ow_runs w) i"
    for svc led ns processed
    by (rule fence.keeps [where I = "\<lambda>v. run_of (ow_runs v) i = run_of (ow_runs w) i"]) (simp_all add: complete_run_other [OF assms])
  then show ?thesis
    unfolding watch_run_def Let_def by (simp add: complete_run_other [OF assms] split: sum.split option.split)
qed

lemma watch_runs_other:
  "i \<notin> rr_ID ` set runs \<Longrightarrow> run_of (ow_runs (snd (watch_runs env ctx runs w))) i = run_of (ow_runs w) i"
proof (induction runs arbitrary: w)
  case (Cons run runs)
  have "run_of (ow_runs (snd (watch_run env ctx run w))) i = run_of (ow_runs w) i" using Cons.prems by (intro watch_run_other) auto
  with Cons show ?case by (auto split: prod.split) (metis snd_conv)
qed simp

lemma watch_runs_append: "snd (watch_runs env ctx (xs @ ys) w) = snd (watch_runs env ctx ys (snd (watch_runs env ctx xs w)))"
proof (induction xs arbitrary: w)
  case (Cons x xs)
  show ?case using Cons [of "snd (watch_run env ctx x w)"] by (simp add: case_prod_unfold)
qed simp

text \<open>The rows a re-embed run still waits for, and the rows it counts as done.\<close>

definition awaited :: "namespace \<Rightarrow> string \<times> string \<Rightarrow> catalog_row \<Rightarrow> bool" where
  "awaited ns target r \<longleftrightarrow> ci_namespace r = ns \<and> ci_state r \<in> {StatePending, StateInFlight, StateFailed}
     \<and> off_target (fst target) (snd target) r"

definition reached :: "namespace \<Rightarrow> string \<times> string \<Rightarrow> catalog_row \<Rightarrow> bool" where
  "reached ns target r \<longleftrightarrow> ci_namespace r = ns \<and> ci_state r = StateEmbedded
     \<and> (ci_strategy_id r, ci_strategy_version r) = (Some (fst target), Some (snd target))"

definition quiet_watch :: "watch_env \<Rightarrow> bool" where
  "quiet_watch env \<longleftrightarrow> wa_lifecycle env = Some healthy \<and> wa_list env = None \<and> (\<forall>i. wa_stale env i = None)
     \<and> (\<forall>i. wa_embedded env i = None) \<and> (\<forall>i. wa_complete env i = None)"

lemma watch_run_effect:
  assumes quiet: "quiet_watch env" and active: "namespace_active (ew_ledger (ow_embed w)) (br_Namespace r) g" and ctx: "ctx_lease ctx = None"
    and r: "run_of (ow_runs w) i = Some r" "is_open_reembed r" and target: "target = ReembedTargetFromBatchRow (Some r)"
  shows "run_of (ow_runs (snd (watch_run env ctx (open_run r) w))) i = Some
    (if \<exists>x \<in> set (ct_rows (ow_items w)). awaited (br_Namespace r) target x then r
     else reembed_closed (wa_clock env) (whole_ms (wa_clock env - br_StartedAt r))
            (int (length (filter (reached (br_Namespace r) target) (ct_rows (ow_items w))))) True [] r)"
proof -
  let ?rows = "ct_rows (ow_items w)" and ?ns = "br_Namespace r" and ?run = "open_run r"
  have t: "rr_TargetStrategyID ?run = fst target" "rr_TargetStrategyVersion ?run = snd target"
    "rr_ID ?run = i" "rr_Namespace ?run = ?ns" "rr_StartedAt ?run = br_StartedAt r"
    using target lookup_row_key [OF r(1) [unfolded run_of_def]] by (simp_all add: open_run_def ReembedTargetFromBatchRow_def)
  define n where "n = length (filter (reached ?ns target) ?rows)"
  have count: "CountStaleCatalogItems (wa_stale env i) ?ns (fst target) (snd target) (ow_items w)
      = Inr (length (filter (awaited ?ns target) ?rows))"
    "CountEmbeddedCatalogItems (wa_embedded env i) ?ns (fst target) (snd target) (ow_items w) = Inr n"
    using quiet by (simp_all add: CountStaleCatalogItems_def CountEmbeddedCatalogItems_def quiet_watch_def awaited_def [abs_def]
        reached_def [abs_def] n_def)
  have none: "length (filter (awaited ?ns target) ?rows) = 0 \<longleftrightarrow> \<not> (\<exists>x \<in> set ?rows. awaited ?ns target x)"
    by (simp add: filter_empty_conv)
  obtain lc ctx' where ww: "fst (WithWriter healthy (\<lambda>w. ew_ledger (ow_embed w)) ctx ?ns (\<lambda>_ _ w. complete_run env ?run n w) w)
      = complete_run env ?run n w"
    using namespace_active_writer [of "\<lambda>w. ew_ledger (ow_embed w)" w ?ns g ctx "\<lambda>_ _ w. complete_run env ?run n w", OF active ctx] by blast
  have "run_of (ow_runs (snd (complete_run env ?run n w))) i
      = Some (reembed_closed (wa_clock env) (whole_ms (wa_clock env - br_StartedAt r)) (int n) True [] r)"
    using quiet r t lookup_row_key [OF r(1) [unfolded run_of_def]]
    by (simp add: complete_run_def CompleteReembedRun_def quiet_watch_def run_of_update reembed_closed_def)
  then show ?thesis
    using quiet none r(1) ww unfolding watch_run_def Let_def t count sum.case n_def [symmetric]
    by (auto simp: quiet_watch_def)
qed

lemma watch_tick_effect:
  assumes quiet: "quiet_watch env" and active: "namespace_active (ew_ledger (ow_embed w)) (br_Namespace r) g" and ctx: "ctx_lease ctx = None"
    and wf: "runs_wf (ow_runs w)" and r: "run_of (ow_runs w) i = Some r" "is_open_reembed r"
    and target: "target = ReembedTargetFromBatchRow (Some r)"
  shows "run_of (ow_runs (snd (watch_tick env ctx w))) i = Some
    (if \<exists>x \<in> set (ct_rows (ow_items w)). awaited (br_Namespace r) target x then r
     else reembed_closed (wa_clock env) (whole_ms (wa_clock env - br_StartedAt r))
            (int (length (filter (reached (br_Namespace r) target) (ct_rows (ow_items w))))) True [] r)"
proof -
  let ?opens = "filter is_open_reembed (rt_rows (ow_runs w))"
  have mem: "r \<in> set ?opens" "br_ID r = i" using lookup_row_SomeD [OF r(1) [unfolded run_of_def]] r(2) by auto
  then obtain as bs where split: "?opens = as @ r # bs" by (meson split_list)
  have "distinct (map br_ID ?opens)" using wf by (simp add: runs_wf_def keyed_def distinct_map_filter)
  then have out: "i \<notin> rr_ID ` set (map open_run as)" "i \<notin> rr_ID ` set (map open_run bs)"
    using mem(2) by (auto simp: split open_run_def)
  let ?w1 = "snd (watch_runs env ctx (map open_run as) w)"
  have w1: "run_of (ow_runs ?w1) i = Some r" "ow_embed ?w1 = ow_embed w"
    using watch_runs_other [OF out(1)] r(1) watch_runs_embed by simp_all
  let ?w2 = "snd (watch_run env ctx (open_run r) ?w1)"
  have "snd (watch_tick env ctx w) = snd (watch_runs env ctx (map open_run bs) ?w2)"
    using quiet by (simp add: watch_tick_def ListOpenReembedRuns_def quiet_watch_def split watch_runs_append split: prod.split)
  then have "run_of (ow_runs (snd (watch_tick env ctx w))) i = run_of (ow_runs ?w2) i" using watch_runs_other [OF out(2)] by simp
  then show ?thesis using watch_run_effect [OF quiet _ ctx w1(1) r(2) target, of g] active w1(2) by simp
qed

text \<open>A closed run is none of the watcher's business.\<close>

lemma complete_run_closed:
  assumes "run_of (ow_runs w) i = Some b" and "br_CompletedAt b \<noteq> None"
  shows "run_of (ow_runs (snd (complete_run env run processed w))) i = Some b"
proof (cases "rr_ID run = i")
  case True
  then show ?thesis
    using closed_run_untouched [OF assms, of "wa_complete env i"] by (auto simp: complete_run_def split: prod.split option.split) (metis snd_conv)+
qed (simp add: complete_run_other assms(1))

lemma watch_run_closed:
  assumes "run_of (ow_runs w) i = Some b" and "br_CompletedAt b \<noteq> None"
  shows "run_of (ow_runs (snd (watch_run env ctx run w))) i = Some b"
proof -
  have "run_of (ow_runs (snd (fst (WithWriter svc led ctx ns (\<lambda>_ _ w. complete_run env run processed w) w)))) i = Some b"
    for svc led ns processed
    by (rule fence.keeps [where I = "\<lambda>v. run_of (ow_runs v) i = Some b"]) (simp_all add: assms complete_run_closed)
  then show ?thesis
    unfolding watch_run_def Let_def using assms by (simp add: complete_run_closed split: sum.split option.split)
qed

lemma watch_tick_closed:
  assumes "run_of (ow_runs w) i = Some b" and "br_CompletedAt b \<noteq> None"
  shows "run_of (ow_runs (snd (watch_tick env ctx w))) i = Some b"
proof -
  have "run_of (ow_runs (snd (watch_runs env ctx runs v))) i = Some b" if "run_of (ow_runs v) i = Some b" for runs v
    using that
  proof (induction runs arbitrary: v)
    case (Cons run runs)
    then show ?case using watch_run_closed [OF Cons.prems assms(2)] by (simp add: case_prod_unfold)
  qed simp
  with assms(1) show ?thesis by (simp add: watch_tick_def split: sum.split)
qed

section \<open>A concrete shop\<close>

definition shop_ops :: "embed_world \<Rightarrow> run_table \<Rightarrow> ops_world" where
  "shop_ops w t = \<lparr>ow_embed = w, ow_runs = t, ow_running = []\<rparr>"

definition shop_oenv :: "time \<Rightarrow> ops_env" where
  "shop_oenv now = \<lparr>oe_picker = Some (\<lambda>_. Inr (Some (base_config ''shop'' 1))), oe_namespace = (\<lambda>_. Inr (Some (base_config ''shop'' 1))),
     oe_now = now, oe_find = None, oe_between = (\<lambda>w. w), oe_begin = None, oe_insert = None, oe_reset = None, oe_commit = None,
     oe_redis = True, oe_xadd = (\<lambda>_. None), oe_redrive = None, oe_lifecycle = Some healthy, oe_item = None, oe_deleter = True,
     oe_lookup = None, oe_point = None, oe_delete = None\<rparr>"

abbreviation no_runs :: run_table where
  "no_runs \<equiv> \<lparr>rt_rows = [], rt_seq = 1\<rparr>"

definition shop_reembed :: BatchRunLog where
  "shop_reembed = fresh_run 1 ''shop'' 5 TriggerReembed (Some ''hashing'') (Some ''v1'')"

abbreviation one_run :: run_table where
  "one_run \<equiv> \<lparr>rt_rows = [shop_reembed], rt_seq = 2\<rparr>"

lemma shop_reembed_open [simp]:
  "is_open_reembed shop_reembed" "br_Namespace shop_reembed = ''shop''" "br_ID shop_reembed = 1" "br_StartedAt shop_reembed = 5"
  by (simp_all add: shop_reembed_def fresh_run_def is_open_reembed_def)

section \<open>Properties\<close>

text \<open>C27: As long as deliveries do not overlap, an embedded row can be trusted: after any sequence of
  ingests, deliveries, restarts, sweeps, watcher ticks and operator actions (re-embeds, redrives,
  deletions whose row delete succeeds), with any other failures, every row in state \<^verbatim>\<open>embedded\<close> has
  a point in its namespace's current collection, under the row's own numeric id, that carries its
  object and the recorded strategy and a vector this strategy computed from a content with the
  row's hash. This is what lets a duplicate delivery skip an embedded row.\<close>

theorem embedded_rows_have_their_vector:
  assumes "embed_start (ow_embed w0)" and "(ops_step hash build)\<^sup>*\<^sup>* w0 w"
    and "r \<in> set (ct_rows (ow_items w))" and "ci_state r = StateEmbedded"
  shows "\<exists>g pid p s. phase (ew_ledger (ow_embed w)) (ci_namespace r) = ActiveAt g
    \<and> id_of (ew_ids (ow_embed w)) (ci_namespace r) ''object'' (ci_object_id r) = Some pid
    \<and> ds_points (ew_dense (ow_embed w)) (CollectionName (NewIncarnation (ci_namespace r) g) CollectionObjectsDense, pid) = Some p
    \<and> dp_object_id p = ci_object_id r \<and> dp_namespace p = ci_namespace r
    \<and> ci_strategy_id r = Some (st_ID s) \<and> ci_strategy_version r = Some (st_Version s)
    \<and> dp_strategy_id p = st_ID s \<and> dp_strategy_version p = st_Version s
    \<and> (\<exists>sid ver ps. build sid ver ps = Inr s)
    \<and> (\<exists>content c. hash content = ci_content_hash r \<and> st_Embed s c content = Inr (dp_vector p))"
proof -
  have "embed_inv hash build (ow_embed w)" by (rule ops_run_inv [OF assms(2) embed_start_inv [OF assms(1)]])
  with assms(3,4) have "has_vector hash build (ew_ledger (ow_embed w)) (ew_ids (ow_embed w)) (ds_points (ew_dense (ow_embed w))) r"
    by (simp add: embed_inv_def list_all_iff item_ok_def)
  then show ?thesis unfolding has_vector_def .
qed

theorem embedded_rows_have_their_vector_witness:
  "\<exists>w r pid p. (ops_step (\<lambda>c. c) (\<lambda>_ _ _. Inr tally_strategy))\<^sup>*\<^sup>* (shop_ops (shop_eworld shop_cworld) no_runs) w
     \<and> r \<in> set (ct_rows (ow_items w)) \<and> ci_state r = StateEmbedded \<and> ci_object_id r = ''o''
     \<and> ds_points (ew_dense (ow_embed w)) (CollectionName (NewIncarnation ''shop'' 1) CollectionObjectsDense, pid) = Some p
     \<and> dp_object_id p = ''o'' \<and> dp_strategy_id p = ''hashing''"
proof -
  let ?W = "shop_ops (shop_eworld shop_cworld) no_runs" and ?step = "ops_step (\<lambda>c. c) (\<lambda>_ _ _. Inr tally_strategy)"
  obtain w r where run: "(embed_step (\<lambda>c. c) (\<lambda>_ _ _. Inr tally_strategy))\<^sup>*\<^sup>* (shop_eworld shop_cworld) w"
    and start: "embed_start (shop_eworld shop_cworld)" and ph: "phase (ew_ledger w) ''shop'' = ActiveAt 1"
    and row: "item_row (ew_items w) 3 = Some r" and r: "ci_state r = StateEmbedded" "ci_namespace r = ''shop''" "ci_object_id r = ''o''"
    using shop_embedded_run by blast
  let ?w = "?W\<lparr>ow_embed := w\<rparr>"
  have run': "?step\<^sup>*\<^sup>* ?W ?w" by (rule ops_run_embed) (simp add: run shop_ops_def)
  have mem: "r \<in> set (ct_rows (ow_items ?w))" using lookup_row_SomeD [OF row] by simp
  have start': "embed_start (ow_embed ?W)" using start by (simp add: shop_ops_def)
  from embedded_rows_have_their_vector [OF start' run' mem r(1)] ph r(2,3)
  obtain pid p s where pt: "ds_points (ew_dense (ow_embed ?w)) (CollectionName (NewIncarnation ''shop'' 1) CollectionObjectsDense, pid) = Some p"
      "dp_object_id p = ''o''"
    and s: "dp_strategy_id p = st_ID s" "\<exists>sid ver ps. (\<lambda>_ _ _. Inr tally_strategy) sid ver ps = (Inr s :: go_error + strategy)"
    by auto
  have "dp_strategy_id p = ''hashing''" using s by (auto simp: tally_strategy_def)
  with run' mem r(1,3) pt show ?thesis by (intro exI conjI)
qed



text \<open>C33: Nothing stays stranded: when the stream of an active catalog namespace owes its consumers
  nothing, a sweep gives every pending row left alone for the staleness window and every row in
  flight left alone for its own, as long as they fit into one batch, a new entry on the stream of
  the current generation, and leaves them pending with content and attempts as they were; no other
  row gets an entry. (Rows in state \<^verbatim>\<open>failed\<close> are not recovered this way.)\<close>

theorem stranded_items_are_republished:
  assumes active: "namespace_active (ew_ledger w) (cfg_Namespace c) (cfg_Generation c)" and env: "ctx_lease ctx = None" "sv_lifecycle env = Some healthy"
    and drained: "streamDrained env (cfg_Namespace c) (cfg_Generation c) = Inr True" and db: "sv_list env = None" "sv_reset env = None"
    and wf: "catalog_wf (ew_items w)"
    and fits: "length (filter (stranded cfg env (cfg_Namespace c)) (ct_rows (ew_items w))) \<le> nat (sw_BatchSize cfg)"
    and w': "w' = sweep_one cfg env ctx c w"
  shows "\<exists>added. cw_streams (ew_cat w') = cw_streams (ew_cat w) @ added
    \<and> (\<forall>r \<in> set (ct_rows (ew_items w)). stranded cfg env (cfg_Namespace c) r \<longrightarrow>
          (\<exists>r'. item_row (ew_items w') (ci_id r) = Some r' \<and> ci_state r' = StatePending \<and> ci_content r' = ci_content r
             \<and> ci_attempt_count r' = ci_attempt_count r)
          \<and> (sv_xadd env (ci_id r) = None \<longrightarrow>
               (\<exists>e. (embedStreamName (cfg_Namespace c) (cfg_Generation c), e) \<in> set added \<and> ee_catalog_item_id e = ci_id r
                  \<and> ee_namespace_generation e = cfg_Generation c)))
    \<and> (\<forall>(stream, e) \<in> set added. \<exists>r \<in> set (ct_rows (ew_items w)). stranded cfg env (cfg_Namespace c) r \<and> ee_catalog_item_id e = ci_id r)"
proof -
  let ?ns = "cfg_Namespace c" and ?g = "cfg_Generation c" and ?sid = "cfg_CatalogStrategyID c" and ?sver = "cfg_CatalogStrategyVersion c"
  let ?f = "\<lambda>r. r\<lparr>ci_state := StatePending, ci_updated_at := sv_now env\<rparr>"
  have sw: "w' = sweepNamespace cfg env ?ns ?g ?sid ?sver w" using sweep_one_active [OF active env] w' by simp
  note effect = sweepNamespace_effect [OF drained db wf fits, of ?sid ?sver]
  obtain items where added: "cw_streams (ew_cat w') = cw_streams (ew_cat w) @
        map (sweep_entry env ?ns ?g ?sid ?sver) (filter (\<lambda>i. sv_xadd env (sr_ID i) = None) items)"
    and items: "set items = stranded_item ` {r \<in> set (ct_rows (ew_items w)). stranded cfg env ?ns r}"
    using effect(1) sw by blast
  have "\<exists>r'. item_row (ew_items w') (ci_id r) = Some r' \<and> ci_state r' = StatePending \<and> ci_content r' = ci_content r
      \<and> ci_attempt_count r' = ci_attempt_count r" if "r \<in> set (ct_rows (ew_items w))" "stranded cfg env ?ns r" for r
    using that lookup_row_mem [of ci_id "ct_rows (ew_items w)" r] wf
    by (auto simp: sw effect(2) item_row_update [OF moves_rows(4)] catalog_wf_def stranded_def)
  moreover have "\<exists>e. (embedStreamName ?ns ?g, e) \<in> set (map (sweep_entry env ?ns ?g ?sid ?sver) (filter (\<lambda>i. sv_xadd env (sr_ID i) = None) items))
      \<and> ee_catalog_item_id e = ci_id r \<and> ee_namespace_generation e = ?g"
    if "r \<in> set (ct_rows (ew_items w))" "stranded cfg env ?ns r" "sv_xadd env (ci_id r) = None" for r
  proof -
    have "stranded_item r \<in> set (filter (\<lambda>i. sv_xadd env (sr_ID i) = None) items)" using that by (auto simp: items stranded_item_def)
    then have "sweep_entry env ?ns ?g ?sid ?sver (stranded_item r)
        \<in> set (map (sweep_entry env ?ns ?g ?sid ?sver) (filter (\<lambda>i. sv_xadd env (sr_ID i) = None) items))" by simp
    then show ?thesis by (auto simp: sweep_entry_def stranded_item_def)
  qed
  moreover have "\<forall>(stream, e) \<in> set (map (sweep_entry env ?ns ?g ?sid ?sver) (filter (\<lambda>i. sv_xadd env (sr_ID i) = None) items)).
      \<exists>r \<in> set (ct_rows (ew_items w)). stranded cfg env ?ns r \<and> ee_catalog_item_id e = ci_id r"
    by (auto simp: items sweep_entry_def stranded_item_def)
  ultimately show ?thesis using added by blast
qed

definition shop_sweep :: "time \<Rightarrow> sweep_env" where
  "shop_sweep now = \<lparr>sv_lifecycle = Some healthy, sv_groups = (\<lambda>_. Inr [\<lparr>xg_Name = ''embedder'', xg_Lag = 0, xg_Pending = 0\<rparr>]),
     sv_clock = now, sv_now = now, sv_list = None, sv_reset = None, sv_xadd = (\<lambda>_. None)\<rparr>"

definition sweep_defaults :: RecoverySweeperConfig where
  "sweep_defaults = NewRecoverySweeper \<lparr>sw_Interval = 0, sw_PendingStaleAfter = 0, sw_InFlightStaleAfter = 0, sw_BatchSize = 0\<rparr>"

theorem stranded_items_are_republished_witness:
  "let now = minutes 20; w = with_items \<lparr>ct_rows = [in_flight_row 12 shop_row], ct_seq = 4\<rparr> (shop_eworld shop_cworld);
       w' = sweep_one sweep_defaults (shop_sweep now) background (base_config ''shop'' 1) w
   in \<exists>e r'. (embedStreamName ''shop'' 1, e) \<in> set (cw_streams (ew_cat w')) \<and> ee_catalog_item_id e = 3
      \<and> item_row (ew_items w') 3 = Some r' \<and> ci_state r' = StatePending \<and> ci_attempt_count r' = 1"
proof -
  let ?r = "in_flight_row 12 shop_row" and ?env = "shop_sweep (minutes 20)" and ?c = "base_config ''shop'' 1"
  let ?w = "with_items \<lparr>ct_rows = [?r], ct_seq = 4\<rparr> (shop_eworld shop_cworld)"
  let ?w' = "sweep_one sweep_defaults ?env background ?c ?w"
  have r: "ci_id ?r = 3" "ci_namespace ?r = ''shop''" "ci_state ?r = StateInFlight" "ci_updated_at ?r = 12" "ci_attempt_count ?r = 1"
    by (simp_all add: in_flight_row_def fresh_row_def)
  have c: "cfg_Namespace ?c = ''shop''" "cfg_Generation ?c = 1" by (simp_all add: base_config_def)
  have items: "ew_items ?w = \<lparr>ct_rows = [?r], ct_seq = 4\<rparr>" by simp
  have str: "stranded sweep_defaults ?env ''shop'' ?r"
    using r by (simp add: stranded_def sweep_defaults_def NewRecoverySweeper_def shop_sweep_def minutes_def seconds_def)
  have active: "namespace_active (ew_ledger ?w) (cfg_Namespace ?c) (cfg_Generation ?c)"
    using shop_active c by (simp add: shop_eworld_def shop_cworld_def)
  have env: "ctx_lease background = None" "sv_lifecycle ?env = Some healthy" "sv_list ?env = None" "sv_reset ?env = None"
    by (simp_all add: background_def shop_sweep_def)
  have drained: "streamDrained ?env (cfg_Namespace ?c) (cfg_Generation ?c) = Inr True"
    by (simp add: streamDrained_def shop_sweep_def defaultConsumerGroup_def)
  have wf: "catalog_wf (ew_items ?w)" unfolding items using r by (simp add: catalog_wf_def keyed_def)
  have fits: "length (filter (stranded sweep_defaults ?env (cfg_Namespace ?c)) (ct_rows (ew_items ?w))) \<le> nat (sw_BatchSize sweep_defaults)"
    unfolding items by (simp add: sweep_defaults_def NewRecoverySweeper_def)
  have ok: "sv_xadd ?env (ci_id ?r) = None" by (simp add: shop_sweep_def)
  define w' where "w' = ?w'"
  from stranded_items_are_republished [OF active env(1,2) drained env(3,4) wf fits w'_def]
  have "\<exists>e. (embedStreamName ''shop'' 1, e) \<in> set (cw_streams (ew_cat w')) \<and> ee_catalog_item_id e = 3"
    "\<exists>r'. item_row (ew_items w') 3 = Some r' \<and> ci_state r' = StatePending \<and> ci_attempt_count r' = 1"
    using str ok r unfolding c items by auto
  then show ?thesis unfolding Let_def w'_def by blast
qed

text \<open>C34: A re-embed run is closed exactly when nothing is left to wait for: a watcher tick over an active
  namespace leaves the open run as it is while some row of the namespace is pending, in flight or
  failed off the run's target, and otherwise closes it as a success with the number of rows
  embedded at that target, whatever other runs are open.\<close>

theorem reembed_run_closes_when_drained:
  assumes "quiet_watch env" and "namespace_active (ew_ledger (ow_embed w)) (br_Namespace r) g" and "ctx_lease ctx = None"
    and "runs_wf (ow_runs w)" and "run_of (ow_runs w) i = Some r" and "is_open_reembed r"
    and "target = ReembedTargetFromBatchRow (Some r)"
  shows "run_of (ow_runs (snd (watch_tick env ctx w))) i = Some
    (if \<exists>x \<in> set (ct_rows (ow_items w)). awaited (br_Namespace r) target x then r
     else r\<lparr>br_CompletedAt := Some (wa_clock env), br_DurationMs := Some (whole_ms (wa_clock env - br_StartedAt r)),
            br_EntitiesProcessed := int (length (filter (reached (br_Namespace r) target) (ct_rows (ow_items w)))),
            br_Success := True, br_ErrorMessage := None\<rparr>)"
  using watch_tick_effect [OF assms] by (simp add: reembed_closed_def)

definition shop_watch :: "time \<Rightarrow> watch_env" where
  "shop_watch now = \<lparr>wa_lifecycle = Some healthy, wa_clock = now, wa_publisher = False, wa_list = None, wa_stale = (\<lambda>_. None),
     wa_embedded = (\<lambda>_. None), wa_complete = (\<lambda>_. None)\<rparr>"

theorem reembed_run_closes_when_drained_witness:
  "map_option br_Success (run_of (ow_runs (snd (watch_tick (shop_watch 30) background
      (shop_ops (with_items \<lparr>ct_rows = [embedded_row 9 ''hashing'' ''v1'' 9 shop_row], ct_seq = 4\<rparr> (shop_eworld shop_cworld)) one_run)))) 1) = Some True
   \<and> map_option br_CompletedAt (run_of (ow_runs (snd (watch_tick (shop_watch 30) background
      (shop_ops (with_items \<lparr>ct_rows = [shop_row], ct_seq = 4\<rparr> (shop_eworld shop_cworld)) one_run)))) 1) = Some None"
proof -
  have quiet: "quiet_watch (shop_watch 30)" by (simp add: quiet_watch_def shop_watch_def)
  have ctx: "ctx_lease background = None" by (simp add: background_def)
  let ?w = "\<lambda>rows. shop_ops (with_items \<lparr>ct_rows = rows, ct_seq = 4\<rparr> (shop_eworld shop_cworld)) one_run"
  have active: "namespace_active (ew_ledger (ow_embed (?w rows))) (br_Namespace shop_reembed) 1" for rows
    using shop_active by (simp add: shop_ops_def shop_eworld_def shop_cworld_def)
  have wf: "runs_wf (ow_runs (?w rows))" and run: "run_of (ow_runs (?w rows)) 1 = Some shop_reembed"
    and items: "ct_rows (ow_items (?w rows)) = rows" for rows
    by (simp_all add: shop_ops_def runs_wf_def keyed_def run_of_def)
  note closes = reembed_run_closes_when_drained [OF quiet active ctx wf run shop_reembed_open(1) refl, unfolded items]
  have target: "ReembedTargetFromBatchRow (Some shop_reembed) = (''hashing'', ''v1'')"
    by (simp add: ReembedTargetFromBatchRow_def shop_reembed_def fresh_run_def)
  have "br_CompletedAt shop_reembed = None" by (simp add: shop_reembed_def fresh_run_def)
  moreover have "awaited ''shop'' (''hashing'', ''v1'') shop_row" "\<not> awaited ''shop'' (''hashing'', ''v1'') (embedded_row 9 ''hashing'' ''v1'' 9 shop_row)"
    by (simp_all add: awaited_def off_target_def fresh_row_def embedded_row_def)
  ultimately show ?thesis using closes [of "[shop_row]"] closes [of "[embedded_row 9 ''hashing'' ''v1'' 9 shop_row]"] unfolding target by simp
qed

text \<open>C35: The orphan sweep of the batch job closes a re-embed that is still running: an open re-embed run
  older than the cutoff is marked failed as if its process had died, although the embedder is still
  at work; the watcher never completes it afterwards, and nothing stands in the way of a second
  re-embed of the namespace.\<close>

theorem orphan_sweep_closes_running_reembed:
  assumes r: "run_of t i = Some r" "is_open_reembed r" "br_StartedAt r < cutoff"
    and range: "\<forall>x \<in> set (rt_rows t). \<bar>orphan_ms now x\<bar> < 2 ^ 31"
    and only: "\<forall>x \<in> set (rt_rows t). br_Namespace x = br_Namespace r \<and> is_open_reembed x \<longrightarrow> br_StartedAt x < cutoff"
    and w: "ow_runs w = snd (FinalizeOrphanRuns None now cutoff t)"
  shows "\<exists>b. run_of (ow_runs w) i = Some b \<and> br_CompletedAt b = Some now \<and> \<not> br_Success b \<and> br_ErrorMessage b = Some OrphanedRunMessage
    \<and> FindRunningReembedRun None (br_Namespace r) (ow_runs w) = Inr None
    \<and> run_of (ow_runs (snd (watch_tick env ctx w))) i = Some b"
proof -
  have runs: "ow_runs w = update_runs (orphaned cutoff) (orphan_closed now) t"
    using range w by (auto simp: FinalizeOrphanRuns_def list_ex_iff)
  have orph: "orphaned cutoff r" using r(2,3) by (simp add: orphaned_def is_open_reembed_def)
  have b: "run_of (ow_runs w) i = Some (orphan_closed now r)" using r(1) orph by (simp add: runs run_of_update)
  have closed: "\<not> is_open_reembed (orphan_closed now x)" for x by (simp add: is_open_reembed_def)
  have "\<not> (br_Namespace x = br_Namespace r \<and> is_open_reembed x)" if "x \<in> set (rt_rows (ow_runs w))" for x
  proof -
    from that obtain y where y: "y \<in> set (rt_rows t)" "x = (if orphaned cutoff y then orphan_closed now y else y)"
      by (auto simp: runs update_runs_def update_where_mem)
    show ?thesis
    proof (cases "orphaned cutoff y")
      case False
      then show ?thesis using y only by (auto simp: orphaned_def is_open_reembed_def)
    qed (simp add: y(2) closed)
  qed
  then have "FindRunningReembedRun None (br_Namespace r) (ow_runs w) = Inr None" unfolding FindRunning_None_iff by blast
  moreover have "run_of (ow_runs (snd (watch_tick env ctx w))) i = Some (orphan_closed now r)"
    by (rule watch_tick_closed [OF b]) simp
  moreover have "br_ErrorMessage (orphan_closed now r) = Some OrphanedRunMessage" by (simp add: orphan_closed_def)
  ultimately show ?thesis using b by (intro exI [of _ "orphan_closed now r"]) simp
qed

theorem orphan_sweep_closes_running_reembed_witness:
  "\<exists>b w'. let w = shop_ops (with_items \<lparr>ct_rows = [shop_row], ct_seq = 4\<rparr> (shop_eworld shop_cworld))
                (snd (FinalizeOrphanRuns None (minutes 100) (minutes 10) one_run))
     in run_of (ow_runs w) 1 = Some b \<and> \<not> br_Success b \<and> w' = snd (watch_tick (shop_watch (minutes 101)) background w)
        \<and> run_of (ow_runs w') 1 = Some b \<and> FindRunningReembedRun None ''shop'' (ow_runs w) = Inr None
        \<and> map ci_state (ct_rows (ow_items w)) = [StatePending]"
proof -
  let ?w = "shop_ops (with_items \<lparr>ct_rows = [shop_row], ct_seq = 4\<rparr> (shop_eworld shop_cworld))
                (snd (FinalizeOrphanRuns None (minutes 100) (minutes 10) one_run))"
  have r: "run_of one_run 1 = Some shop_reembed" "br_StartedAt shop_reembed < minutes 10"
    by (simp_all add: run_of_def minutes_def seconds_def)
  have range: "\<forall>x \<in> set (rt_rows one_run). \<bar>orphan_ms (minutes 100) x\<bar> < 2 ^ 31"
    by (simp add: orphan_ms_def round_div_def minutes_def seconds_def)
  have only: "\<forall>x \<in> set (rt_rows one_run). br_Namespace x = br_Namespace shop_reembed \<and> is_open_reembed x \<longrightarrow> br_StartedAt x < minutes 10"
    using r by simp
  have w: "ow_runs ?w = snd (FinalizeOrphanRuns None (minutes 100) (minutes 10) one_run)" by (simp add: shop_ops_def)
  have state: "map ci_state (ct_rows (ow_items ?w)) = [StatePending]" by (simp add: shop_ops_def fresh_row_def)
  from orphan_sweep_closes_running_reembed [OF r(1) shop_reembed_open(1) r(2) range only w, of "shop_watch (minutes 101)" background] state
  show ?thesis unfolding Let_def by auto
qed

text \<open>C36: Deleting an item can take its vector and leave it marked embedded: when the point is gone and
  the row delete then fails, the row stays in state \<^verbatim>\<open>embedded\<close> without a point, and every later
  delivery skips it as already done, so that only an operator's re-embed or a repeated delete
  repairs it.\<close>

theorem failed_delete_loses_vector:
  assumes env: "oe_lifecycle env = Some healthy" "ctx_lease ctx = None" "oe_item env = None" "oe_deleter env" "oe_lookup env = None"
      "oe_point env = None" "oe_delete env = Some e"
    and active: "namespace_active (ew_ledger w) (ci_namespace r) g"
    and row: "item_row (ew_items w) i = Some r" "ci_state r = StateEmbedded"
    and pid: "id_of (ew_ids w) (ci_namespace r) ''object'' (ci_object_id r) = Some pid"
    and cfg: "quiet_env env'" "\<forall>c. ev_get env' c (ci_namespace r) = Inr (Some cfg)" "cfg_DenseSource cfg = DenseSourceCatalog"
      "ci_strategy_id r = Some (cfg_CatalogStrategyID cfg)" "ci_strategy_version r = Some (cfg_CatalogStrategyVersion cfg)"
  shows "\<exists>w'. DeleteCatalogItem env ctx (ci_namespace r) i w = (Inl e, w')
    \<and> item_row (ew_items w') i = Some r
    \<and> ds_points (ew_dense w') (CollectionName (NewIncarnation (ci_namespace r) g) CollectionObjectsDense, pid) = None
    \<and> ProcessItem env' ctx i w' = ((OutcomeSkipped, None), w')"
proof -
  let ?coll = "CollectionName (NewIncarnation (ci_namespace r) g) CollectionObjectsDense"
  let ?w = "with_items (ew_items w) (w\<lparr>ew_dense := (ew_dense w)\<lparr>ds_points := (ds_points (ew_dense w))((?coll, pid) := None)\<rparr>\<rparr>)"
  from active obtain lc where lc: "sys_state (system_lifecycle (ew_ledger w)) = SystemActive"
    "GetNamespace None (ci_namespace r) (ew_ledger w) = Inr lc" "lc_State lc = StateActive" "lc_Generation lc = g"
    by (auto simp: namespace_active_def)
  have "deleteCatalogItemGeneration env (ci_namespace r) g i w = (Inl e, ?w)"
    using env(3-7) row(1) pid
    by (simp add: deleteCatalogItemGeneration_def repo_GetCatalogItem_def item_detail_def LookupNumericObjectID_def DeletePoint_def
        repo_DeleteCatalogItem_def Let_def)
  then have del: "DeleteCatalogItem env ctx (ci_namespace r) i w = (Inl e, ?w)"
    using writer_healthy [of ctx ew_ledger w "ci_namespace r" lc
        "\<lambda>leased current w. deleteCatalogItemGeneration env (ci_namespace r) (lc_Generation current) i w"] lc env(1,2)
    by (simp add: DeleteCatalogItem_def)
  have row': "item_row (ew_items ?w) i = Some r" "namespace_active (ew_ledger ?w) (ci_namespace r) g" using row active by simp_all
  have "ProcessItem env' ctx i ?w = ((OutcomeSkipped, None), ?w)"
    by (rule ProcessItem_skips_embedded [OF cfg(1) row'(2,1) row(2) cfg(2-5) env(2)])
  with del row' show ?thesis by (intro exI [of _ ?w]) simp
qed

theorem failed_delete_loses_vector_witness:
  "\<exists>w w' pid r p. (embed_step (\<lambda>c. c) (\<lambda>_ _ _. Inr tally_strategy))\<^sup>*\<^sup>* (shop_eworld shop_cworld) w
     \<and> ds_points (ew_dense w) (CollectionName (NewIncarnation ''shop'' 1) CollectionObjectsDense, pid) = Some p
     \<and> DeleteCatalogItem ((shop_oenv 20)\<lparr>oe_delete := Some (Failure ''down'')\<rparr>) background ''shop'' 3 w = (Inl (Failure ''down''), w')
     \<and> item_row (ew_items w') 3 = Some r \<and> ci_state r = StateEmbedded
     \<and> ds_points (ew_dense w') (CollectionName (NewIncarnation ''shop'' 1) CollectionObjectsDense, pid) = None
     \<and> ProcessItem (shop_eenv 21) background 3 w' = ((OutcomeSkipped, None), w')"
proof -
  obtain w r where run: "(embed_step (\<lambda>c. c) (\<lambda>_ _ _. Inr tally_strategy))\<^sup>*\<^sup>* (shop_eworld shop_cworld) w"
    and start: "embed_start (shop_eworld shop_cworld)" and led: "ew_ledger w = shop_ledger" "phase (ew_ledger w) ''shop'' = ActiveAt 1"
    and row: "item_row (ew_items w) 3 = Some r" "ci_state r = StateEmbedded" "ci_namespace r = ''shop''" "ci_object_id r = ''o''"
      "ci_strategy_id r = Some ''hashing''" "ci_strategy_version r = Some ''v1''"
    using shop_embedded_run by blast
  let ?env = "(shop_oenv 20)\<lparr>oe_delete := Some (Failure ''down'')\<rparr>" and ?cfg = "base_config ''shop'' 1"
  have "embed_inv (\<lambda>c. c) (\<lambda>_ _ _. Inr tally_strategy) w" by (rule embed_run_inv [OF run embed_start_inv [OF start]])
  then have "has_vector (\<lambda>c. c) (\<lambda>_ _ _. Inr tally_strategy) (ew_ledger w) (ew_ids w) (ds_points (ew_dense w)) r"
    using lookup_row_SomeD [OF row(1)] row(2) by (auto simp: embed_inv_def item_ok_def list_all_iff)
  then obtain pid p where pid: "id_of (ew_ids w) (ci_namespace r) ''object'' (ci_object_id r) = Some pid"
    "ds_points (ew_dense w) (CollectionName (NewIncarnation ''shop'' 1) CollectionObjectsDense, pid) = Some p"
    using led(2) row(3) by (auto simp: has_vector_def)
  have env: "oe_lifecycle ?env = Some healthy" "ctx_lease background = None" "oe_item ?env = None" "oe_deleter ?env" "oe_lookup ?env = None"
    "oe_point ?env = None" "oe_delete ?env = Some (Failure ''down'')" by (simp_all add: shop_oenv_def background_def)
  have active: "namespace_active (ew_ledger w) (ci_namespace r) 1" using shop_active led row by simp
  have cfg: "\<forall>c. ev_get (shop_eenv 21) c (ci_namespace r) = Inr (Some ?cfg)" "cfg_DenseSource ?cfg = DenseSourceCatalog"
    "ci_strategy_id r = Some (cfg_CatalogStrategyID ?cfg)" "ci_strategy_version r = Some (cfg_CatalogStrategyVersion ?cfg)"
    using row by (simp_all add: shop_eenv_def base_config_def)
  from failed_delete_loses_vector [OF env active row(1,2) pid(1) shop_quiet cfg]
  obtain w' where "DeleteCatalogItem ?env background ''shop'' 3 w = (Inl (Failure ''down''), w')" "item_row (ew_items w') 3 = Some r"
    "ds_points (ew_dense w') (CollectionName (NewIncarnation ''shop'' 1) CollectionObjectsDense, pid) = None"
    "ProcessItem (shop_eenv 21) background 3 w' = ((OutcomeSkipped, None), w')"
    unfolding row(3) by blast
  with run pid(2) row(2) show ?thesis by (intro exI conjI)
qed

end
