(* ===== verification/Sparse_Vectors.thy ===== *)
theory Sparse_Vectors
  imports Core_Types "HOL-Library.AList" "HOL-Library.Word" "HOL-Library.Multiset"
begin

text \<open>
  The arithmetic of the sparse phase (\<^verbatim>\<open>internal/compute/service.go\<close>): decay-weighted scores of a
  subject's events, the narrowing of identities to 32-bit dimensions, unit-length sparse vectors,
  and the object-by-object co-occurrence matrix with its partition into passes of bounded size. A
  Go map is an association list with distinct keys. \<^verbatim>\<open>float32\<close> and \<^verbatim>\<open>float64\<close> values are reals.
\<close>

section \<open>Go maps\<close>

type_synonym ('k, 'v) gomap = "('k \<times> 'v) list"

text \<open>\<^verbatim>\<open>m[k]\<close>, with the zero value for a missing key.\<close>

definition gm_get :: "'v \<Rightarrow> 'k \<Rightarrow> ('k, 'v) gomap \<Rightarrow> 'v" where
  "gm_get zero k m = (case map_of m k of None \<Rightarrow> zero | Some v \<Rightarrow> v)"

abbreviation gm_put :: "'k \<Rightarrow> 'v \<Rightarrow> ('k, 'v) gomap \<Rightarrow> ('k, 'v) gomap" where
  "gm_put \<equiv> AList.update"

definition gm_add :: "'k \<Rightarrow> 'v :: monoid_add \<Rightarrow> ('k, 'v) gomap \<Rightarrow> ('k, 'v) gomap" where
  "gm_add k v m = gm_put k (gm_get 0 k m + v) m"

text \<open>\<^verbatim>\<open>if v > m[k] { m[k] = v }\<close>.\<close>

definition gm_raise :: "'k \<Rightarrow> int \<Rightarrow> ('k, int) gomap \<Rightarrow> ('k, int) gomap" where
  "gm_raise k v m = (if v > gm_get 0 k m then gm_put k v m else m)"

lemma gm_get_Nil [simp]: "gm_get z k [] = z"
  by (simp add: gm_get_def)

lemma gm_get_put [simp]: "gm_get z k (gm_put j v m) = (if k = j then v else gm_get z k m)"
  by (simp add: gm_get_def update_conv)

lemma gm_get_add [simp]: "gm_get 0 k (gm_add j v m) = (if k = j then gm_get 0 k m + v else gm_get 0 k m)"
  by (simp add: gm_add_def)

lemma gm_get_raise: "gm_get 0 k (gm_raise j v m) = (if k = j then max (gm_get 0 k m) v else gm_get 0 k m)"
  by (auto simp: gm_raise_def)

lemma gm_keys_add [simp]: "fst ` set (gm_add k v m) = insert k (fst ` set m)"
  by (simp add: gm_add_def dom_update)

lemma gm_distinct_add [simp]: "distinct (map fst m) \<Longrightarrow> distinct (map fst (gm_add k v m))"
  by (simp add: gm_add_def distinct_update)

lemma gm_distinct_raise [simp]: "distinct (map fst m) \<Longrightarrow> distinct (map fst (gm_raise k v m))"
  by (simp add: gm_raise_def distinct_update)

lemma gm_get_mem: "distinct (map fst m) \<Longrightarrow> (k, v) \<in> set m \<Longrightarrow> gm_get z k m = v"
  by (simp add: gm_get_def)

lemma length_update_le: "length (gm_put k v m) \<le> Suc (length m)"
  by (induction m) auto

section \<open>Events and scores\<close>

record RawEvent =
  re_SubjectID :: string
  re_ObjectID :: string
  re_Action :: string
  re_Weight :: real
  re_OccurredAt :: int
  re_ObjectCreatedAt :: "int option"

record subjectScores =
  sc_scores :: "(string, real) gomap"
  sc_maxTimes :: "(string, int) gomap"
  sc_createdTimes :: "(string, int) gomap"

definition no_scores :: subjectScores where
  "no_scores = \<lparr>sc_scores = [], sc_maxTimes = [], sc_createdTimes = []\<rparr>"

definition event_freshness :: "real \<Rightarrow> int \<Rightarrow> RawEvent \<Rightarrow> real" where
  "event_freshness lambda now e =
     (let daysSince = max (real_of_int (now - re_OccurredAt e) / 86400) 0 in exp (- lambda * daysSince))"

definition score_event :: "real \<Rightarrow> int \<Rightarrow> RawEvent \<Rightarrow> subjectScores \<Rightarrow> subjectScores" where
  "score_event lambda now e sc =
     sc\<lparr>sc_scores := gm_add (re_ObjectID e) (re_Weight e * event_freshness lambda now e) (sc_scores sc),
        sc_maxTimes := gm_raise (re_ObjectID e) (re_OccurredAt e) (sc_maxTimes sc),
        sc_createdTimes := (case re_ObjectCreatedAt e of
                              None \<Rightarrow> sc_createdTimes sc
                            | Some t \<Rightarrow> gm_raise (re_ObjectID e) t (sc_createdTimes sc))\<rparr>"

definition scoreEvents :: "RawEvent list \<Rightarrow> real \<Rightarrow> int \<Rightarrow> subjectScores" where
  "scoreEvents events lambda now = fold (score_event lambda now) events no_scores"

section \<open>Sparse vectors\<close>

definition maxSparseIndex :: int where
  "maxSparseIndex = 4294967295"

definition sparseIndex :: "int \<Rightarrow> 32 word \<times> bool" where
  "sparseIndex numericID = (if numericID > maxSparseIndex then (0, False) else (word_of_int numericID, True))"

record sparseEntry =
  en_index :: "32 word"
  en_value :: real

definition l2Normalize :: "real list \<Rightarrow> real list" where
  "l2Normalize values =
     (let s = sum_list (map (\<lambda>v. v * v) values)
      in if s = 0 then values else map (\<lambda>v. v / sqrt s) values)"

definition sparseVectorFrom :: "sparseEntry list \<Rightarrow> 32 word list \<times> real list" where
  "sparseVectorFrom entries =
     (let sorted = sort_key en_index entries in (map en_index sorted, l2Normalize (map en_value sorted)))"

record SubjectVector =
  sv_SubjectID :: string
  sv_NumericID :: int
  sv_Indices :: "32 word list"
  sv_Values :: "real list"

text \<open>\<^verbatim>\<open>objectIDs[k]\<close> of a resolved id map.\<close>

definition id_at :: "(string \<rightharpoonup> int) \<Rightarrow> string \<Rightarrow> int" where
  "id_at ids k = (case ids k of None \<Rightarrow> 0 | Some i \<Rightarrow> i)"

text \<open>The entries of one score map; a dimension that does not fit is skipped, an unresolved object is an error.\<close>

fun subject_entries :: "(string \<rightharpoonup> int) \<Rightarrow> (string, real) gomap \<Rightarrow> go_error + sparseEntry list" where
  "subject_entries objectIDs [] = Inr []"
| "subject_entries objectIDs ((objectID, score) # rest) =
     (case objectIDs objectID of
        None \<Rightarrow> Inl (Failure ''no numeric id resolved'')
      | Some objNumID \<Rightarrow>
          (case subject_entries objectIDs rest of
             Inl e \<Rightarrow> Inl e
           | Inr entries \<Rightarrow>
               let (index, fits) = sparseIndex objNumID
               in Inr (if fits then \<lparr>en_index = index, en_value = score\<rparr> # entries else entries)))"

definition buildSubjectVector ::
  "string \<Rightarrow> int \<Rightarrow> (string, real) gomap \<Rightarrow> (string \<rightharpoonup> int) \<Rightarrow> go_error + SubjectVector" where
  "buildSubjectVector subjectID subjectNumID objectScores objectIDs =
     (case subject_entries objectIDs objectScores of
        Inl e \<Rightarrow> Inl e
      | Inr entries \<Rightarrow>
          if objectScores \<noteq> [] \<and> entries = [] then Inl (Failure ''every dimension exceeds the sparse index space'')
          else let (indices, values) = sparseVectorFrom entries
               in Inr \<lparr>sv_SubjectID = subjectID, sv_NumericID = subjectNumID, sv_Indices = indices, sv_Values = values\<rparr>)"

section \<open>Co-occurrence\<close>

record coEntry =
  coe_id :: int
  coe_score :: real

record cooccurrence =
  co_rows :: "coEntry list list"
  co_keys :: "(int, string) gomap"
  co_maxTimes :: "(int, int) gomap"
  co_createdTimes :: "(int, int) gomap"

definition newCooccurrence :: cooccurrence where
  "newCooccurrence = \<lparr>co_rows = [], co_keys = [], co_maxTimes = [], co_createdTimes = []\<rparr>"

definition co_add_object ::
  "subjectScores \<Rightarrow> (string \<rightharpoonup> int) \<Rightarrow> string \<times> real \<Rightarrow> cooccurrence \<times> coEntry list \<Rightarrow> cooccurrence \<times> coEntry list" where
  "co_add_object sc objectIDs = (\<lambda>(objID, score) (c, row).
     let i = id_at objectIDs objID
     in (c\<lparr>co_keys := gm_put i objID (co_keys c),
           co_maxTimes := (case map_of (sc_maxTimes sc) objID of None \<Rightarrow> co_maxTimes c | Some t \<Rightarrow> gm_raise i t (co_maxTimes c)),
           co_createdTimes := (case map_of (sc_createdTimes sc) objID of None \<Rightarrow> co_createdTimes c
                               | Some t \<Rightarrow> gm_raise i t (co_createdTimes c))\<rparr>,
         row @ [\<lparr>coe_id = i, coe_score = score\<rparr>]))"

definition co_add :: "subjectScores \<Rightarrow> (string \<rightharpoonup> int) \<Rightarrow> cooccurrence \<Rightarrow> cooccurrence" where
  "co_add sc objectIDs c =
     (let (c1, row) = fold (co_add_object sc objectIDs) (sc_scores sc) (c, []) in c1\<lparr>co_rows := co_rows c1 @ [row]\<rparr>)"

definition cooccurrenceBudget :: nat where
  "cooccurrenceBudget = 10000000"

text \<open>The contributions each target receives: for every row of length \<open>k\<close> it appears in, \<open>k - 1\<close>.\<close>

definition target_load :: "coEntry list list \<Rightarrow> (int, nat) gomap" where
  "target_load rows = fold (\<lambda>row. fold (\<lambda>e. gm_add (coe_id e) (length row - 1)) row) rows []"

fun pack :: "nat \<Rightarrow> (int \<times> nat) list \<Rightarrow> (int, nat) gomap \<Rightarrow> nat \<Rightarrow> nat \<Rightarrow> (int, nat) gomap \<times> nat" where
  "pack budget [] passOf passes current = (passOf, passes + 1)"
| "pack budget ((i, l) # rest) passOf passes current =
     (if current > 0 \<and> current + l > budget then pack budget rest (gm_put i (passes + 1) passOf) (passes + 1) l
      else pack budget rest (gm_put i passes passOf) passes (current + l))"

text \<open>
  \<^verbatim>\<open>planPasses\<close>; \<open>order\<close> is the order in which the iteration visits the keys of the load map.
\<close>

definition planPasses :: "(int list \<Rightarrow> int list) \<Rightarrow> nat \<Rightarrow> cooccurrence \<Rightarrow> (int, nat) gomap \<times> nat" where
  "planPasses order budget c =
     (let load = target_load (co_rows c)
      in pack budget (map (\<lambda>i. (i, gm_get 0 i load)) (order (map fst load))) [] 0 0)"

definition add_other :: "coEntry \<Rightarrow> (int, (int, real) gomap) gomap \<Rightarrow> coEntry \<Rightarrow> (int, (int, real) gomap) gomap" where
  "add_other target accum other =
     (if coe_id other = coe_id target then accum
      else gm_put (coe_id target) (gm_add (coe_id other) (coe_score other) (gm_get [] (coe_id target) accum)) accum)"

definition accumulate :: "cooccurrence \<Rightarrow> (int, nat) gomap \<Rightarrow> nat \<Rightarrow> (int, (int, real) gomap) gomap" where
  "accumulate c passOf pass =
     fold (\<lambda>row. fold (\<lambda>target accum.
             if gm_get 0 (coe_id target) passOf \<noteq> pass then accum
             else foldl (add_other target) accum row) row) (co_rows c) []"

section \<open>What the scores are\<close>

definition event_score :: "real \<Rightarrow> int \<Rightarrow> RawEvent list \<Rightarrow> string \<Rightarrow> real" where
  "event_score lambda now events objID =
     sum_list (map (\<lambda>e. re_Weight e * event_freshness lambda now e) (filter (\<lambda>e. re_ObjectID e = objID) events))"

lemma fold_score_event:
  "gm_get 0 objID (sc_scores (fold (score_event lambda now) events sc))
     = gm_get 0 objID (sc_scores sc) + event_score lambda now events objID"
  by (induction events arbitrary: sc) (auto simp: score_event_def event_score_def)

lemma fold_score_keys:
  "fst ` set (sc_scores (fold (score_event lambda now) events sc)) = fst ` set (sc_scores sc) \<union> re_ObjectID ` set events"
  by (induction events arbitrary: sc) (auto simp: score_event_def)

lemma fold_score_distinct:
  "distinct (map fst (sc_scores sc)) \<Longrightarrow> distinct (map fst (sc_scores (fold (score_event lambda now) events sc)))"
  by (induction events arbitrary: sc) (auto simp: score_event_def)

lemma scoreEvents_score: "gm_get 0 objID (sc_scores (scoreEvents events lambda now)) = event_score lambda now events objID"
  by (simp add: scoreEvents_def fold_score_event no_scores_def)

lemma scoreEvents_keys: "fst ` set (sc_scores (scoreEvents events lambda now)) = re_ObjectID ` set events"
  by (simp add: scoreEvents_def fold_score_keys no_scores_def)

lemma scoreEvents_distinct: "distinct (map fst (sc_scores (scoreEvents events lambda now)))"
  by (simp add: scoreEvents_def fold_score_distinct no_scores_def)

lemma scoreEvents_mem:
  assumes "(objID, v) \<in> set (sc_scores (scoreEvents events lambda now))"
  shows "v = event_score lambda now events objID"
  using gm_get_mem [OF scoreEvents_distinct assms, of 0] by (simp add: scoreEvents_score)

lemma scoreEvents_mem_iff:
  "(k, v) \<in> set (sc_scores (scoreEvents events lambda now)) \<longleftrightarrow> k \<in> re_ObjectID ` set events \<and> v = event_score lambda now events k"
    (is "_ \<in> set ?s \<longleftrightarrow> _")
proof
  assume kv: "(k, v) \<in> set ?s"
  then have "k \<in> fst ` set ?s" by (rule image_eqI [rotated]) simp
  with kv show "k \<in> re_ObjectID ` set events \<and> v = event_score lambda now events k"
    by (simp add: scoreEvents_mem scoreEvents_keys)
next
  assume r: "k \<in> re_ObjectID ` set events \<and> v = event_score lambda now events k"
  then have "k \<in> fst ` set ?s" by (simp add: scoreEvents_keys)
  then obtain w where "(k, w) \<in> set ?s" by auto
  with r show "(k, v) \<in> set ?s" by (auto dest: scoreEvents_mem)
qed

lemma event_freshness_bounds: "0 \<le> lambda \<Longrightarrow> 0 < event_freshness lambda now e \<and> event_freshness lambda now e \<le> 1"
  by (simp add: event_freshness_def Let_def)

lemma event_score_bound:
  assumes "0 \<le> lambda"
  shows "\<bar>event_score lambda now events objID\<bar> \<le> sum_list (map (\<lambda>e. \<bar>re_Weight e\<bar>) (filter (\<lambda>e. re_ObjectID e = objID) events))"
proof (induction events)
  case (Cons e events)
  have "\<bar>re_Weight e * event_freshness lambda now e\<bar> \<le> \<bar>re_Weight e\<bar> * 1"
    unfolding abs_mult using event_freshness_bounds [OF assms, of now e] by (intro mult_left_mono) auto
  with Cons show ?case by (auto simp: event_score_def)
qed (simp add: event_score_def)

section \<open>Unit vectors\<close>

definition norm2 :: "real list \<Rightarrow> real" where
  "norm2 values = sum_list (map (\<lambda>v. v * v) values)"

lemma norm2_nonneg [simp]: "0 \<le> norm2 values"
  unfolding norm2_def by (intro sum_list_nonneg) auto

lemma norm2_zero: "norm2 values = 0 \<Longrightarrow> v \<in> set values \<Longrightarrow> v = 0"
  using sum_list_nonneg_eq_0_iff [of "map (\<lambda>v. v * v) values"] by (fastforce simp: norm2_def)

lemma norm2_scale: "norm2 (map (\<lambda>v. v / c) values) = norm2 values / (c * c)"
  by (induction "values") (simp_all add: norm2_def add_divide_distrib)

lemma length_l2Normalize [simp]: "length (l2Normalize values) = length values"
  by (simp add: l2Normalize_def Let_def)

lemma norm2_l2Normalize: "norm2 (l2Normalize values) = (if norm2 values = 0 then 0 else 1)"
proof (cases "norm2 values = 0")
  case False
  then have "l2Normalize values = map (\<lambda>v. v / sqrt (norm2 values)) values"
    by (simp add: l2Normalize_def norm2_def Let_def)
  with False show ?thesis by (simp add: norm2_scale)
qed (simp add: l2Normalize_def norm2_def Let_def)

text \<open>The score the vector database computes for two sparse vectors: a dot product over the common dimensions.\<close>

definition sparse_dot :: "32 word list \<times> real list \<Rightarrow> 32 word list \<times> real list \<Rightarrow> real" where
  "sparse_dot a b = sum_list (map (\<lambda>(i, v). v * gm_get 0 i (zip (fst b) (snd b))) (zip (fst a) (snd a)))"

lemma norm2_common:
  assumes "distinct ks" and "distinct js" and "length js = length ws"
  shows "sum_list (map (\<lambda>i. (gm_get 0 i (zip js ws))\<^sup>2) ks) \<le> norm2 ws"
proof -
  let ?g = "\<lambda>i. gm_get 0 i (zip js ws)"
  have out: "?g i = 0" if "i \<notin> set js" for i
    using that assms(3) by (auto simp: gm_get_def split: option.splits dest!: map_of_SomeD in_set_zipE)
  have "sum_list (map (\<lambda>i. (?g i)\<^sup>2) ks) = (\<Sum>i\<in>set ks. (?g i)\<^sup>2)"
    using assms(1) by (simp add: sum_list_distinct_conv_sum_set)
  also have "\<dots> = (\<Sum>i\<in>set ks \<inter> set js. (?g i)\<^sup>2)"
    by (rule sum.mono_neutral_right) (auto simp: out)
  also have "\<dots> \<le> (\<Sum>i\<in>set js. (?g i)\<^sup>2)" by (rule sum_mono2) auto
  also have "\<dots> = sum_list (map (\<lambda>i. (?g i)\<^sup>2) js)"
    using assms(2) by (simp add: sum_list_distinct_conv_sum_set)
  also have "map (\<lambda>i. (?g i)\<^sup>2) js = map (\<lambda>w. w * w) ws"
  proof (rule nth_equalityI)
    fix n assume "n < length (map (\<lambda>i. (?g i)\<^sup>2) js)"
    then have n: "n < length js" by simp
    then have "(js ! n, ws ! n) \<in> set (zip js ws)" using assms(3) by (auto simp: set_zip)
    then have "?g (js ! n) = ws ! n" using assms(2,3) by (intro gm_get_mem) simp_all
    with n show "map (\<lambda>i. (?g i)\<^sup>2) js ! n = map (\<lambda>w. w * w) ws ! n"
      using assms(3) by (simp add: power2_eq_square)
  qed (simp add: assms(3))
  finally show ?thesis by (simp add: norm2_def)
qed

lemma sum_list_prod_bound:
  fixes f :: "'a \<Rightarrow> real"
  shows "\<bar>sum_list (map (\<lambda>(i, v). v * f i) xs)\<bar>
         \<le> (norm2 (map snd xs) + sum_list (map (\<lambda>i. (f i)\<^sup>2) (map fst xs))) / 2"
proof (induction xs)
  case (Cons x xs)
  obtain i v where x: "x = (i, v)" by (cases x)
  have "0 \<le> (\<bar>v\<bar> - \<bar>f i\<bar>)\<^sup>2" by simp
  then have "2 * \<bar>v * f i\<bar> \<le> v * v + (f i)\<^sup>2"
    by (simp add: power2_diff abs_mult power2_abs) (simp add: power2_eq_square)
  moreover have "\<bar>v * f i + sum_list (map (\<lambda>(i, v). v * f i) xs)\<bar> \<le> \<bar>v * f i\<bar> + \<bar>sum_list (map (\<lambda>(i, v). v * f i) xs)\<bar>"
    by (rule abs_triangle_ineq)
  ultimately show ?case using Cons by (simp add: x norm2_def)
qed (simp add: norm2_def)

lemma sparse_dot_bound:
  assumes "distinct ks" and "distinct js" and "length ks = length vs" and "length js = length ws"
  shows "\<bar>sparse_dot (ks, vs) (js, ws)\<bar> \<le> (norm2 vs + norm2 ws) / 2"
proof -
  have "\<bar>sparse_dot (ks, vs) (js, ws)\<bar>
      \<le> (norm2 (map snd (zip ks vs)) + sum_list (map (\<lambda>i. (gm_get 0 i (zip js ws))\<^sup>2) (map fst (zip ks vs)))) / 2"
    unfolding sparse_dot_def fst_conv snd_conv by (rule sum_list_prod_bound)
  also have "\<dots> \<le> (norm2 vs + norm2 ws) / 2"
    using norm2_common [OF assms(1,2,4)] assms(3) by simp
  finally show ?thesis .
qed

text \<open>Distinct identities that fit address distinct dimensions.\<close>

lemma sparseIndex_inject:
  assumes "0 \<le> i" "0 \<le> j" "sparseIndex i = (w, True)" "sparseIndex j = (w, True)"
  shows "i = j"
proof -
  have lt: "i < 2 ^ 32" "j < 2 ^ 32" and w: "(word_of_int i :: 32 word) = word_of_int j"
    using assms by (auto simp: sparseIndex_def maxSparseIndex_def split: if_splits)
  from arg_cong [OF w, of uint] lt assms(1,2) show ?thesis by (simp add: uint_word_of_int)
qed

definition fits :: "int \<Rightarrow> bool" where
  "fits i \<longleftrightarrow> 0 \<le> i \<and> i \<le> maxSparseIndex"

lemma sparseIndex_fits: "fits i \<Longrightarrow> sparseIndex i = (word_of_int i, True)"
  by (simp add: fits_def sparseIndex_def)

lemma fits_inject: "fits i \<Longrightarrow> fits j \<Longrightarrow> (word_of_int i :: 32 word) = word_of_int j \<Longrightarrow> i = j"
  by (metis fits_def sparseIndex_fits sparseIndex_inject)

text \<open>The entries of resolved scores whose identities fit.\<close>

lemma subject_entries_resolved:
  assumes "\<And>k v. (k, v) \<in> set scores \<Longrightarrow> \<exists>i. objectIDs k = Some i \<and> fits i"
  shows "subject_entries objectIDs scores
    = Inr (map (\<lambda>(k, v). \<lparr>en_index = word_of_int (id_at objectIDs k), en_value = v\<rparr>) scores)"
  using assms
proof (induction scores)
  case (Cons x xs)
  obtain k v where x: "x = (k, v)" by (cases x)
  from Cons.prems [of k v] obtain i where i: "objectIDs k = Some i" "fits i" by (auto simp: x)
  have "subject_entries objectIDs xs
    = Inr (map (\<lambda>(k, v). \<lparr>en_index = word_of_int (id_at objectIDs k), en_value = v\<rparr>) xs)"
    by (rule Cons.IH) (use Cons.prems in auto)
  with i show ?case by (simp add: x sparseIndex_fits id_at_def)
qed simp

text \<open>Injectively resolved objects have distinct dimensions.\<close>

lemma resolved_indices_distinct:
  assumes "distinct (map fst scores)" and inj: "inj_on (id_at objectIDs) (fst ` set scores)"
    and fit: "\<And>k v. (k, v) \<in> set scores \<Longrightarrow> fits (id_at objectIDs k)"
  shows "distinct (map en_index (map (\<lambda>(k, v). \<lparr>en_index = word_of_int (id_at objectIDs k), en_value = v\<rparr>) scores))"
proof -
  have "inj_on (\<lambda>k. word_of_int (id_at objectIDs k) :: 32 word) (set (map fst scores))"
  proof (rule inj_onI)
    fix k k' assume k: "k \<in> set (map fst scores)" "k' \<in> set (map fst scores)"
      and eq: "word_of_int (id_at objectIDs k) = (word_of_int (id_at objectIDs k') :: 32 word)"
    from k have "fits (id_at objectIDs k)" "fits (id_at objectIDs k')" using fit by auto
    from fits_inject [OF this eq] have "id_at objectIDs k = id_at objectIDs k'" .
    with inj k show "k = k'" by (auto dest: inj_onD)
  qed
  with assms(1) have "distinct (map (\<lambda>k. word_of_int (id_at objectIDs k) :: 32 word) (map fst scores))"
    by (subst distinct_map) simp
  then show ?thesis by (simp add: case_prod_beta o_def)
qed

lemma sparseVectorFrom_index: "set (fst (sparseVectorFrom entries)) = en_index ` set entries"
  by (simp add: sparseVectorFrom_def Let_def)

lemma sparseVectorFrom_distinct: "distinct (map en_index entries) \<Longrightarrow> distinct (fst (sparseVectorFrom entries))"
  by (simp add: sparseVectorFrom_def Let_def distinct_map)

lemma sparseVectorFrom_length [simp]: "length (snd (sparseVectorFrom entries)) = length (fst (sparseVectorFrom entries))"
  by (simp add: sparseVectorFrom_def Let_def)

lemma norm2_sort: "norm2 (map en_value (sort_key f entries)) = norm2 (map en_value entries)"
proof -
  have "mset (map (\<lambda>v. v * v) (map en_value (sort_key f entries))) = mset (map (\<lambda>v. v * v) (map en_value entries))"
    by simp
  then show ?thesis unfolding norm2_def by (metis sum_mset_sum_list)
qed

lemma sparseVectorFrom_norm:
  "norm2 (snd (sparseVectorFrom entries)) = (if \<forall>x\<in>set entries. en_value x = 0 then 0 else 1)"
proof -
  have "norm2 (map en_value entries) = 0 \<longleftrightarrow> (\<forall>x\<in>set entries. en_value x = 0)"
  proof
    assume "norm2 (map en_value entries) = 0"
    then show "\<forall>x\<in>set entries. en_value x = 0" using norm2_zero [of "map en_value entries"] by auto
  next
    assume "\<forall>x\<in>set entries. en_value x = 0"
    then show "norm2 (map en_value entries) = 0" by (induction entries) (auto simp: norm2_def)
  qed
  then show ?thesis by (simp add: sparseVectorFrom_def Let_def norm2_l2Normalize norm2_sort)
qed

text \<open>What a dimension of a built vector holds.\<close>

lemma zip_l2Normalize:
  "length ks = length vs \<Longrightarrow> (k, v) \<in> set (zip ks vs) \<Longrightarrow>
   (k, v / (if norm2 vs = 0 then 1 else sqrt (norm2 vs))) \<in> set (zip ks (l2Normalize vs))"
proof -
  assume len: "length ks = length vs" and "(k, v) \<in> set (zip ks vs)"
  then obtain n where n: "n < length vs" "ks ! n = k" "vs ! n = v" by (auto simp: set_zip)
  then have "l2Normalize vs ! n = v / (if norm2 vs = 0 then 1 else sqrt (norm2 vs))"
    by (simp add: l2Normalize_def norm2_def Let_def)
  with n len show ?thesis by (force simp: set_zip)
qed

lemma sparseVectorFrom_value:
  assumes "distinct (map en_index entries)" and "x \<in> set entries"
  shows "gm_get 0 (en_index x) (zip (fst (sparseVectorFrom entries)) (snd (sparseVectorFrom entries)))
         = en_value x / (if norm2 (map en_value entries) = 0 then 1 else sqrt (norm2 (map en_value entries)))"
proof (rule gm_get_mem)
  let ?s = "sort_key en_index entries"
  show "distinct (map fst (zip (fst (sparseVectorFrom entries)) (snd (sparseVectorFrom entries))))"
    using sparseVectorFrom_distinct [OF assms(1)] by simp
  have "(en_index x, en_value x) \<in> set (zip (map en_index ?s) (map en_value ?s))"
    using assms(2) by (simp add: zip_map_map zip_same_conv_map)
  from zip_l2Normalize [OF _ this]
  show "(en_index x, en_value x / (if norm2 (map en_value entries) = 0 then 1 else sqrt (norm2 (map en_value entries))))
      \<in> set (zip (fst (sparseVectorFrom entries)) (snd (sparseVectorFrom entries)))"
    unfolding norm2_sort by (simp add: sparseVectorFrom_def Let_def)
qed

section \<open>The partition of the matrix\<close>

text \<open>Every pair a row contributes, with its target, in the order of the loops.\<close>

definition contributions :: "coEntry list list \<Rightarrow> (int \<times> coEntry) list" where
  "contributions rows =
     concat (map (\<lambda>row. concat (map (\<lambda>target. map (Pair (coe_id target)) (filter (\<lambda>x. coe_id x \<noteq> coe_id target) row)) row)) rows)"

definition contribute :: "int \<times> coEntry \<Rightarrow> (int, (int, real) gomap) gomap \<Rightarrow> (int, (int, real) gomap) gomap" where
  "contribute = (\<lambda>(t, x) accum. gm_put t (gm_add (coe_id x) (coe_score x) (gm_get [] t accum)) accum)"

lemma foldl_add_other:
  "foldl (add_other target) accum row
   = fold contribute (map (Pair (coe_id target)) (filter (\<lambda>x. coe_id x \<noteq> coe_id target) row)) accum"
  by (induction row arbitrary: accum) (simp_all add: add_other_def contribute_def)

lemma fold_concat_map: "fold f (concat (map g xs)) = fold (\<lambda>x. fold f (g x)) xs"
  by (induction xs) (simp_all add: fun_eq_iff)

lemma filter_pair_map: "filter (\<lambda>(t, x). P t) (map (Pair a) xs) = (if P a then map (Pair a) xs else [])"
  by (induction xs) auto

lemma accumulate_fold:
  "accumulate c passOf p = fold contribute (filter (\<lambda>(t, x). gm_get 0 t passOf = p) (contributions (co_rows c))) []"
proof -
  have "fold contribute (filter (\<lambda>(t, x). gm_get 0 t passOf = p)
          (map (Pair (coe_id target)) (filter (\<lambda>x. coe_id x \<noteq> coe_id target) row)))
    = (\<lambda>accum. if gm_get 0 (coe_id target) passOf \<noteq> p then accum else foldl (add_other target) accum row)" for target row
    by (simp add: filter_pair_map foldl_add_other fun_eq_iff)
  then show ?thesis
    by (simp add: accumulate_def contributions_def filter_concat fold_concat_map o_def)
qed

lemma fold_contribute_row:
  "map_of (fold contribute cs accum) t
   = (if filter (\<lambda>(t', x). t' = t) cs = [] then map_of accum t
      else Some (fold (\<lambda>(t', x). gm_add (coe_id x) (coe_score x)) (filter (\<lambda>(t', x). t' = t) cs) (gm_get [] t accum)))"
  by (induction cs arbitrary: accum) (auto simp: contribute_def update_conv gm_get_def)

text \<open>The rows of the matrix do not depend on the partition.\<close>

lemma accumulate_row:
  "map_of (accumulate c passOf p) t
   = (if gm_get 0 t passOf = p then map_of (accumulate c [] 0) t else None)"
proof -
  have "filter (\<lambda>(t', x). t' = t) (filter (\<lambda>(t', x). gm_get 0 t' passOf = p) cs)
      = (if gm_get 0 t passOf = p then filter (\<lambda>(t', x). t' = t) cs else [])" for cs :: "(int \<times> coEntry) list"
    by (induction cs) auto
  then show ?thesis by (simp add: accumulate_fold fold_contribute_row)
qed

definition accum_entries :: "(int, (int, real) gomap) gomap \<Rightarrow> nat" where
  "accum_entries accum = sum_list (map (\<lambda>(t, row). length row) accum)"

lemma accum_entries_put: "accum_entries (gm_put t row accum) + length (gm_get [] t accum) = accum_entries accum + length row"
  by (induction accum) (auto simp: accum_entries_def gm_get_def)

lemma length_gm_add: "length (gm_add k v m) \<le> Suc (length m)"
  by (simp add: gm_add_def length_update_le)

lemma fold_contribute_entries: "accum_entries (fold contribute cs accum) \<le> accum_entries accum + length cs"
proof (induction cs arbitrary: accum)
  case (Cons x cs)
  obtain t e where x: "x = (t, e)" by (cases x)
  have "accum_entries (contribute x accum) \<le> accum_entries accum + 1"
    using accum_entries_put [of t "gm_add (coe_id e) (coe_score e) (gm_get [] t accum)" accum]
      length_gm_add [of "coe_id e" "coe_score e" "gm_get [] t accum"] by (simp add: x contribute_def)
  with Cons [of "contribute x accum"] show ?case by simp
qed simp

lemma accumulate_entries:
  "accum_entries (accumulate c passOf p) \<le> length (filter (\<lambda>(t, x). gm_get 0 t passOf = p) (contributions (co_rows c)))"
  using fold_contribute_entries [of _ "[]"] by (simp add: accumulate_fold accum_entries_def)

section \<open>The load of a pass\<close>

lemma fold_gm_add_const:
  "gm_get 0 t (fold (\<lambda>e. gm_add (f e) (k :: nat)) es m) = gm_get 0 t m + k * length (filter (\<lambda>e. f e = t) es)"
  by (induction es arbitrary: m) auto

lemma target_load_at:
  "gm_get 0 t (target_load rows)
   = sum_list (map (\<lambda>row. (length row - 1) * length (filter (\<lambda>e. coe_id e = t) row)) rows)"
proof -
  have "gm_get 0 t (fold (\<lambda>row. fold (\<lambda>e. gm_add (coe_id e) (length row - 1)) row) rows m)
     = gm_get 0 t m + sum_list (map (\<lambda>row. (length row - 1) * length (filter (\<lambda>e. coe_id e = t) row)) rows)" for m
    by (induction rows arbitrary: m) (simp_all add: fold_gm_add_const)
  from this [of "[]"] show ?thesis by (simp add: target_load_def)
qed

lemma target_load_keys: "fst ` set (target_load rows) = coe_id ` \<Union> (set ` set rows)"
proof -
  have row: "fst ` set (fold (\<lambda>e. gm_add (coe_id e) k) es m) = fst ` set m \<union> coe_id ` set es" for es :: "coEntry list" and k :: nat and m
    by (induction es arbitrary: m) auto
  have "fst ` set (fold (\<lambda>row. fold (\<lambda>e. gm_add (coe_id e) (length row - 1)) row) rows m)
     = fst ` set m \<union> coe_id ` \<Union> (set ` set rows)" for m
    by (induction rows arbitrary: m) (auto simp: row)
  from this [of "[]"] show ?thesis by (simp add: target_load_def)
qed

lemma target_load_distinct: "distinct (map fst (target_load rows))"
proof -
  have row: "distinct (map fst m) \<Longrightarrow> distinct (map fst (fold (\<lambda>e. gm_add (coe_id e) k) es m))" for es :: "coEntry list" and k :: nat and m
    by (induction es arbitrary: m) auto
  have "distinct (map fst m) \<Longrightarrow> distinct (map fst (fold (\<lambda>row. fold (\<lambda>e. gm_add (coe_id e) (length row - 1)) row) rows m))" for m
    by (induction rows arbitrary: m) (auto simp: row)
  then show ?thesis by (simp add: target_load_def)
qed

lemma row_contributions:
  "length (filter (\<lambda>(t', x). t' = t) (concat (map (\<lambda>target. map (Pair (coe_id target)) (filter (\<lambda>x. coe_id x \<noteq> coe_id target) row)) ts)))
   = length (filter (\<lambda>x. coe_id x \<noteq> t) row) * length (filter (\<lambda>e. coe_id e = t) ts)"
  by (induction ts) (auto simp: filter_pair_map)

text \<open>A target receives at most its load.\<close>

lemma contributions_le_load:
  "length (filter (\<lambda>(t', x). t' = t) (contributions rows)) \<le> gm_get 0 t (target_load rows)"
proof (induction rows)
  case (Cons row rows)
  have "length (filter (\<lambda>x. coe_id x \<noteq> t) row) \<le> length row - 1" if "filter (\<lambda>e. coe_id e = t) row \<noteq> []"
    using that sum_length_filter_compl [of "\<lambda>e. coe_id e = t" row] by (cases "filter (\<lambda>e. coe_id e = t) row") auto
  then have "length (filter (\<lambda>x. coe_id x \<noteq> t) row) * length (filter (\<lambda>e. coe_id e = t) row)
      \<le> (length row - 1) * length (filter (\<lambda>e. coe_id e = t) row)"
    by (cases "filter (\<lambda>e. coe_id e = t) row = []") auto
  from add_mono [OF this Cons] show ?case by (simp add: target_load_at contributions_def row_contributions)
qed (simp add: contributions_def)

text \<open>What the packing loop guarantees: it starts no earlier pass, keeps earlier assignments, and counts its passes.\<close>

lemma pack_keeps:
  "pack budget xs passOf passes current = (po, n) \<Longrightarrow> i \<notin> fst ` set xs \<Longrightarrow> gm_get 0 i po = gm_get 0 i passOf"
  by (induction xs arbitrary: passOf passes current) (auto split: if_splits)

lemma pack_range:
  assumes "pack budget xs passOf passes current = (po, n)" and "distinct (map fst xs)"
  shows "passes < n \<and> (\<forall>i\<in>fst ` set xs. passes \<le> gm_get 0 i po \<and> gm_get 0 i po < n)"
  using assms
proof (induction xs arbitrary: passOf passes current)
  case (Cons x xs)
  obtain i l where x: "x = (i, l)" by (cases x)
  define q where "q = (if current > 0 \<and> current + l > budget then passes + 1 else passes)"
  define c where "c = (if current > 0 \<and> current + l > budget then l else current + l)"
  from Cons.prems have run: "pack budget xs (gm_put i q passOf) q c = (po, n)" by (auto simp: x q_def c_def split: if_splits)
  have "gm_get 0 i po = q" using pack_keeps [OF run, of i] Cons.prems(2) by (auto simp: x)
  with Cons.IH [OF run] Cons.prems(2) show ?case by (force simp: x q_def split: if_splits)
qed simp

definition pass_load :: "(int \<times> nat) list \<Rightarrow> (int, nat) gomap \<Rightarrow> nat \<Rightarrow> nat" where
  "pass_load xs po p = sum_list (map snd (filter (\<lambda>(i, l). gm_get 0 i po = p) xs))"

text \<open>A pass stays within the budget unless one of its targets is all of its load.\<close>

lemma pack_bound:
  assumes "pack budget xs passOf passes current = (po, n)" and "distinct (map fst xs)"
  shows "let s = pass_load xs po p + (if p = passes then current else 0)
         in s \<le> budget \<or> (\<exists>(i, l)\<in>set xs. gm_get 0 i po = p \<and> s = l) \<or> p = passes \<and> s = current"
  using assms
proof (induction xs arbitrary: passOf passes current)
  case (Cons x xs)
  obtain i l where x: "x = (i, l)" by (cases x)
  define q where "q = (if current > 0 \<and> current + l > budget then passes + 1 else passes)"
  define c where "c = (if current > 0 \<and> current + l > budget then l else current + l)"
  from Cons.prems have run: "pack budget xs (gm_put i q passOf) q c = (po, n)" by (auto simp: x q_def c_def split: if_splits)
  have i: "gm_get 0 i po = q" using pack_keeps [OF run, of i] Cons.prems(2) by (auto simp: x)
  have later: "pass_load xs po p = 0" if "p < q"
    using pack_range [OF run] Cons.prems(2) that by (fastforce simp: pass_load_def)
  have IH: "let s = pass_load xs po p + (if p = q then c else 0)
     in s \<le> budget \<or> (\<exists>(i, l)\<in>set xs. gm_get 0 i po = p \<and> s = l) \<or> p = q \<and> s = c"
    by (rule Cons.IH [OF run]) (use Cons.prems in simp)
  have split: "pass_load (x # xs) po p = pass_load xs po p + (if p = q then l else 0)"
    by (simp add: pass_load_def x i)
  show ?case
  proof (cases "current > 0 \<and> current + l > budget")
    case True
    then have "q = passes + 1" "c = l" by (simp_all add: q_def c_def)
    with IH i later show ?thesis unfolding split unfolding x by (auto simp: Let_def)
  next
    case False
    then have "q = passes" "c = current + l" by (simp_all add: q_def c_def)
    moreover have "pass_load (x # xs) po p + (if p = passes then current else 0) = pass_load xs po p + (if p = q then c else 0)"
      unfolding split by (simp add: \<open>q = passes\<close> \<open>c = current + l\<close>)
    ultimately show ?thesis using IH i False by (auto simp: x Let_def)
  qed
qed (simp add: pass_load_def Let_def)

text \<open>The order of an iteration over a map's keys: each key once.\<close>

definition visits :: "('a list \<Rightarrow> 'a list) \<Rightarrow> bool" where
  "visits order \<longleftrightarrow> (\<forall>xs. mset (order xs) = mset xs)"

lemma visits_set: "visits order \<Longrightarrow> set (order xs) = set xs"
  unfolding visits_def by (metis set_mset_mset)

lemma visits_distinct: "visits order \<Longrightarrow> distinct (order xs) = distinct xs"
  unfolding visits_def by (metis mset_eq_imp_distinct_iff)

lemma filter_targets_length:
  assumes "distinct ts" and "\<And>t x. (t, x) \<in> set cs \<Longrightarrow> t \<in> set ts"
  shows "length (filter (\<lambda>(t, x). P t) cs) = sum_list (map (\<lambda>t. length (filter (\<lambda>(t', x). t' = t) cs)) (filter P ts))"
  using assms(2)
proof (induction cs)
  case (Cons c cs)
  obtain t0 x0 where c: "c = (t0, x0)" by (cases c)
  have mem: "t0 \<in> set ts" using Cons.prems by (auto simp: c)
  have "sum_list (map (\<lambda>t. length (filter (\<lambda>(t', x). t' = t) (c # cs))) (filter P ts))
     = sum_list (map (\<lambda>t. (if t0 = t then 1 else 0) + length (filter (\<lambda>(t', x). t' = t) cs)) (filter P ts))"
    by (intro arg_cong [where f = sum_list] map_cong) (auto simp: c)
  also have "\<dots> = sum_list (map (\<lambda>t. if t0 = t then 1 else 0) (filter P ts))
      + sum_list (map (\<lambda>t. length (filter (\<lambda>(t', x). t' = t) cs)) (filter P ts))"
    by (rule sum_list_addf)
  also have "sum_list (map (\<lambda>t. if t0 = t then 1 else (0::nat)) (filter P ts)) = (if P t0 then 1 else 0)"
    using mem assms(1) by (simp add: sum_list_distinct_conv_sum_set sum.delta')
  finally have sum: "sum_list (map (\<lambda>t. length (filter (\<lambda>(t', x). t' = t) (c # cs))) (filter P ts))
      = (if P t0 then 1 else 0) + sum_list (map (\<lambda>t. length (filter (\<lambda>(t', x). t' = t) cs)) (filter P ts))" .
  have "length (filter (\<lambda>(t, x). P t) cs) = sum_list (map (\<lambda>t. length (filter (\<lambda>(t', x). t' = t) cs)) (filter P ts))"
    by (rule Cons.IH) (use Cons.prems in force)
  then show ?case unfolding sum by (simp add: c)
qed simp

lemma contributions_targets: "(t, x) \<in> set (contributions rows) \<Longrightarrow> t \<in> fst ` set (target_load rows)"
  by (auto simp: contributions_def target_load_keys)

text \<open>The entries a pass holds are bounded by the load of its targets.\<close>

lemma pass_entries:
  fixes c :: cooccurrence
  assumes "visits order"
  defines "ids \<equiv> order (map fst (target_load (co_rows c)))"
  shows "accum_entries (accumulate c po p)
         \<le> pass_load (map (\<lambda>i. (i, gm_get 0 i (target_load (co_rows c)))) ids) po p"
proof -
  let ?cs = "contributions (co_rows c)"
  have d: "distinct ids" and s: "set ids = fst ` set (target_load (co_rows c))"
    unfolding ids_def visits_distinct [OF assms(1)] visits_set [OF assms(1)] by (simp_all add: target_load_distinct)
  have "accum_entries (accumulate c po p) \<le> length (filter (\<lambda>(t, x). gm_get 0 t po = p) ?cs)"
    by (rule accumulate_entries)
  also have "\<dots> = sum_list (map (\<lambda>t. length (filter (\<lambda>(t', x). t' = t) ?cs)) (filter (\<lambda>t. gm_get 0 t po = p) ids))"
    by (rule filter_targets_length [OF d]) (auto simp: s dest: contributions_targets)
  also have "\<dots> \<le> sum_list (map (\<lambda>t. gm_get 0 t (target_load (co_rows c))) (filter (\<lambda>t. gm_get 0 t po = p) ids))"
    by (rule sum_list_mono) (rule contributions_le_load)
  also have "\<dots> = pass_load (map (\<lambda>i. (i, gm_get 0 i (target_load (co_rows c)))) ids) po p"
    by (simp add: pass_load_def filter_map o_def)
  finally show ?thesis .
qed

text \<open>The plan packs every target; each row of the matrix belongs to a pass that is run.\<close>

lemma planPasses_pack:
  fixes c :: cooccurrence
  assumes "visits order" and "planPasses order budget c = (passOf, passes)"
  defines "xs \<equiv> map (\<lambda>i. (i, gm_get 0 i (target_load (co_rows c)))) (order (map fst (target_load (co_rows c))))"
  shows "pack budget xs [] 0 0 = (passOf, passes)" and "distinct (map fst xs)"
    and "fst ` set xs = fst ` set (target_load (co_rows c))"
proof -
  show "pack budget xs [] 0 0 = (passOf, passes)" using assms(2) by (simp add: planPasses_def xs_def Let_def)
  have fsts: "map fst xs = order (map fst (target_load (co_rows c)))" by (simp add: xs_def o_def)
  show "distinct (map fst xs)" unfolding fsts visits_distinct [OF assms(1)] by (rule target_load_distinct)
  show "fst ` set xs = fst ` set (target_load (co_rows c))"
    using visits_set [OF assms(1), of "map fst (target_load (co_rows c))"] fsts by (metis set_map)
qed

lemma planPasses_covers:
  assumes "visits order" and "planPasses order budget c = (passOf, passes)" and "map_of (accumulate c [] 0) t \<noteq> None"
  shows "gm_get 0 t passOf < passes"
proof -
  note plan = planPasses_pack [OF assms(1,2)]
  have "filter (\<lambda>(t', x). t' = t) (contributions (co_rows c)) \<noteq> []"
    using assms(3) by (auto simp: accumulate_fold fold_contribute_row split: if_splits)
  then have "t \<in> fst ` set (target_load (co_rows c))" by (auto simp: filter_empty_conv dest: contributions_targets)
  with pack_range [OF plan(1,2)] plan(3) show ?thesis by blast
qed

section \<open>Properties\<close>

text \<open>C39: The object vectors are built in passes, and whatever order the target map is iterated in the
  passes together are the whole co-occurrence matrix: each target is in exactly one pass, which
  holds the very row an unpartitioned run would compute. No pass holds more entries than the budget,
  unless a single target of that pass has more contributions than that.\<close>

theorem passes_partition_the_matrix:
  assumes "visits order" and "planPasses order budget c = (passOf, passes)"
  shows "(\<forall>t row. map_of (accumulate c [] 0) t = Some row \<longrightarrow>
            (\<exists>p<passes. map_of (accumulate c passOf p) t = Some row
               \<and> (\<forall>q. q \<noteq> p \<longrightarrow> map_of (accumulate c passOf q) t = None)))
    \<and> (\<forall>p t row. map_of (accumulate c passOf p) t = Some row \<longrightarrow> map_of (accumulate c [] 0) t = Some row)
    \<and> (\<forall>p. accum_entries (accumulate c passOf p) \<le> budget
         \<or> (\<exists>t. gm_get 0 t passOf = p
              \<and> accum_entries (accumulate c passOf p) \<le> gm_get 0 t (target_load (co_rows c))))"
proof (intro conjI allI impI)
  {
    fix t row assume row: "map_of (accumulate c [] 0) t = Some row"
    with planPasses_covers [OF assms, of t] have "gm_get 0 t passOf < passes" by simp
    with row show "\<exists>p<passes. map_of (accumulate c passOf p) t = Some row
        \<and> (\<forall>q. q \<noteq> p \<longrightarrow> map_of (accumulate c passOf q) t = None)"
      by (intro exI [of _ "gm_get 0 t passOf"]) (auto simp: accumulate_row [of c passOf])
  next
    fix p t row assume "map_of (accumulate c passOf p) t = Some row"
    then show "map_of (accumulate c [] 0) t = Some row" by (auto simp: accumulate_row [of c passOf] split: if_splits)
  next
    fix p
    define xs where "xs = map (\<lambda>i. (i, gm_get 0 i (target_load (co_rows c)))) (order (map fst (target_load (co_rows c))))"
    note plan = planPasses_pack [OF assms, folded xs_def]
    have le: "accum_entries (accumulate c passOf p) \<le> pass_load xs passOf p"
      unfolding xs_def by (rule pass_entries [OF assms(1)])
    from pack_bound [OF plan(1,2), of p]
    consider "pass_load xs passOf p \<le> budget" | i l where "(i, l) \<in> set xs" "gm_get 0 i passOf = p" "pass_load xs passOf p = l"
      by (auto simp: Let_def split: if_splits)
    then show "accum_entries (accumulate c passOf p) \<le> budget
        \<or> (\<exists>t. gm_get 0 t passOf = p \<and> accum_entries (accumulate c passOf p) \<le> gm_get 0 t (target_load (co_rows c)))"
      using le by cases (auto simp: xs_def)
  }
qed

definition two_rows :: cooccurrence where
  "two_rows = newCooccurrence\<lparr>co_rows :=
     [[\<lparr>coe_id = 1, coe_score = 1\<rparr>, \<lparr>coe_id = 2, coe_score = 3\<rparr>],
      [\<lparr>coe_id = 1, coe_score = 2\<rparr>, \<lparr>coe_id = 2, coe_score = 5\<rparr>, \<lparr>coe_id = 3, coe_score = 4\<rparr>]]\<rparr>"

theorem passes_partition_the_matrix_witness:
  "planPasses rev 3 two_rows = ([(3, 0), (2, 1), (1, 2)], 3)
   \<and> map_of (accumulate two_rows [(3, 0), (2, 1), (1, 2)] 2) 1 = Some [(2, 8), (3, 4)]
   \<and> map_of (accumulate two_rows [] 0) 1 = Some [(2, 8), (3, 4)]"
proof -
  have plan: "planPasses rev 3 two_rows = ([(3, 0), (2, 1), (1, 2)], 3)"
    by (simp add: planPasses_def two_rows_def newCooccurrence_def target_load_def gm_add_def gm_get_def Let_def)
  have row: "map_of (accumulate two_rows [(3, 0), (2, 1), (1, 2)] 2) 1 = Some [(2, 8), (3, 4)]"
    by (simp add: accumulate_def two_rows_def newCooccurrence_def add_other_def gm_add_def gm_get_def)
  have "visits rev" by (simp add: visits_def)
  from passes_partition_the_matrix [OF this plan] row have "map_of (accumulate two_rows [] 0) 1 = Some [(2, 8), (3, 4)]"
    by blast
  with plan row show ?thesis by simp
qed


definition two_likes :: "RawEvent list" where
  "two_likes =
     [\<lparr>re_SubjectID = ''u1'', re_ObjectID = ''a'', re_Action = ''LIKE'', re_Weight = 3, re_OccurredAt = 100, re_ObjectCreatedAt = None\<rparr>,
      \<lparr>re_SubjectID = ''u1'', re_ObjectID = ''b'', re_Action = ''LIKE'', re_Weight = 4, re_OccurredAt = 100, re_ObjectCreatedAt = Some 50\<rparr>]"


end
