(* ===== verification/Compute_Service.thy ===== *)
theory Compute_Service
  imports Sparse_Vectors Embed_Store Event_Ingest Batch_Runs
begin

text \<open>
  The full recompute of a namespace's sparse vectors (\<^verbatim>\<open>internal/compute/service.go\<close>), the queries
  it reads events with (\<^verbatim>\<open>repository.go\<close>) and the sweep of points that are no longer produced
  (\<^verbatim>\<open>cleanup.go\<close>). Points of all collections live in one store; an upsert into a missing
  collection or of another kind or dimension is refused, and a scroll pages through the ids of a
  collection in ascending order.
\<close>

section \<open>Points\<close>

datatype qvector = SparseVec "32 word list" "real list" | DenseVec "real list"

record qpoint =
  qp_vector :: qvector
  qp_payload :: "string \<rightharpoonup> string"

record point_store =
  pt_collections :: "string \<rightharpoonup> collection_config"
  pt_points :: "string \<Rightarrow> int \<rightharpoonup> qpoint"

fun vector_fits :: "collection_config \<Rightarrow> qvector \<Rightarrow> bool" where
  "vector_fits SparseCollection (SparseVec is vs) = (length is = length vs)"
| "vector_fits (DenseCollection n d) (DenseVec v) = (n = int (length v))"
| "vector_fits _ _ = False"

definition points_upsert ::
  "go_error option \<Rightarrow> string \<Rightarrow> (int \<times> qpoint) list \<Rightarrow> point_store \<Rightarrow> go_error option \<times> point_store" where
  "points_upsert fault coll points st =
     (case fault of
        Some e \<Rightarrow> (Some e, st)
      | None \<Rightarrow>
          (case pt_collections st coll of
             None \<Rightarrow> (Some (Failure ''collection not found''), st)
           | Some config \<Rightarrow>
               if list_all (\<lambda>(i, p). vector_fits config (qp_vector p)) points
               then (None, st\<lparr>pt_points := (pt_points st)(coll := pt_points st coll ++ map_of (rev points))\<rparr>)
               else (Some (Failure ''vector dimension error''), st)))"

definition points_delete :: "go_error option \<Rightarrow> string \<Rightarrow> int list \<Rightarrow> point_store \<Rightarrow> go_error option \<times> point_store" where
  "points_delete fault coll ids st =
     (case fault of
        Some e \<Rightarrow> (Some e, st)
      | None \<Rightarrow>
          if pt_collections st coll = None then (Some (Failure ''collection not found''), st)
          else (None, st\<lparr>pt_points := (pt_points st)(coll := pt_points st coll |` (- set ids))\<rparr>))"

definition scroll_from :: "(int \<rightharpoonup> qpoint) \<Rightarrow> int option \<Rightarrow> int list" where
  "scroll_from pts offset =
     filter (\<lambda>i. case offset of None \<Rightarrow> True | Some start \<Rightarrow> start \<le> i) (sorted_list_of_set (dom pts))"

definition scroll_page :: "(int \<rightharpoonup> qpoint) \<Rightarrow> nat \<Rightarrow> int option \<Rightarrow> int list \<times> int option" where
  "scroll_page pts limit offset =
     (let ids = scroll_from pts offset
      in (take limit ids, if limit < length ids then Some (ids ! limit) else None))"

section \<open>The sweep\<close>

definition qdrantBatchSize :: nat where
  "qdrantBatchSize = 100"

definition cleanupScrollPageSize :: nat where
  "cleanupScrollPageSize = 1000"

lemma scroll_from_shrinks:
  assumes "0 < limit" and "limit < length (scroll_from pts offset)"
  shows "length (scroll_from pts (Some (scroll_from pts offset ! limit))) < length (scroll_from pts offset)"
proof -
  define ids where "ids = scroll_from pts offset"
  have sorted: "sorted_wrt (<) ids"
    unfolding ids_def scroll_from_def by (intro sorted_wrt_filter) (simp add: strict_sorted_list_of_set)
  have sub: "set (scroll_from pts (Some (ids ! limit))) \<subseteq> set ids - {ids ! 0}"
  proof
    fix i assume i: "i \<in> set (scroll_from pts (Some (ids ! limit)))"
    have lt: "ids ! 0 < ids ! limit" using sorted assms by (simp add: sorted_wrt_iff_nth_less ids_def)
    have at: "ids ! limit \<in> set ids" using assms by (simp add: ids_def)
    from i have ge: "ids ! limit \<le> i" and mem: "i \<in> set (sorted_list_of_set (dom pts))" by (auto simp: scroll_from_def)
    from at ge mem have "i \<in> set ids" unfolding ids_def scroll_from_def by (auto split: option.splits)
    with ge lt show "i \<in> set ids - {ids ! 0}" by auto
  qed
  have "distinct ids" "ids \<noteq> []" using assms by (auto simp: ids_def scroll_from_def)
  have d: "distinct (scroll_from pts (Some (ids ! limit)))" by (simp add: scroll_from_def)
  have "card (set (scroll_from pts (Some (ids ! limit)))) \<le> card (set ids - {ids ! 0})"
    using sub by (rule card_mono [rotated]) simp
  also have "\<dots> < card (set ids)" using \<open>ids \<noteq> []\<close> by (intro card_Diff1_less) simp_all
  finally show ?thesis
    using \<open>distinct ids\<close> d by (simp add: distinct_card ids_def)
qed

function scroll_stale ::
  "(int option \<Rightarrow> go_error option) \<Rightarrow> (int \<rightharpoonup> qpoint) \<Rightarrow> int list \<Rightarrow> int option \<Rightarrow> int list \<Rightarrow> go_error + int list" where
  "scroll_stale fault pts keep offset stale =
     (case fault offset of
        Some e \<Rightarrow> Inl e
      | None \<Rightarrow>
          (case scroll_page pts cleanupScrollPageSize offset of
             (page, next) \<Rightarrow>
               let stale' = stale @ filter (\<lambda>i. i \<notin> set keep) page
               in case next of
                    None \<Rightarrow> Inr stale'
                  | Some n \<Rightarrow> if page = [] then Inr stale' else scroll_stale fault pts keep (Some n) stale'))"
  by pat_completeness auto
termination
proof (relation "measure (\<lambda>(fault, pts, keep, offset, stale). length (scroll_from pts offset))", goal_cases)
  case (2 fault pts keep offset stale page "next" stale' n)
  then show ?case
    using scroll_from_shrinks [of cleanupScrollPageSize pts offset]
    by (auto simp: scroll_page_def Let_def cleanupScrollPageSize_def split: if_splits)
qed simp

declare scroll_stale.simps [simp del]

fun batches :: "nat \<Rightarrow> 'a list \<Rightarrow> 'a list list" where
  "batches n [] = []"
| "batches n (x # xs) = (x # take (n - 1) xs) # batches n (drop (n - 1) xs)"

fun delete_batches ::
  "(int list \<Rightarrow> go_error option) \<Rightarrow> string \<Rightarrow> nat \<Rightarrow> int list list \<Rightarrow> point_store \<Rightarrow> (nat \<times> go_error option) \<times> point_store" where
  "delete_batches fault coll start [] st = ((start, None), st)"
| "delete_batches fault coll start (ids # rest) st =
     (case points_delete (fault ids) coll ids st of
        (Some e, st1) \<Rightarrow> ((start, Some e), st1)
      | (None, st1) \<Rightarrow> delete_batches fault coll (start + length ids) rest st1)"

record sweep_env =
  sw_scroll :: "string \<Rightarrow> int option \<Rightarrow> go_error option"
  sw_delete :: "string \<Rightarrow> int list \<Rightarrow> go_error option"

definition CleanupStalePoints ::
  "sweep_env \<Rightarrow> string \<Rightarrow> int list \<Rightarrow> point_store \<Rightarrow> (nat \<times> go_error option) \<times> point_store" where
  "CleanupStalePoints env coll keep st =
     (if pt_collections st coll = None then ((0, Some (Failure ''collection not found'')), st)
      else case scroll_stale (sw_scroll env coll) (pt_points st coll) keep None [] of
             Inl e \<Rightarrow> ((0, Some e), st)
           | Inr stale \<Rightarrow> delete_batches (sw_delete env coll) coll 0 (batches qdrantBatchSize stale) st)"

section \<open>The world of the recompute\<close>

text \<open>What the recompute reads and writes: the events, the identities and the points.\<close>

record compute_world =
  pw_events :: "Event list"
  pw_ids :: id_table
  pw_store :: point_store

section \<open>Reads\<close>

definition event_window :: time where
  "event_window = 90 * 24 * 60 * minutes 1"

definition raw_event :: "Event \<Rightarrow> RawEvent" where
  "raw_event e =
     \<lparr>re_SubjectID = ev_SubjectID e, re_ObjectID = ev_ObjectID e, re_Action = ev_Action e, re_Weight = ev_Weight e,
      re_OccurredAt = round_div (ev_OccurredAt e) (seconds 1),
      re_ObjectCreatedAt = map_option (\<lambda>t. round_div t (seconds 1)) (ev_ObjectCreatedAt e)\<rparr>"

definition recent_events :: "time \<Rightarrow> time \<Rightarrow> namespace \<Rightarrow> Event list \<Rightarrow> Event list" where
  "recent_events now window ns events = filter (\<lambda>e. ev_Namespace e = ns \<and> ev_OccurredAt e > now - window) events"

text \<open>\<open>order\<close> is the order in which PostgreSQL answers a query without \<^verbatim>\<open>ORDER BY\<close>.\<close>

definition GetActiveSubjects ::
  "go_error option \<Rightarrow> time \<Rightarrow> (string list \<Rightarrow> string list) \<Rightarrow> namespace \<Rightarrow> Event list \<Rightarrow> go_error + string list" where
  "GetActiveSubjects fault now order ns events =
     (case fault of
        Some e \<Rightarrow> Inl e
      | None \<Rightarrow> Inr (order (remdups (map ev_SubjectID (recent_events now event_window ns events)))))"

definition GetSubjectsEvents ::
  "go_error option \<Rightarrow> time \<Rightarrow> namespace \<Rightarrow> string list \<Rightarrow> Event list \<Rightarrow> go_error + (string \<Rightarrow> RawEvent list)" where
  "GetSubjectsEvents fault now ns subjectIDs events =
     (case fault of
        Some e \<Rightarrow> Inl e
      | None \<Rightarrow> Inr (\<lambda>subject. if subject \<in> set subjectIDs
                      then map raw_event (filter (\<lambda>e. ev_SubjectID e = subject) (recent_events now event_window ns events))
                      else []))"

definition GetAllNamespaceEvents :: "go_error option \<Rightarrow> time \<Rightarrow> namespace \<Rightarrow> Event list \<Rightarrow> go_error + RawEvent list" where
  "GetAllNamespaceEvents fault now ns events =
     (case fault of
        Some e \<Rightarrow> Inl e
      | None \<Rightarrow> Inr (map raw_event (sort_key (\<lambda>e. (ev_SubjectID e, ev_OccurredAt e)) (recent_events now event_window ns events))))"

definition GetNamespaceEventsInWindow ::
  "go_error option \<Rightarrow> time \<Rightarrow> namespace \<Rightarrow> int \<Rightarrow> Event list \<Rightarrow> go_error + RawEvent list" where
  "GetNamespaceEventsInWindow fault now ns windowHours events =
     (case fault of
        Some e \<Rightarrow> Inl e
      | None \<Rightarrow> Inr (map raw_event (sort_key ev_OccurredAt (recent_events now (windowHours * 60 * minutes 1) ns events))))"

definition listNamespaces :: "go_error option \<Rightarrow> (namespace \<times> bool \<Rightarrow> bool) \<Rightarrow> (namespace \<times> bool) list \<Rightarrow> go_error + namespace list" where
  "listNamespaces fault P configs = (case fault of Some e \<Rightarrow> Inl e | None \<Rightarrow> Inr (sort (map fst (filter P configs))))"

definition GetAllNamespaces :: "go_error option \<Rightarrow> (namespace \<times> bool) list \<Rightarrow> go_error + namespace list" where
  "GetAllNamespaces fault configs = listNamespaces fault (\<lambda>_. True) configs"

definition GetScheduledNamespaces :: "go_error option \<Rightarrow> (namespace \<times> bool) list \<Rightarrow> go_error + namespace list" where
  "GetScheduledNamespaces fault configs = listNamespaces fault (\<lambda>(ns, paused). \<not> paused) configs"

definition HasAnyEvents :: "go_error option \<Rightarrow> namespace \<Rightarrow> Event list \<Rightarrow> go_error + bool" where
  "HasAnyEvents fault ns events = (case fault of Some e \<Rightarrow> Inl e | None \<Rightarrow> Inr (list_ex (\<lambda>e. ev_Namespace e = ns) events))"

definition collectionForContext :: "lctx \<Rightarrow> namespace \<Rightarrow> CollectionKind \<Rightarrow> go_error + string" where
  "collectionForContext ctx ns kind =
     (case LeaseIncarnation ctx ns of
        (inc, ok) \<Rightarrow> if ok then Inr (CollectionName inc kind) else Inl ErrLeaseRequired)"

section \<open>Building and writing\<close>

text \<open>
  The environment of a recompute: the failures of its statements and requests by their arguments,
  the clock, the format of a timestamp, and the orders in which sets of strings and of ids are
  enumerated (rows of a query, keys of a map).
\<close>

record recompute_env =
  rc_active :: "go_error option"
  rc_events :: "string list \<Rightarrow> go_error option"
  rc_subject_ids :: "string list \<Rightarrow> id_env"
  rc_object_ids :: "string list \<Rightarrow> id_env"
  rc_upsert :: "string \<Rightarrow> int list \<Rightarrow> go_error option"
  rc_sweep :: sweep_env
  rc_now :: time
  rc_clock :: "string list \<Rightarrow> time"
  rc_rfc3339 :: "int \<Rightarrow> string"
  rc_strings :: "string list \<Rightarrow> string list"
  rc_ids :: "int list \<Rightarrow> int list"

record subjectVectors =
  sb_scores :: subjectScores
  sb_vec :: SubjectVector

definition resolveObjectIDs ::
  "recompute_env \<Rightarrow> lctx \<Rightarrow> namespace \<Rightarrow> string list \<Rightarrow> id_table \<Rightarrow> (go_error + (string \<rightharpoonup> int)) \<times> id_table" where
  "resolveObjectIDs env ctx ns keys t =
     (if keys = [] then (Inr Map.empty, t) else GetOrCreateObjectIDs (rc_object_ids env keys) ctx keys ns t)"

text \<open>A subject whose id is missing or whose vector cannot be built is left out.\<close>

fun build_subjects ::
  "(string \<rightharpoonup> int) \<Rightarrow> (string \<rightharpoonup> int) \<Rightarrow> (string \<times> subjectScores) list \<Rightarrow> subjectVectors list" where
  "build_subjects subjectIDs objectIDs [] = []"
| "build_subjects subjectIDs objectIDs ((subjectID, scored) # rest) =
     (case subjectIDs subjectID of
        None \<Rightarrow> build_subjects subjectIDs objectIDs rest
      | Some subjectNumID \<Rightarrow>
          (case buildSubjectVector subjectID subjectNumID (sc_scores scored) objectIDs of
             Inl e \<Rightarrow> build_subjects subjectIDs objectIDs rest
           | Inr vec \<Rightarrow> \<lparr>sb_scores = scored, sb_vec = vec\<rparr> # build_subjects subjectIDs objectIDs rest))"

definition buildChunk ::
  "recompute_env \<Rightarrow> lctx \<Rightarrow> namespace \<Rightarrow> string list \<Rightarrow> real \<Rightarrow> compute_world
   \<Rightarrow> (go_error + subjectVectors list \<times> (string \<rightharpoonup> int)) \<times> compute_world" where
  "buildChunk env ctx ns chunk lambda w =
     (case GetSubjectsEvents (rc_events env chunk) (rc_clock env chunk) ns chunk (pw_events w) of
        Inl e \<Rightarrow> (Inl e, w)
      | Inr events \<Rightarrow>
          (case GetOrCreateSubjectIDs (rc_subject_ids env chunk) ctx chunk ns (pw_ids w) of
             (Inl e, t1) \<Rightarrow> (Inl e, w\<lparr>pw_ids := t1\<rparr>)
           | (Inr subjectIDs, t1) \<Rightarrow>
               let now = rc_clock env chunk div seconds 1;
                   scored = map (\<lambda>subjectID. (subjectID, scoreEvents (events subjectID) lambda now)) chunk;
                   objectSet = remdups (concat (map (map fst \<circ> sc_scores \<circ> snd) scored))
               in case resolveObjectIDs env ctx ns (rc_strings env objectSet) t1 of
                    (Inl e, t2) \<Rightarrow> (Inl e, w\<lparr>pw_ids := t2\<rparr>)
                  | (Inr objectIDs, t2) \<Rightarrow>
                      (Inr (build_subjects subjectIDs objectIDs scored, objectIDs), w\<lparr>pw_ids := t2\<rparr>)))"

definition subject_point :: "recompute_env \<Rightarrow> SubjectVector \<Rightarrow> int \<times> qpoint" where
  "subject_point env vec =
     (sv_NumericID vec,
      \<lparr>qp_vector = SparseVec (sv_Indices vec) (sv_Values vec),
       qp_payload = [''subject_id'' \<mapsto> sv_SubjectID vec, ''updated_at'' \<mapsto> rc_rfc3339 env (rc_now env div seconds 1)]\<rparr>)"

definition upsert_points ::
  "recompute_env \<Rightarrow> string \<Rightarrow> (int \<times> qpoint) list \<Rightarrow> compute_world \<Rightarrow> go_error option \<times> compute_world" where
  "upsert_points env coll points w =
     (case points_upsert (rc_upsert env coll (map fst points)) coll points (pw_store w) of
        (r, st) \<Rightarrow> (r, w\<lparr>pw_store := st\<rparr>))"

definition upsertSubjectVectors ::
  "recompute_env \<Rightarrow> lctx \<Rightarrow> namespace \<Rightarrow> SubjectVector list \<Rightarrow> compute_world \<Rightarrow> go_error option \<times> compute_world" where
  "upsertSubjectVectors env ctx ns vecs w =
     (if vecs = [] then (None, w)
      else case collectionForContext ctx ns CollectionSubjects of
             Inl e \<Rightarrow> (Some e, w)
           | Inr coll \<Rightarrow> upsert_points env coll (map (subject_point env) vecs) w)"

fun object_entries :: "(int, real) gomap \<Rightarrow> sparseEntry list" where
  "object_entries [] = []"
| "object_entries ((coNumID, score) # rest) =
     (let (index, fits) = sparseIndex coNumID
      in if fits then \<lparr>en_index = index, en_value = score\<rparr> # object_entries rest else object_entries rest)"

definition object_created_at :: "recompute_env \<Rightarrow> cooccurrence \<Rightarrow> int \<Rightarrow> string" where
  "object_created_at env co objNumID =
     (if gm_get 0 objNumID (co_createdTimes co) > 0 then rc_rfc3339 env (gm_get 0 objNumID (co_createdTimes co))
      else if gm_get 0 objNumID (co_maxTimes co) > 0 then rc_rfc3339 env (gm_get 0 objNumID (co_maxTimes co))
      else rc_rfc3339 env (rc_now env div seconds 1))"

definition object_point :: "recompute_env \<Rightarrow> cooccurrence \<Rightarrow> int \<times> (int, real) gomap \<Rightarrow> int \<times> qpoint" where
  "object_point env co = (\<lambda>(objNumID, row).
     (objNumID,
      \<lparr>qp_vector = (case sparseVectorFrom (object_entries row) of (indices, values) \<Rightarrow> SparseVec indices values),
       qp_payload = [''object_id'' \<mapsto> gm_get [] objNumID (co_keys co), ''created_at'' \<mapsto> object_created_at env co objNumID]\<rparr>))"

fun flush_batches ::
  "recompute_env \<Rightarrow> string \<Rightarrow> (int \<times> qpoint) list list \<Rightarrow> compute_world \<Rightarrow> go_error option \<times> compute_world" where
  "flush_batches env coll [] w = (None, w)"
| "flush_batches env coll (batch # rest) w =
     (case upsert_points env coll batch w of
        (Some e, w1) \<Rightarrow> (Some e, w1)
      | (None, w1) \<Rightarrow> flush_batches env coll rest w1)"

text \<open>The rows of one pass, visited in the order of the map iteration and flushed every hundred points.\<close>

definition upsertObjectVectors ::
  "recompute_env \<Rightarrow> lctx \<Rightarrow> namespace \<Rightarrow> (int, (int, real) gomap) gomap \<Rightarrow> cooccurrence \<Rightarrow> compute_world
   \<Rightarrow> (go_error + int list) \<times> compute_world" where
  "upsertObjectVectors env ctx ns accum co w =
     (case collectionForContext ctx ns CollectionObjects of
        Inl e \<Rightarrow> (Inl e, w)
      | Inr coll \<Rightarrow>
          let ids = rc_ids env (map fst accum);
              points = map (\<lambda>i. object_point env co (i, gm_get [] i accum)) ids
          in case flush_batches env coll (batches qdrantBatchSize points) w of
               (Some e, w1) \<Rightarrow> (Inl e, w1)
             | (None, w1) \<Rightarrow> (Inr ids, w1))"

section \<open>The recompute\<close>

record recompute_state =
  ra_upserted :: nat
  ra_failedChunks :: nat
  ra_keepSubjects :: "int list"
  ra_co :: cooccurrence

definition recompute_chunk ::
  "recompute_env \<Rightarrow> lctx \<Rightarrow> namespace \<Rightarrow> real \<Rightarrow> string list \<Rightarrow> recompute_state \<times> compute_world
   \<Rightarrow> recompute_state \<times> compute_world" where
  "recompute_chunk env ctx ns lambda chunk = (\<lambda>(a, w).
     case buildChunk env ctx ns chunk lambda w of
       (Inl e, w1) \<Rightarrow> (a\<lparr>ra_failedChunks := ra_failedChunks a + 1\<rparr>, w1)
     | (Inr (built, objectIDs), w1) \<Rightarrow>
         let vecs = map sb_vec built;
             co = fold (\<lambda>b. co_add (sb_scores b) objectIDs) built (ra_co a)
         in case upsertSubjectVectors env ctx ns vecs w1 of
              (Some e, w2) \<Rightarrow> (a\<lparr>ra_failedChunks := ra_failedChunks a + 1, ra_co := co\<rparr>, w2)
            | (None, w2) \<Rightarrow> (a\<lparr>ra_upserted := ra_upserted a + length vecs,
                               ra_keepSubjects := ra_keepSubjects a @ map sv_NumericID vecs, ra_co := co\<rparr>, w2))"

text \<open>The object passes from \<open>pass\<close> on, \<open>n\<close> of them; the kept ids and the number of rows add up.\<close>

fun object_passes ::
  "recompute_env \<Rightarrow> lctx \<Rightarrow> namespace \<Rightarrow> cooccurrence \<Rightarrow> (int, nat) gomap \<Rightarrow> nat \<Rightarrow> nat \<Rightarrow> int list \<Rightarrow> nat \<Rightarrow> compute_world
   \<Rightarrow> (go_error + int list \<times> nat) \<times> compute_world" where
  "object_passes env ctx ns co passOf pass 0 keep objects w = (Inr (keep, objects), w)"
| "object_passes env ctx ns co passOf pass (Suc n) keep objects w =
     (let accum = accumulate co passOf pass
      in case upsertObjectVectors env ctx ns accum co w of
           (Inl e, w1) \<Rightarrow> (Inl e, w1)
         | (Inr kept, w1) \<Rightarrow> object_passes env ctx ns co passOf (pass + 1) n (keep @ kept) (objects + length accum) w1)"

definition cleanupCollection ::
  "recompute_env \<Rightarrow> lctx \<Rightarrow> namespace \<Rightarrow> CollectionKind \<Rightarrow> int list \<Rightarrow> compute_world \<Rightarrow> compute_world" where
  "cleanupCollection env ctx ns kind keep w =
     (case collectionForContext ctx ns kind of
        Inl e \<Rightarrow> w
      | Inr coll \<Rightarrow> w\<lparr>pw_store := snd (CleanupStalePoints (rc_sweep env) coll keep (pw_store w))\<rparr>)"

definition RecomputeNamespace ::
  "recompute_env \<Rightarrow> lctx \<Rightarrow> namespace \<Rightarrow> real \<Rightarrow> compute_world \<Rightarrow> (go_error + nat \<times> nat) \<times> compute_world" where
  "RecomputeNamespace env ctx ns lambda w =
     (case GetActiveSubjects (rc_active env) (rc_now env) (rc_strings env) ns (pw_events w) of
        Inl e \<Rightarrow> (Inl e, w)
      | Inr subjects \<Rightarrow>
          (case fold (recompute_chunk env ctx ns lambda) (batches qdrantBatchSize subjects)
                  (\<lparr>ra_upserted = 0, ra_failedChunks = 0, ra_keepSubjects = [], ra_co = newCooccurrence\<rparr>, w) of
             (a, w1) \<Rightarrow>
               if subjects \<noteq> [] \<and> ra_upserted a = 0 then (Inl (Failure ''all subject upserts failed''), w1)
               else case planPasses (rc_ids env) cooccurrenceBudget (ra_co a) of
                 (passOf, passes) \<Rightarrow>
                   (case object_passes env ctx ns (ra_co a) passOf 0 passes [] 0 w1 of
                      (Inl e, w2) \<Rightarrow> (Inl e, w2)
                    | (Inr (keepObjects, objects), w2) \<Rightarrow>
                        (Inr (ra_upserted a, objects),
                         if ra_failedChunks a > 0 then w2
                         else cleanupCollection env ctx ns CollectionObjects keepObjects
                                (cleanupCollection env ctx ns CollectionSubjects (ra_keepSubjects a) w2)))))"

section \<open>What the sweep removes\<close>

lemma filter_ge_nth:
  fixes ids :: "int list"
  assumes "sorted_wrt (<) ids" and "n < length ids"
  shows "filter (\<lambda>i. ids ! n \<le> i) ids = drop n ids"
proof -
  have "ids = take n ids @ drop n ids" by simp
  moreover have "filter (\<lambda>i. ids ! n \<le> i) (take n ids) = []"
    using assms by (auto simp: filter_empty_conv in_set_conv_nth sorted_wrt_iff_nth_less not_le)
  moreover have "filter (\<lambda>i. ids ! n \<le> i) (drop n ids) = drop n ids"
  proof (rule filter_True, rule ballI)
    fix i assume "i \<in> set (drop n ids)"
    then obtain m where "m < length ids - n" "i = ids ! (n + m)" by (auto simp: in_set_conv_nth)
    then show "ids ! n \<le> i"
      using assms by (cases m) (auto simp: sorted_wrt_iff_nth_less intro!: less_imp_le)
  qed
  ultimately show ?thesis by (metis append_Nil filter_append)
qed

lemma scroll_from_next:
  assumes "n < length (scroll_from pts offset)"
  shows "scroll_from pts (Some (scroll_from pts offset ! n)) = drop n (scroll_from pts offset)"
proof -
  define ids where "ids = scroll_from pts offset"
  have sorted: "sorted_wrt (<) ids"
    unfolding ids_def scroll_from_def by (intro sorted_wrt_filter) (simp add: strict_sorted_list_of_set)
  have at: "ids ! n \<in> set ids" using assms by (simp add: ids_def)
  have "scroll_from pts (Some (ids ! n)) = filter (\<lambda>i. ids ! n \<le> i) ids"
    using at unfolding ids_def scroll_from_def by (auto simp: filter_filter split: option.splits intro!: filter_cong)
  also have "\<dots> = drop n ids" by (rule filter_ge_nth [OF sorted]) (use assms in \<open>simp add: ids_def\<close>)
  finally show ?thesis by (simp add: ids_def)
qed

lemma scroll_stale_result:
  "scroll_stale fault pts keep offset stale = Inr r \<Longrightarrow> r = stale @ filter (\<lambda>i. i \<notin> set keep) (scroll_from pts offset)"
proof (induction fault pts keep offset stale arbitrary: r rule: scroll_stale.induct)
  case (1 fault pts keep offset stale)
  let ?ids = "scroll_from pts offset" and ?n = cleanupScrollPageSize
  let ?stale = "stale @ filter (\<lambda>i. i \<notin> set keep) (take ?n ?ids)"
  have nf: "fault offset = None" using "1.prems" by (subst (asm) scroll_stale.simps) (auto split: option.splits)
  show ?case
  proof (cases "?n < length ?ids")
    case False
    then show ?thesis using "1.prems" nf by (subst (asm) scroll_stale.simps) (simp add: scroll_page_def Let_def)
  next
    case True
    then have page: "scroll_page pts ?n offset = (take ?n ?ids, Some (?ids ! ?n))" by (simp add: scroll_page_def Let_def)
    have ne: "take ?n ?ids \<noteq> []" using True by (auto simp: cleanupScrollPageSize_def)
    then have "scroll_stale fault pts keep (Some (?ids ! ?n)) ?stale = Inr r"
      using "1.prems" nf page by (subst (asm) scroll_stale.simps) (simp add: Let_def)
    from "1.IH" [OF nf page [symmetric] refl refl ne this] scroll_from_next [OF True]
    show ?thesis by (metis append.assoc append_take_drop_id filter_append)
  qed
qed

lemma concat_batches: "concat (batches n xs) = xs"
  by (induction n xs rule: batches.induct) auto

lemma batches_nonempty: "b \<in> set (batches n xs) \<Longrightarrow> b \<noteq> []"
  by (induction n xs rule: batches.induct) auto

text \<open>A collection loses points, all others stay as they are.\<close>

definition loses :: "string \<Rightarrow> int set \<Rightarrow> point_store \<Rightarrow> point_store \<Rightarrow> bool" where
  "loses coll D st st' \<longleftrightarrow>
     pt_collections st' = pt_collections st \<and> pt_points st' = (pt_points st)(coll := pt_points st coll |` (- D))"

lemma loses_refl [simp]: "loses coll {} st st"
  by (auto simp: loses_def restrict_map_def)

lemma loses_trans: "loses coll D st st' \<Longrightarrow> loses coll D' st' st'' \<Longrightarrow> loses coll (D \<union> D') st st''"
  by (auto simp: loses_def fun_eq_iff restrict_map_def)

lemma delete_batches_loses:
  assumes "pt_collections st coll \<noteq> None" and "delete_batches fault coll n bs st = ((k, r), st')"
  shows "\<exists>D. D \<subseteq> set (concat bs) \<and> loses coll D st st' \<and> (r = None \<longrightarrow> D = set (concat bs) \<and> k = n + length (concat bs))"
  using assms
proof (induction bs arbitrary: n st)
  case Nil
  then show ?case by (intro exI [of _ "{}"]) simp
next
  case (Cons b bs)
  show ?case
  proof (cases "fault b")
    case (Some e)
    then show ?thesis using Cons.prems by (intro exI [of _ "{}"]) (auto simp: points_delete_def)
  next
    case None
    define st1 where "st1 = st\<lparr>pt_points := (pt_points st)(coll := pt_points st coll |` (- set b))\<rparr>"
    have run: "delete_batches fault coll (n + length b) bs st1 = ((k, r), st')"
      using Cons.prems None by (auto simp: points_delete_def st1_def)
    have l: "loses coll (set b) st st1" by (simp add: loses_def st1_def)
    from Cons.IH [OF _ run] Cons.prems(1) obtain D where
      "D \<subseteq> set (concat bs)" "loses coll D st1 st'" "r = None \<longrightarrow> D = set (concat bs) \<and> k = n + length b + length (concat bs)"
      by (auto simp: st1_def)
    with loses_trans [OF l] show ?thesis by (intro exI [of _ "set b \<union> D"]) auto
  qed
qed

lemma CleanupStalePoints_loses:
  assumes "CleanupStalePoints env coll keep st = ((n, r), st')"
  shows "\<exists>D. D \<inter> set keep = {} \<and> loses coll D st st'
           \<and> (r = None \<longrightarrow> finite (dom (pt_points st coll)) \<longrightarrow> D = dom (pt_points st coll) - set keep \<and> n = card D)"
proof (cases "pt_collections st coll = None")
  case True
  then show ?thesis using assms by (intro exI [of _ "{}"]) (auto simp: CleanupStalePoints_def)
next
  case c: False
  show ?thesis
  proof (cases "scroll_stale (sw_scroll env coll) (pt_points st coll) keep None []")
    case (Inl e)
    then show ?thesis using assms c by (intro exI [of _ "{}"]) (auto simp: CleanupStalePoints_def)
  next
    case (Inr stale)
    have st: "stale = filter (\<lambda>i. i \<notin> set keep) (sorted_list_of_set (dom (pt_points st coll)))"
      using scroll_stale_result [OF Inr] by (simp add: scroll_from_def)
    have run: "delete_batches (sw_delete env coll) coll 0 (batches qdrantBatchSize stale) st = ((n, r), st')"
      using assms c Inr by (simp add: CleanupStalePoints_def)
    from delete_batches_loses [OF c run] obtain D where
      D: "D \<subseteq> set stale" "loses coll D st st'" "r = None \<longrightarrow> D = set stale \<and> n = length stale"
      by (auto simp: concat_batches)
    have "distinct stale" unfolding st by (simp add: distinct_filter)
    then have "length stale = card (set stale)" by (simp add: distinct_card)
    with D st show ?thesis by (intro exI [of _ D]) auto
  qed
qed

section \<open>Building a chunk\<close>

lemma CollectionName_inject:
  assumes "ns \<noteq> []" and "1 \<le> g"
    and "CollectionName \<lparr>inc_namespace = ns, inc_generation = g\<rparr> k = CollectionName \<lparr>inc_namespace = ns, inc_generation = g\<rparr> l"
  shows "k = l"
proof -
  have "qdrant_kind (physicalKind k)" "qdrant_kind (physicalKind l)" by (cases k; simp) (cases l; simp)
  moreover have "CollectionName \<lparr>inc_namespace = ns, inc_generation = g\<rparr> j = QdrantNamespace ns g @ ''_'' @ kind_string (physicalKind j)" for j
    using assms(1,2) by (cases j) (simp_all add: CollectionName_def inc_MustPhysicalName_def MustPhysicalName_def PhysicalName_def Let_def inc_Generation_def)
  ultimately have "physicalKind k = physicalKind l" using assms(3) kind_suffix_inject by metis
  then show ?thesis by (cases k; cases l) simp_all
qed

lemma subject_entries_cong:
  "\<forall>k\<in>fst ` set scores. f k = g k \<Longrightarrow> subject_entries f scores = subject_entries g scores"
  by (induction scores) (auto split: option.split)

lemma buildSubjectVector_cong:
  "\<forall>k\<in>fst ` set scores. f k = g k \<Longrightarrow> buildSubjectVector s i scores f = buildSubjectVector s i scores g"
  unfolding buildSubjectVector_def using subject_entries_cong [of scores f g] by simp

lemma buildSubjectVector_resolved:
  assumes "\<forall>k\<in>fst ` set scores. \<exists>i. objectIDs k = Some i \<and> fits i"
  shows "\<exists>v. buildSubjectVector s n scores objectIDs = Inr v \<and> sv_SubjectID v = s \<and> sv_NumericID v = n
           \<and> length (sv_Indices v) = length (sv_Values v)"
  using subject_entries_resolved [of scores objectIDs] assms by (force simp: buildSubjectVector_def case_prod_beta)

definition built_subject :: "(string \<rightharpoonup> int) \<Rightarrow> (string \<rightharpoonup> int) \<Rightarrow> string \<times> subjectScores \<Rightarrow> subjectVectors" where
  "built_subject subjectIDs objectIDs = (\<lambda>(s, sc).
     \<lparr>sb_scores = sc, sb_vec = projr (buildSubjectVector s (id_at subjectIDs s) (sc_scores sc) objectIDs)\<rparr>)"

lemma build_subjects_all:
  assumes "\<And>s sc. (s, sc) \<in> set scored \<Longrightarrow> subjectIDs s \<noteq> None
      \<and> (\<forall>k\<in>fst ` set (sc_scores sc). \<exists>i. objectIDs k = Some i \<and> fits i)"
  shows "build_subjects subjectIDs objectIDs scored = map (built_subject subjectIDs objectIDs) scored"
  using assms
proof (induction scored)
  case (Cons x xs)
  obtain s sc where x: "x = (s, sc)" by (cases x)
  from Cons.prems [of s sc] obtain i where i: "subjectIDs s = Some i"
    and ok: "\<forall>k\<in>fst ` set (sc_scores sc). \<exists>i. objectIDs k = Some i \<and> fits i" by (auto simp: x)
  obtain v where "buildSubjectVector s i (sc_scores sc) objectIDs = Inr v" using buildSubjectVector_resolved [OF ok] by blast
  moreover have "build_subjects subjectIDs objectIDs xs = map (built_subject subjectIDs objectIDs) xs"
    by (rule Cons.IH) (use Cons.prems in auto)
  ultimately show ?case using i by (simp add: x built_subject_def id_at_def)
qed simp

text \<open>The environments of the id batches only add identities.\<close>

definition ids_lawful :: "recompute_env \<Rightarrow> bool" where
  "ids_lawful env \<longleftrightarrow> (\<forall>c. only_adds (rc_subject_ids env c)) \<and> (\<forall>c. only_adds (rc_object_ids env c))"

lemma id_fits: "idmap_wf t \<Longrightarrow> id_of t ns entity sid = Some n \<Longrightarrow> fits n"
  using id_of_bounds [of t ns entity sid n] by (simp add: fits_def numeric_id_max_def maxSparseIndex_def)

definition window_scores :: "time \<Rightarrow> namespace \<Rightarrow> real \<Rightarrow> Event list \<Rightarrow> string \<Rightarrow> subjectScores" where
  "window_scores now ns lambda events s =
     scoreEvents (map raw_event (filter (\<lambda>e. ev_SubjectID e = s) (recent_events now event_window ns events))) lambda (now div seconds 1)"

abbreviation chunk_scores :: "recompute_env \<Rightarrow> namespace \<Rightarrow> real \<Rightarrow> string list \<Rightarrow> Event list \<Rightarrow> string \<Rightarrow> subjectScores" where
  "chunk_scores env ns lambda chunk \<equiv> window_scores (rc_clock env chunk) ns lambda"

lemma resolveObjectIDs_result:
  assumes "ids_lawful env" and "idmap_wf t" and "resolveObjectIDs env ctx ns keys t = (r, t')"
  shows "id_extends t t' \<and> (\<forall>m. r = Inr m \<longrightarrow> dom m = set keys \<and> (\<forall>k n. m k = Some n \<longrightarrow> id_of t' ns ''object'' k = Some n))"
proof (cases "keys = []")
  case False
  then have run: "GetOrCreateBatch (rc_object_ids env keys) ctx keys ns ''object'' t = (r, t')"
    using assms(3) by (simp add: resolveObjectIDs_def GetOrCreateObjectIDs_def)
  have law: "only_adds (rc_object_ids env keys)" using assms(1) by (simp add: ids_lawful_def)
  have "\<forall>m. r = Inr m \<longrightarrow> dom m = set keys \<and> (\<forall>k n. m k = Some n \<longrightarrow> id_of t' ns ''object'' k = Some n)"
    using GetOrCreateBatch_result [OF law assms(2)] run by blast
  with GetOrCreateBatch_extends [OF law run] show ?thesis by blast
qed (use assms(3) in \<open>auto simp: resolveObjectIDs_def\<close>)

lemma buildChunk_fail:
  assumes law: "ids_lawful env" and wf: "idmap_wf (pw_ids w)" and run: "buildChunk env ctx ns chunk lambda w = (Inl e, w1)"
  shows "w1 = w\<lparr>pw_ids := pw_ids w1\<rparr> \<and> id_extends (pw_ids w) (pw_ids w1)"
proof (cases "GetSubjectsEvents (rc_events env chunk) (rc_clock env chunk) ns chunk (pw_events w)")
  case (Inl e)
  then show ?thesis using run by (simp add: buildChunk_def)
next
  case (Inr events)
  obtain r t1 where subj: "GetOrCreateSubjectIDs (rc_subject_ids env chunk) ctx chunk ns (pw_ids w) = (r, t1)"
    by (cases "GetOrCreateSubjectIDs (rc_subject_ids env chunk) ctx chunk ns (pw_ids w)")
  have "only_adds (rc_subject_ids env chunk)" using law by (simp add: ids_lawful_def)
  from GetOrCreateBatch_extends [OF this subj [unfolded GetOrCreateSubjectIDs_def]]
  have s: "id_extends (pw_ids w) t1" .
  then have wf1: "idmap_wf t1" using wf by (simp add: id_extends_def)
  show ?thesis
  proof (cases r)
    case (Inl e)
    then show ?thesis using run Inr subj s by (auto simp: buildChunk_def)
  next
    case r: (Inr subjectIDs)
    then obtain keys x where "resolveObjectIDs env ctx ns keys t1 = (x, pw_ids w1)" "w1 = w\<lparr>pw_ids := pw_ids w1\<rparr>"
      using run Inr subj by (auto simp: buildChunk_def Let_def simp del: map_map split: prod.splits sum.splits)
    with resolveObjectIDs_result [OF law wf1] s show ?thesis by (blast intro: id_extends_trans)
  qed
qed

text \<open>A subject is resolved in a table when it and the objects of its scores have identities.\<close>

definition resolved :: "id_table \<Rightarrow> namespace \<Rightarrow> subjectScores \<Rightarrow> string \<Rightarrow> bool" where
  "resolved t ns sc s \<longleftrightarrow> id_of t ns ''subject'' s \<noteq> None \<and> (\<forall>k\<in>fst ` set (sc_scores sc). id_of t ns ''object'' k \<noteq> None)"

abbreviation subject_build :: "id_table \<Rightarrow> namespace \<Rightarrow> subjectScores \<Rightarrow> string \<Rightarrow> subjectVectors" where
  "subject_build t ns sc s \<equiv> built_subject (id_of t ns ''subject'') (id_of t ns ''object'') (s, sc)"

lemma built_subject_cong:
  assumes "f s = f' s" and "\<forall>k\<in>fst ` set (sc_scores sc). g k = g' k"
  shows "built_subject f g (s, sc) = built_subject f' g' (s, sc)"
  using buildSubjectVector_cong [OF assms(2)] assms(1) by (simp add: built_subject_def id_at_def)

lemma resolved_extends:
  assumes "idmap_wf t" and "id_extends t t'" and "resolved t ns sc s"
  shows "resolved t' ns sc s \<and> subject_build t' ns sc s = subject_build t ns sc s
    \<and> id_of t' ns ''subject'' s = id_of t ns ''subject'' s \<and> (\<forall>k\<in>fst ` set (sc_scores sc). id_of t' ns ''object'' k = id_of t ns ''object'' k)"
proof -
  have s: "id_of t' ns ''subject'' s = id_of t ns ''subject'' s"
    and k: "\<forall>k\<in>fst ` set (sc_scores sc). id_of t' ns ''object'' k = id_of t ns ''object'' k"
    using assms(3) id_of_extends [OF assms(1,2)] by (force simp: resolved_def)+
  with built_subject_cong [of "id_of t' ns ''subject''" s "id_of t ns ''subject''" sc "id_of t' ns ''object''" "id_of t ns ''object''", OF s k] assms(3) show ?thesis by (simp add: resolved_def)
qed

lemma subject_build_ok:
  assumes "idmap_wf t" and "resolved t ns sc s"
  shows "\<exists>i v. id_of t ns ''subject'' s = Some i \<and> buildSubjectVector s i (sc_scores sc) (id_of t ns ''object'') = Inr v
     \<and> subject_build t ns sc s = \<lparr>sb_scores = sc, sb_vec = v\<rparr> \<and> sv_NumericID v = i \<and> length (sv_Indices v) = length (sv_Values v)"
proof -
  obtain i where i: "id_of t ns ''subject'' s = Some i" using assms(2) by (auto simp: resolved_def)
  have "\<forall>k\<in>fst ` set (sc_scores sc). \<exists>i. id_of t ns ''object'' k = Some i \<and> fits i"
    using assms(2) id_fits [OF assms(1)] by (fastforce simp: resolved_def)
  from buildSubjectVector_resolved [OF this, of s i] i show ?thesis by (auto simp: built_subject_def id_at_def)
qed

lemma buildChunk_ok:
  assumes law: "ids_lawful env" and vis: "visits (rc_strings env)" and wf: "idmap_wf (pw_ids w)"
    and run: "buildChunk env ctx ns chunk lambda w = (Inr (built, objectIDs), w1)"
  defines "sc \<equiv> chunk_scores env ns lambda chunk (pw_events w)"
  shows "w1 = w\<lparr>pw_ids := pw_ids w1\<rparr>" and "id_extends (pw_ids w) (pw_ids w1)"
    and "\<forall>s\<in>set chunk. resolved (pw_ids w1) ns (sc s) s"
    and "\<forall>s\<in>set chunk. \<forall>k\<in>fst ` set (sc_scores (sc s)). objectIDs k = id_of (pw_ids w1) ns ''object'' k"
    and "built = map (\<lambda>s. subject_build (pw_ids w1) ns (sc s) s) chunk"
proof -
  define scored where "scored = map (\<lambda>s. (s, sc s)) chunk"
  define objectSet where "objectSet = remdups (concat (map (map fst \<circ> sc_scores \<circ> snd) scored))"
  have events: "GetSubjectsEvents (rc_events env chunk) (rc_clock env chunk) ns chunk (pw_events w)
      = (case rc_events env chunk of Some e \<Rightarrow> Inl e | None \<Rightarrow> Inr (\<lambda>s. if s \<in> set chunk
           then map raw_event (filter (\<lambda>e. ev_SubjectID e = s) (recent_events (rc_clock env chunk) event_window ns (pw_events w))) else []))"
    by (simp add: GetSubjectsEvents_def)
  have sc_eq: "map (\<lambda>s. (s, scoreEvents (if s \<in> set chunk then map raw_event (filter (\<lambda>e. ev_SubjectID e = s)
        (recent_events (rc_clock env chunk) event_window ns (pw_events w))) else []) lambda (rc_clock env chunk div seconds 1))) chunk = scored"
    by (simp add: scored_def sc_def window_scores_def)
  obtain subjectIDs t1 where subj: "GetOrCreateSubjectIDs (rc_subject_ids env chunk) ctx chunk ns (pw_ids w) = (Inr subjectIDs, t1)"
    and obj: "resolveObjectIDs env ctx ns (rc_strings env objectSet) t1 = (Inr objectIDs, pw_ids w1)"
    and w1: "w1 = w\<lparr>pw_ids := pw_ids w1\<rparr>" and built: "built = build_subjects subjectIDs objectIDs scored"
    using run unfolding buildChunk_def events
    by (auto simp: Let_def sc_eq objectSet_def [symmetric] simp del: map_map split: option.splits sum.splits prod.splits)
  have law1: "only_adds (rc_subject_ids env chunk)" using law by (simp add: ids_lawful_def)
  note s1 = GetOrCreateBatch_extends [OF law1 subj [unfolded GetOrCreateSubjectIDs_def]]
    and s2 = GetOrCreateBatch_result [OF law1 wf subj [unfolded GetOrCreateSubjectIDs_def]]
  have wf1: "idmap_wf t1" using s1 wf by (simp add: id_extends_def)
  note o1 = resolveObjectIDs_result [OF law wf1 obj]
  then have wf2: "idmap_wf (pw_ids w1)" using wf1 by (simp add: id_extends_def)
  have oset: "dom objectIDs = set objectSet" using o1 visits_set [OF vis] by auto
  have sid: "subjectIDs s = id_of (pw_ids w1) ns ''subject'' s \<and> subjectIDs s \<noteq> None" if "s \<in> set chunk" for s
  proof -
    from that s2 obtain n where n: "subjectIDs s = Some n" by blast
    with s2 have "id_of t1 ns ''subject'' s = Some n" by blast
    then have "id_of (pw_ids w1) ns ''subject'' s = Some n" using o1 wf1 by (blast intro: id_of_extends)
    with n show ?thesis by simp
  qed
  have oid: "objectIDs k = id_of (pw_ids w1) ns ''object'' k \<and> objectIDs k \<noteq> None"
    if "s \<in> set chunk" "k \<in> fst ` set (sc_scores (sc s))" for s k
  proof -
    have "k \<in> set objectSet" using that by (auto simp: objectSet_def scored_def)
    then obtain n where "objectIDs k = Some n" using oset by blast
    with o1 show ?thesis by auto
  qed
  show "w1 = w\<lparr>pw_ids := pw_ids w1\<rparr>" by (rule w1)
  show "id_extends (pw_ids w) (pw_ids w1)" using s1 o1 by (blast intro: id_extends_trans)
  show res: "\<forall>s\<in>set chunk. resolved (pw_ids w1) ns (sc s) s" unfolding resolved_def using sid oid by metis
  show same: "\<forall>s\<in>set chunk. \<forall>k\<in>fst ` set (sc_scores (sc s)). objectIDs k = id_of (pw_ids w1) ns ''object'' k"
    using oid by blast
  have "build_subjects subjectIDs objectIDs scored = map (built_subject subjectIDs objectIDs) scored"
  proof (rule build_subjects_all)
    fix s sc' assume "(s, sc') \<in> set scored"
    then have s: "s \<in> set chunk" "sc' = sc s" by (auto simp: scored_def)
    have "\<exists>i. objectIDs k = Some i \<and> fits i" if "k \<in> fst ` set (sc_scores sc')" for k
      using oid [OF s(1), of k] that id_fits [OF wf2] by (metis option.exhaust s(2))
    with sid [OF s(1)] show "subjectIDs s \<noteq> None \<and> (\<forall>k\<in>fst ` set (sc_scores sc'). \<exists>i. objectIDs k = Some i \<and> fits i)"
      by blast
  qed
  also have "\<dots> = map (\<lambda>s. subject_build (pw_ids w1) ns (sc s) s) chunk"
    unfolding scored_def map_map o_def
    by (rule map_cong [OF refl], rule built_subject_cong) (use sid same in \<open>auto\<close>)
  finally show "built = map (\<lambda>s. subject_build (pw_ids w1) ns (sc s) s) chunk" using built by simp
qed

section \<open>The chunks of a recompute\<close>

text \<open>A collection gains points: those of \<open>new\<close> override what was there.\<close>

definition gains :: "string \<Rightarrow> (int \<rightharpoonup> qpoint) \<Rightarrow> point_store \<Rightarrow> point_store \<Rightarrow> bool" where
  "gains coll new st st' \<longleftrightarrow>
     pt_collections st' = pt_collections st \<and> pt_points st' = (pt_points st)(coll := pt_points st coll ++ new)"

lemma gains_refl [simp]: "gains coll Map.empty st st"
  by (simp add: gains_def)

lemma gains_trans: "gains coll new st st' \<Longrightarrow> gains coll new' st' st'' \<Longrightarrow> gains coll (new ++ new') st st''"
  by (simp add: gains_def)

lemma upsert_points_gains:
  assumes "upsert_points env coll points w = (r, w')"
  shows "w' = w\<lparr>pw_store := pw_store w'\<rparr> \<and>
    (r \<noteq> None \<longrightarrow> w' = w) \<and> (r = None \<longrightarrow> gains coll (map_of (rev points)) (pw_store w) (pw_store w'))"
  using assms by (auto simp: upsert_points_def points_upsert_def gains_def split: option.splits if_splits prod.splits)

lemma collection_leased:
  assumes "LeaseIncarnation ctx ns = (inc, True)"
  shows "collectionForContext ctx ns kind = Inr (CollectionName inc kind)"
  using assms by (simp add: collectionForContext_def)

lemma upsertSubjectVectors_gains:
  assumes "LeaseIncarnation ctx ns = (inc, True)" and "upsertSubjectVectors env ctx ns vecs w = (r, w')"
  shows "w' = w\<lparr>pw_store := pw_store w'\<rparr> \<and> (r \<noteq> None \<longrightarrow> w' = w)
    \<and> (r = None \<longrightarrow> gains (CollectionName inc CollectionSubjects) (map_of (rev (map (subject_point env) vecs))) (pw_store w) (pw_store w'))"
  using assms upsert_points_gains [of env "CollectionName inc CollectionSubjects" "map (subject_point env) vecs" w]
  by (cases "vecs = []") (simp_all add: upsertSubjectVectors_def collection_leased)

text \<open>
  After some chunks: the identities only grew, the subjects collection gained the points of the
  subjects kept, and unless a chunk failed these are all subjects so far.
\<close>

definition subject_points ::
  "recompute_env \<Rightarrow> namespace \<Rightarrow> id_table \<Rightarrow> (string \<Rightarrow> subjectScores) \<Rightarrow> string list \<Rightarrow> (int \<times> qpoint) list" where
  "subject_points env ns t sc subjects = map (\<lambda>s. subject_point env (sb_vec (subject_build t ns (sc s) s))) subjects"

definition chunks_inv ::
  "recompute_env \<Rightarrow> namespace \<Rightarrow> real \<Rightarrow> Incarnation \<Rightarrow> compute_world \<Rightarrow> string list list \<Rightarrow> recompute_state \<Rightarrow> compute_world \<Rightarrow> bool" where
  "chunks_inv env ns lambda inc w chunks a w' \<longleftrightarrow>
     w' = w\<lparr>pw_ids := pw_ids w', pw_store := pw_store w'\<rparr> \<and> id_extends (pw_ids w) (pw_ids w')
     \<and> (\<exists>new. gains (CollectionName inc CollectionSubjects) new (pw_store w) (pw_store w'))
     \<and> ra_upserted a + ra_failedChunks a \<le> length (concat chunks)
     \<and> (ra_failedChunks a = 0 \<longrightarrow> ra_upserted a = length (concat chunks)
          \<and> (\<forall>c\<in>set chunks. \<forall>s\<in>set c. resolved (pw_ids w') ns (chunk_scores env ns lambda c (pw_events w) s) s)
          \<and> (let points = concat (map (\<lambda>c. subject_points env ns (pw_ids w') (chunk_scores env ns lambda c (pw_events w)) c) chunks)
             in ra_keepSubjects a = map fst points
              \<and> gains (CollectionName inc CollectionSubjects) (map_of (rev points)) (pw_store w) (pw_store w'))
          \<and> ra_co a = fold (\<lambda>c. fold (\<lambda>s. co_add (chunk_scores env ns lambda c (pw_events w) s) (id_of (pw_ids w') ns ''object'')) c) chunks newCooccurrence)"

lemma co_add_object_cong:
  "id_at f (fst x) = id_at g (fst x) \<Longrightarrow> co_add_object sc f x = co_add_object sc g x"
  by (cases x) (simp add: co_add_object_def)

lemma co_add_cong:
  assumes "\<forall>k\<in>fst ` set (sc_scores sc). f k = g k"
  shows "co_add sc f = co_add sc g"
proof -
  have "fold (co_add_object sc f) (sc_scores sc) a = fold (co_add_object sc g) (sc_scores sc) a" for a
    by (intro fold_cong refl co_add_object_cong) (use assms in \<open>simp add: id_at_def\<close>)
  then show ?thesis by (simp add: co_add_def fun_eq_iff)
qed

lemma subject_points_extends:
  assumes "idmap_wf t" and "id_extends t t'" and "\<forall>s\<in>set c. resolved t ns (sc s) s"
  shows "subject_points env ns t' sc c = subject_points env ns t sc c"
  unfolding subject_points_def using resolved_extends [OF assms(1,2)] assms(3) by (intro map_cong refl) metis

lemma chunks_inv_fail:
  assumes inv: "chunks_inv env ns lambda inc w chunks a w'" and ne: "chunk \<noteq> []"
    and w2: "w2 = w'\<lparr>pw_ids := pw_ids w2\<rparr>" "id_extends (pw_ids w') (pw_ids w2)"
    and a: "ra_upserted a2 = ra_upserted a" "ra_failedChunks a2 = ra_failedChunks a + 1"
  shows "chunks_inv env ns lambda inc w (chunks @ [chunk]) a2 w2"
proof -
  have st: "pw_store w2 = pw_store w'" by (subst w2(1)) simp
  from inv have w': "w' = w\<lparr>pw_ids := pw_ids w', pw_store := pw_store w'\<rparr>" and ext: "id_extends (pw_ids w) (pw_ids w')"
    and le: "ra_upserted a + ra_failedChunks a \<le> length (concat chunks)"
    and g: "\<exists>new. gains (CollectionName inc CollectionSubjects) new (pw_store w) (pw_store w')"
    by (auto simp: chunks_inv_def)
  have "w2 = w\<lparr>pw_ids := pw_ids w2, pw_store := pw_store w2\<rparr>"
    unfolding st by (subst w2(1), subst w') simp
  moreover have "Suc (ra_upserted a + ra_failedChunks a) \<le> length (concat chunks) + length chunk"
    using le ne by (cases chunk) auto
  ultimately show ?thesis
    unfolding chunks_inv_def using id_extends_trans [OF ext w2(2)] g st a by simp
qed

text \<open>What the chunks so far built, read in a later table.\<close>

lemma chunks_inv_later:
  assumes inv: "chunks_inv env ns lambda inc w chunks a w'" and wf': "idmap_wf (pw_ids w')"
    and ext2: "id_extends (pw_ids w') t" and z: "ra_failedChunks a = 0"
  shows "ra_upserted a = length (concat chunks)
      \<and> (\<forall>c\<in>set chunks. \<forall>s\<in>set c. resolved t ns (chunk_scores env ns lambda c (pw_events w) s) s)
      \<and> (let points = concat (map (\<lambda>c. subject_points env ns t (chunk_scores env ns lambda c (pw_events w)) c) chunks)
         in ra_keepSubjects a = map fst points
          \<and> gains (CollectionName inc CollectionSubjects) (map_of (rev points)) (pw_store w) (pw_store w'))
      \<and> ra_co a = fold (\<lambda>c. fold (\<lambda>s. co_add (chunk_scores env ns lambda c (pw_events w) s) (id_of t ns ''object'')) c) chunks newCooccurrence"
proof -
  let ?S = "CollectionName inc CollectionSubjects" and ?sc = "\<lambda>c. chunk_scores env ns lambda c (pw_events w)"
  from inv z have up: "ra_upserted a = length (concat chunks)"
    and res: "\<forall>c\<in>set chunks. \<forall>s\<in>set c. resolved (pw_ids w') ns (?sc c s) s"
    and keep: "ra_keepSubjects a = map fst (concat (map (\<lambda>c. subject_points env ns (pw_ids w') (?sc c) c) chunks))"
    and g: "gains ?S (map_of (rev (concat (map (\<lambda>c. subject_points env ns (pw_ids w') (?sc c) c) chunks)))) (pw_store w) (pw_store w')"
    and co: "ra_co a = fold (\<lambda>c. fold (\<lambda>s. co_add (?sc c s) (id_of (pw_ids w') ns ''object'')) c) chunks newCooccurrence"
    by (simp_all add: chunks_inv_def Let_def)
  have p: "map (\<lambda>c. subject_points env ns t (?sc c) c) chunks = map (\<lambda>c. subject_points env ns (pw_ids w') (?sc c) c) chunks"
    by (intro map_cong refl subject_points_extends [OF wf' ext2]) (use res in blast)
  have c: "fold (\<lambda>c. fold (\<lambda>s. co_add (?sc c s) (id_of t ns ''object'')) c) chunks newCooccurrence
      = fold (\<lambda>c. fold (\<lambda>s. co_add (?sc c s) (id_of (pw_ids w') ns ''object'')) c) chunks newCooccurrence"
  proof (rule fold_cong [OF refl refl], rule HOL.ext)
    fix c x assume "c \<in> set chunks"
    then have "co_add (?sc c s) (id_of t ns ''object'') = co_add (?sc c s) (id_of (pw_ids w') ns ''object'')" if "s \<in> set c" for s
      using res that resolved_extends [OF wf' ext2, of ns "?sc c s" s] by (intro co_add_cong) blast
    then show "fold (\<lambda>s. co_add (?sc c s) (id_of t ns ''object'')) c x
        = fold (\<lambda>s. co_add (?sc c s) (id_of (pw_ids w') ns ''object'')) c x" by (intro fold_cong refl)
  qed
  show ?thesis unfolding Let_def p c
    using up res keep g co resolved_extends [OF wf' ext2] by blast
qed

lemma chunks_inv_ok:
  assumes inv: "chunks_inv env ns lambda inc w chunks a w'" and wf: "idmap_wf (pw_ids w)"
    and law: "ids_lawful env" and vis: "visits (rc_strings env)"
    and run: "buildChunk env ctx ns chunk lambda w' = (Inr (built, objectIDs), w1)"
    and up: "w2 = w1\<lparr>pw_store := pw_store w2\<rparr>"
      "gains (CollectionName inc CollectionSubjects) (map_of (rev (map (subject_point env) (map sb_vec built)))) (pw_store w1) (pw_store w2)"
  shows "chunks_inv env ns lambda inc w (chunks @ [chunk])
    (a\<lparr>ra_upserted := ra_upserted a + length (map sb_vec built),
       ra_keepSubjects := ra_keepSubjects a @ map sv_NumericID (map sb_vec built),
       ra_co := fold (\<lambda>b. co_add (sb_scores b) objectIDs) built (ra_co a)\<rparr>) w2"
proof -
  let ?S = "CollectionName inc CollectionSubjects" and ?sc = "\<lambda>c. chunk_scores env ns lambda c (pw_events w)"
  from inv have w': "w' = w\<lparr>pw_ids := pw_ids w', pw_store := pw_store w'\<rparr>" and ext: "id_extends (pw_ids w) (pw_ids w')"
    by (auto simp: chunks_inv_def)
  have ev: "pw_events w' = pw_events w" by (subst w') simp
  have wf': "idmap_wf (pw_ids w')" using ext wf by (simp add: id_extends_def)
  note b = buildChunk_ok [OF law vis wf' run, unfolded ev]
  have ids: "pw_ids w2 = pw_ids w1" by (subst up(1)) simp
  have st: "pw_store w1 = pw_store w'" by (subst b(1)) simp
  have ext2: "id_extends (pw_ids w') (pw_ids w2)" unfolding ids by (rule b(2))
  have w2: "w2 = w\<lparr>pw_ids := pw_ids w2, pw_store := pw_store w2\<rparr>"
    by (subst up(1), subst b(1), subst w') (simp add: ids)
  have pts: "map (subject_point env) (map sb_vec built) = subject_points env ns (pw_ids w2) (?sc chunk) chunk"
    unfolding b(5) subject_points_def ids by simp
  have num: "map sv_NumericID (map sb_vec built) = map fst (subject_points env ns (pw_ids w2) (?sc chunk) chunk)"
    unfolding pts [symmetric] by (simp add: subject_point_def)
  have co: "fold (\<lambda>b. co_add (sb_scores b) objectIDs) built c
      = fold (\<lambda>s. co_add (?sc chunk s) (id_of (pw_ids w2) ns ''object'')) chunk c" for c
  proof -
    have "fold (\<lambda>b. co_add (sb_scores b) objectIDs) built c = fold (\<lambda>s. co_add (?sc chunk s) objectIDs) chunk c"
      unfolding b(5) by (simp add: fold_map o_def built_subject_def)
    also have "\<dots> = fold (\<lambda>s. co_add (?sc chunk s) (id_of (pw_ids w2) ns ''object'')) chunk c"
      by (intro fold_cong refl co_add_cong) (use b(4) ids in simp)
    finally show ?thesis .
  qed
  have len: "length built = length chunk" unfolding b(5) by simp
  have g2: "gains ?S (map_of (rev (subject_points env ns (pw_ids w2) (?sc chunk) chunk))) (pw_store w') (pw_store w2)"
    using up(2) unfolding pts st .
  note all = chunks_inv_later [OF inv wf' ext2]
  obtain new where new: "gains ?S new (pw_store w) (pw_store w')" using inv by (auto simp: chunks_inv_def)
  have le: "ra_upserted a + ra_failedChunks a \<le> length (concat chunks)" using inv by (simp add: chunks_inv_def)
  show ?thesis unfolding chunks_inv_def
  proof (intro conjI impI)
    show "w2 = w\<lparr>pw_ids := pw_ids w2, pw_store := pw_store w2\<rparr>" by (rule w2)
    show "id_extends (pw_ids w) (pw_ids w2)" by (rule id_extends_trans [OF ext ext2])
    show "\<exists>new. gains ?S new (pw_store w) (pw_store w2)" using gains_trans [OF new g2] by blast
  qed (use all le b(3) ids len num co gains_trans [OF _ g2] in \<open>auto simp: Let_def\<close>)
qed

lemma chunks_inv_step:
  assumes inv: "chunks_inv env ns lambda inc w chunks a w'" and wf: "idmap_wf (pw_ids w)"
    and law: "ids_lawful env" and vis: "visits (rc_strings env)" and lease: "LeaseIncarnation ctx ns = (inc, True)"
    and ne: "chunk \<noteq> []" and run: "recompute_chunk env ctx ns lambda chunk (a, w') = (a2, w2)"
  shows "chunks_inv env ns lambda inc w (chunks @ [chunk]) a2 w2"
proof -
  have wf': "idmap_wf (pw_ids w')" using inv wf by (simp add: chunks_inv_def id_extends_def)
  obtain r w1 where b: "buildChunk env ctx ns chunk lambda w' = (r, w1)" by (cases "buildChunk env ctx ns chunk lambda w'")
  show ?thesis
  proof (cases r)
    case (Inl e)
    with b run have "a2 = a\<lparr>ra_failedChunks := ra_failedChunks a + 1\<rparr>" "w2 = w1" by (auto simp: recompute_chunk_def)
    with buildChunk_fail [OF law wf' b [unfolded Inl]] show ?thesis by (intro chunks_inv_fail [OF inv ne]) auto
  next
    case (Inr x)
    obtain built objectIDs where x: "x = (built, objectIDs)" by (cases x)
    obtain u v where up: "upsertSubjectVectors env ctx ns (map sb_vec built) w1 = (u, v)"
      by (cases "upsertSubjectVectors env ctx ns (map sb_vec built) w1")
    note g = upsertSubjectVectors_gains [OF lease up]
    note bc = b [unfolded Inr x]
    show ?thesis
    proof (cases u)
      case None
      with run bc up show ?thesis using chunks_inv_ok [OF inv wf law vis bc, of v] g by (auto simp: recompute_chunk_def Let_def)
    next
      case (Some e)
      with run bc up g have "ra_upserted a2 = ra_upserted a" "ra_failedChunks a2 = ra_failedChunks a + 1" "w2 = w1"
        by (auto simp: recompute_chunk_def Let_def)
      with buildChunk_ok(1,2) [OF law vis wf' bc] show ?thesis by (intro chunks_inv_fail [OF inv ne]) auto
    qed
  qed
qed

lemma chunks_inv_fold:
  assumes wf: "idmap_wf (pw_ids w)" and law: "ids_lawful env" and vis: "visits (rc_strings env)"
    and lease: "LeaseIncarnation ctx ns = (inc, True)"
  shows "chunks_inv env ns lambda inc w done a w' \<Longrightarrow> \<forall>c\<in>set chunks. c \<noteq> [] \<Longrightarrow>
     fold (recompute_chunk env ctx ns lambda) chunks (a, w') = (a2, w2) \<Longrightarrow> chunks_inv env ns lambda inc w (done @ chunks) a2 w2"
proof (induction chunks arbitrary: "done" a w')
  case (Cons c cs)
  obtain a1 w1 where s: "recompute_chunk env ctx ns lambda c (a, w') = (a1, w1)" by (cases "recompute_chunk env ctx ns lambda c (a, w')")
  have "chunks_inv env ns lambda inc w (done @ [c]) a1 w1"
    by (rule chunks_inv_step [OF Cons.prems(1) wf law vis lease _ s]) (use Cons.prems(2) in simp)
  from Cons.IH [OF this] Cons.prems s show ?case by simp
qed simp

lemma chunks_inv_start:
  "chunks_inv env ns lambda inc w [] \<lparr>ra_upserted = 0, ra_failedChunks = 0, ra_keepSubjects = [], ra_co = newCooccurrence\<rparr> w"
  by (auto simp: chunks_inv_def Let_def intro: exI [of _ Map.empty])

section \<open>The object passes\<close>

lemma flush_batches_gains:
  "flush_batches env coll bs w = (r, w') \<Longrightarrow>
     w' = w\<lparr>pw_store := pw_store w'\<rparr> \<and> (\<exists>new. gains coll new (pw_store w) (pw_store w'))
     \<and> (r = None \<longrightarrow> gains coll (map_of (rev (concat bs))) (pw_store w) (pw_store w'))"
proof (induction bs arbitrary: w)
  case Nil
  then show ?case by (auto intro: exI [of _ Map.empty])
next
  case (Cons b bs)
  obtain u w1 where up: "upsert_points env coll b w = (u, w1)" by (cases "upsert_points env coll b w")
  note g = upsert_points_gains [OF up]
  show ?case
  proof (cases u)
    case (Some e)
    then show ?thesis using g up Cons.prems by (auto intro: exI [of _ Map.empty])
  next
    case None
    then have run: "flush_batches env coll bs w1 = (r, w')" using Cons.prems up by simp
    from Cons.IH [OF run] obtain new where ih: "w' = w1\<lparr>pw_store := pw_store w'\<rparr>" "gains coll new (pw_store w1) (pw_store w')"
      "r = None \<longrightarrow> gains coll (map_of (rev (concat bs))) (pw_store w1) (pw_store w')" by blast
    have g1: "gains coll (map_of (rev b)) (pw_store w) (pw_store w1)" "w1 = w\<lparr>pw_store := pw_store w1\<rparr>" using g None by auto
    have "w' = w\<lparr>pw_store := pw_store w'\<rparr>" by (subst ih(1), subst g1(2)) simp
    moreover have "r = None \<longrightarrow> gains coll (map_of (rev (concat (b # bs)))) (pw_store w) (pw_store w')"
      using gains_trans [OF g1(1)] ih(3) by (auto simp: map_of_append)
    ultimately show ?thesis using gains_trans [OF g1(1) ih(2)] by blast
  qed
qed

definition pass_points :: "recompute_env \<Rightarrow> cooccurrence \<Rightarrow> (int, (int, real) gomap) gomap \<Rightarrow> (int \<times> qpoint) list" where
  "pass_points env co accum = map (\<lambda>i. object_point env co (i, gm_get [] i accum)) (rc_ids env (map fst accum))"

lemma upsertObjectVectors_gains:
  assumes lease: "LeaseIncarnation ctx ns = (inc, True)" and run: "upsertObjectVectors env ctx ns accum co w = (r, w')"
  shows "w' = w\<lparr>pw_store := pw_store w'\<rparr> \<and> (\<exists>new. gains (CollectionName inc CollectionObjects) new (pw_store w) (pw_store w'))
    \<and> (\<forall>kept. r = Inr kept \<longrightarrow> kept = map fst (pass_points env co accum)
         \<and> gains (CollectionName inc CollectionObjects) (map_of (rev (pass_points env co accum))) (pw_store w) (pw_store w'))"
proof -
  obtain u v where f: "flush_batches env (CollectionName inc CollectionObjects) (batches qdrantBatchSize (pass_points env co accum)) w = (u, v)"
    by (cases "flush_batches env (CollectionName inc CollectionObjects) (batches qdrantBatchSize (pass_points env co accum)) w")
  have ids: "map fst (pass_points env co accum) = rc_ids env (map fst accum)"
    by (simp add: pass_points_def object_point_def o_def case_prod_beta)
  have "r = (case u of Some e \<Rightarrow> Inl e | None \<Rightarrow> Inr (map fst (pass_points env co accum)))" "w' = v"
    using run f unfolding upsertObjectVectors_def collection_leased [OF lease] ids
    by (auto simp: Let_def pass_points_def split: option.splits)
  with flush_batches_gains [OF f] show ?thesis by (auto simp: concat_batches split: option.splits)
qed

lemma object_passes_gains:
  assumes lease: "LeaseIncarnation ctx ns = (inc, True)"
  shows "object_passes env ctx ns co passOf p n keep objects w = (r, w') \<Longrightarrow>
    w' = w\<lparr>pw_store := pw_store w'\<rparr> \<and> (\<exists>new. gains (CollectionName inc CollectionObjects) new (pw_store w) (pw_store w'))
    \<and> (\<forall>keep' m. r = Inr (keep', m) \<longrightarrow>
         (let points = concat (map (\<lambda>q. pass_points env co (accumulate co passOf q)) [p..<p + n])
          in keep' = keep @ map fst points
           \<and> gains (CollectionName inc CollectionObjects) (map_of (rev points)) (pw_store w) (pw_store w')))"
proof (induction n arbitrary: p keep objects w)
  case 0
  then show ?case by (auto intro: exI [of _ Map.empty])
next
  case (Suc n)
  let ?O = "CollectionName inc CollectionObjects" and ?pts = "\<lambda>q. pass_points env co (accumulate co passOf q)"
  obtain u w1 where up: "upsertObjectVectors env ctx ns (accumulate co passOf p) co w = (u, w1)"
    by (cases "upsertObjectVectors env ctx ns (accumulate co passOf p) co w")
  note g = upsertObjectVectors_gains [OF lease up]
  show ?case
  proof (cases u)
    case (Inl e)
    then show ?thesis using Suc.prems up g by (auto simp: Let_def)
  next
    case (Inr kept)
    then have run: "object_passes env ctx ns co passOf (p + 1) n (keep @ kept) (objects + length (accumulate co passOf p)) w1 = (r, w')"
      using Suc.prems up by (simp add: Let_def)
    have w1: "w1 = w\<lparr>pw_store := pw_store w1\<rparr>" "kept = map fst (?pts p)" "gains ?O (map_of (rev (?pts p))) (pw_store w) (pw_store w1)"
      using g Inr by auto
    note ih = Suc.IH [OF run]
    then have w': "w' = w1\<lparr>pw_store := pw_store w'\<rparr>" by blast
    have "w' = w\<lparr>pw_store := pw_store w'\<rparr>" by (subst w', subst w1(1)) simp
    moreover have "\<exists>new. gains ?O new (pw_store w) (pw_store w')" using ih gains_trans [OF w1(3)] by blast
    moreover have "[p..<p + Suc n] = p # [p + 1..<p + 1 + n]" by (simp add: upt_conv_Cons)
    moreover have "keep' = keep @ map fst (concat (map ?pts (p # [p + 1..<p + 1 + n])))
        \<and> gains ?O (map_of (rev (concat (map ?pts (p # [p + 1..<p + 1 + n]))))) (pw_store w) (pw_store w')"
      if "r = Inr (keep', m)" for keep' m
    proof -
      from ih that have "keep' = (keep @ kept) @ map fst (concat (map ?pts [p + 1..<p + 1 + n]))"
        and "gains ?O (map_of (rev (concat (map ?pts [p + 1..<p + 1 + n])))) (pw_store w1) (pw_store w')"
        by (simp_all only: Let_def)
      with w1(2) gains_trans [OF w1(3)] show ?thesis by (auto simp: map_of_append)
    qed
    ultimately show ?thesis by (simp only: Let_def) blast
  qed
qed

lemma map_of_function: "\<forall>(k, x)\<in>set ps. x = f k \<Longrightarrow> map_of ps k = (if k \<in> fst ` set ps then Some (f k) else None)"
  by (induction ps) auto

text \<open>The points of all passes are the rows of the whole matrix.\<close>

lemma passes_points:
  assumes "visits (rc_ids env)" and "planPasses (rc_ids env) budget co = (passOf, passes)"
  defines "points \<equiv> concat (map (\<lambda>q. pass_points env co (accumulate co passOf q)) [0..<passes])"
  shows "map_of (rev points) t = map_option (\<lambda>row. snd (object_point env co (t, row))) (map_of (accumulate co [] 0) t)"
    and "set (map fst points) = dom (map_of (accumulate co [] 0))"
proof -
  let ?M = "map_of (accumulate co [] 0)"
  have keys: "fst ` set (pass_points env co (accumulate co passOf q)) = {t. gm_get 0 t passOf = q \<and> ?M t \<noteq> None}" for q
  proof -
    have "fst ` set (pass_points env co (accumulate co passOf q)) = fst ` set (accumulate co passOf q)"
      using visits_set [OF assms(1)] by (simp add: pass_points_def image_image object_point_def)
    also have "\<dots> = dom (map_of (accumulate co passOf q))" by (simp add: dom_map_of_conv_image_fst)
    finally show ?thesis by (auto simp: accumulate_row [of co passOf] split: if_splits)
  qed
  show dom: "set (map fst points) = dom ?M"
  proof -
    have "set (map fst points) = (\<Union>q<passes. {t. gm_get 0 t passOf = q \<and> ?M t \<noteq> None})"
      unfolding keys [symmetric] by (auto simp: points_def atLeast0LessThan)
    also have "\<dots> = dom ?M" using planPasses_covers [OF assms(1,2)] by auto
    finally show ?thesis .
  qed
  have "\<forall>(t, x)\<in>set (rev points). x = snd (object_point env co (t, the (?M t)))"
  proof clarify
    fix t x assume "(t, x) \<in> set (rev points)"
    then obtain q where q: "(t, x) \<in> set (pass_points env co (accumulate co passOf q))" by (auto simp: points_def)
    then have "t \<in> fst ` set (pass_points env co (accumulate co passOf q))" by force
    then have "gm_get 0 t passOf = q" "?M t \<noteq> None" unfolding keys by auto
    then have "gm_get [] t (accumulate co passOf q) = the (?M t)" by (auto simp: gm_get_def accumulate_row [of co passOf])
    with q show "x = snd (object_point env co (t, the (?M t)))"
      by (auto simp: pass_points_def object_point_def)
  qed
  from map_of_function [OF this, of t] dom
  show "map_of (rev points) t = map_option (\<lambda>row. snd (object_point env co (t, row))) (?M t)"
    by (cases "?M t") (auto simp: domIff)
qed

section \<open>The whole run\<close>

lemma scroll_stale_ok: "scroll_stale (\<lambda>x. None) pts keep offset stale \<noteq> Inl e"
proof (induction "\<lambda>x :: int option. None :: go_error option" pts keep offset stale rule: scroll_stale.induct)
  case (1 pts keep offset stale)
  show ?case
  proof (cases "scroll_page pts cleanupScrollPageSize offset")
    case (Pair page "next")
    with "1" show ?thesis by (subst scroll_stale.simps) (auto simp: Let_def split: option.split)
  qed
qed

lemma delete_batches_ok:
  "pt_collections st coll \<noteq> None \<Longrightarrow> (\<And>x. fault x = None) \<Longrightarrow> snd (fst (delete_batches fault coll n bs st)) = None"
  by (induction bs arbitrary: n st) (auto simp: points_delete_def)

definition sweep_healthy :: "sweep_env \<Rightarrow> bool" where
  "sweep_healthy env \<longleftrightarrow> (\<forall>c x. sw_scroll env c x = None) \<and> (\<forall>c x. sw_delete env c x = None)"

lemma cleanupCollection_loses:
  assumes lease: "LeaseIncarnation ctx ns = (inc, True)"
  shows "\<exists>D. D \<inter> set keep = {} \<and> cleanupCollection env ctx ns kind keep w
      = w\<lparr>pw_store := pw_store (cleanupCollection env ctx ns kind keep w)\<rparr>
    \<and> loses (CollectionName inc kind) D (pw_store w) (pw_store (cleanupCollection env ctx ns kind keep w))
    \<and> (sweep_healthy (rc_sweep env) \<and> pt_collections (pw_store w) (CollectionName inc kind) \<noteq> None
         \<and> finite (dom (pt_points (pw_store w) (CollectionName inc kind)))
       \<longrightarrow> D = dom (pt_points (pw_store w) (CollectionName inc kind)) - set keep)"
proof -
  let ?C = "CollectionName inc kind"
  obtain n r st where c: "CleanupStalePoints (rc_sweep env) ?C keep (pw_store w) = ((n, r), st)" by (metis prod.exhaust)
  have w: "cleanupCollection env ctx ns kind keep w = w\<lparr>pw_store := st\<rparr>"
    by (simp add: cleanupCollection_def collection_leased [OF lease] c)
  have "r = None" if "sweep_healthy (rc_sweep env)" "pt_collections (pw_store w) ?C \<noteq> None"
  proof -
    have "sw_scroll (rc_sweep env) ?C = (\<lambda>x. None)" using that by (auto simp: sweep_healthy_def)
    then obtain stale where "scroll_stale (sw_scroll (rc_sweep env) ?C) (pt_points (pw_store w) ?C) keep None [] = Inr stale"
      using scroll_stale_ok by (metis sum.exhaust)
    with that c delete_batches_ok [of "pw_store w" ?C "sw_delete (rc_sweep env) ?C" 0 "batches qdrantBatchSize stale"]
    show ?thesis by (auto simp: CleanupStalePoints_def sweep_healthy_def)
  qed
  with CleanupStalePoints_loses [OF c] show ?thesis unfolding w by auto
qed

text \<open>How far a recompute gets: it fails before the sweep, skips it, or sweeps both collections.\<close>

lemma RecomputeNamespace_cases:
  assumes lease: "LeaseIncarnation ctx ns = (inc, True)" and wf: "idmap_wf (pw_ids w)"
    and law: "ids_lawful env" and vis: "visits (rc_strings env)"
    and act: "GetActiveSubjects (rc_active env) (rc_now env) (rc_strings env) ns (pw_events w) = Inr subjects"
    and run: "RecomputeNamespace env ctx ns lambda w = (res, w')"
  defines "S \<equiv> CollectionName inc CollectionSubjects" and "Ob \<equiv> CollectionName inc CollectionObjects"
  obtains a w1 new where "chunks_inv env ns lambda inc w (batches qdrantBatchSize subjects) a w1"
    "w' = w1\<lparr>pw_store := pw_store w'\<rparr>" "gains Ob new (pw_store w1) (pw_store w')"
    "\<And>n m. res = Inr (n, m) \<Longrightarrow> n = ra_upserted a \<and> 0 < ra_failedChunks a"
  | a w1 w2 passOf passes m where "chunks_inv env ns lambda inc w (batches qdrantBatchSize subjects) a w1"
    "planPasses (rc_ids env) cooccurrenceBudget (ra_co a) = (passOf, passes)" "w2 = w1\<lparr>pw_store := pw_store w2\<rparr>"
    "gains Ob (map_of (rev (concat (map (\<lambda>q. pass_points env (ra_co a) (accumulate (ra_co a) passOf q)) [0..<passes])))) (pw_store w1) (pw_store w2)"
    "ra_failedChunks a = 0" "res = Inr (ra_upserted a, m)"
    "w' = cleanupCollection env ctx ns CollectionObjects (map fst (concat (map (\<lambda>q. pass_points env (ra_co a) (accumulate (ra_co a) passOf q)) [0..<passes])))
            (cleanupCollection env ctx ns CollectionSubjects (ra_keepSubjects a) w2)"
proof -
  let ?init = "\<lparr>ra_upserted = 0, ra_failedChunks = 0, ra_keepSubjects = [], ra_co = newCooccurrence\<rparr>"
  obtain a w1 where fld: "fold (recompute_chunk env ctx ns lambda) (batches qdrantBatchSize subjects) (?init, w) = (a, w1)"
    by (metis prod.exhaust)
  have inv: "chunks_inv env ns lambda inc w (batches qdrantBatchSize subjects) a w1"
    using chunks_inv_fold [OF wf law vis lease chunks_inv_start _ fld] by (auto dest: batches_nonempty)
  obtain passOf passes where plan: "planPasses (rc_ids env) cooccurrenceBudget (ra_co a) = (passOf, passes)" by (metis prod.exhaust)
  obtain r w2 where pass: "object_passes env ctx ns (ra_co a) passOf 0 passes [] 0 w1 = (r, w2)" by (metis prod.exhaust)
  note g = object_passes_gains [OF lease pass, folded Ob_def]
  have whole: "(res, w') = (if subjects \<noteq> [] \<and> ra_upserted a = 0 then (Inl (Failure ''all subject upserts failed''), w1)
      else case r of Inl e \<Rightarrow> (Inl e, w2)
        | Inr (keepObjects, objects) \<Rightarrow> (Inr (ra_upserted a, objects),
            if ra_failedChunks a > 0 then w2
            else cleanupCollection env ctx ns CollectionObjects keepObjects (cleanupCollection env ctx ns CollectionSubjects (ra_keepSubjects a) w2)))"
    using run unfolding RecomputeNamespace_def act by (auto simp: fld plan pass split: sum.splits)
  show thesis
  proof (cases "subjects \<noteq> [] \<and> ra_upserted a = 0")
    case True
    with whole show thesis by (intro that(1) [OF inv, of Map.empty]) auto
  next
    case False
    show thesis
    proof (cases r)
      case (Inl e)
      with False whole g show thesis by (auto intro: that(1) [OF inv])
    next
      case (Inr x)
      obtain keepObjects m where x: "x = (keepObjects, m)" by (cases x)
      from g Inr x have g2: "w2 = w1\<lparr>pw_store := pw_store w2\<rparr>" "keepObjects = map fst (concat (map (\<lambda>q. pass_points env (ra_co a) (accumulate (ra_co a) passOf q)) [0..<passes]))"
        "gains Ob (map_of (rev (concat (map (\<lambda>q. pass_points env (ra_co a) (accumulate (ra_co a) passOf q)) [0..<passes])))) (pw_store w1) (pw_store w2)"
        by (simp_all add: Let_def)
      show thesis
      proof (cases "ra_failedChunks a > 0")
        case True
        with False whole Inr x have "w' = w2" "\<And>n k. res = Inr (n, k) \<Longrightarrow> n = ra_upserted a \<and> 0 < ra_failedChunks a" by auto
        with g2 show thesis by (intro that(1) [OF inv]) auto
      next
        case f: False
        with False whole Inr x show thesis by (intro that(2) [OF inv plan g2(1,3)]) (auto simp: g2(2))
      qed
    qed
  qed
qed

lemma leased_incarnation: "leased ctx ns g \<Longrightarrow> 1 \<le> g \<Longrightarrow> LeaseIncarnation ctx ns = (\<lparr>inc_namespace = ns, inc_generation = g\<rparr>, True)"
  by (auto simp: leased_def LeaseIncarnation_def LeaseGeneration_def)

lemma kept_subject:
  assumes inv: "chunks_inv env ns lambda inc w (batches n subjects) a w1" and wf: "idmap_wf (pw_ids w)"
    and z: "ra_failedChunks a = 0" and s: "s \<in> set subjects"
  shows "\<exists>i. id_of (pw_ids w1) ns ''subject'' s = Some i \<and> i \<in> set (ra_keepSubjects a)"
proof -
  have wf1: "idmap_wf (pw_ids w1)" using inv wf by (simp add: chunks_inv_def id_extends_def)
  obtain c where c: "c \<in> set (batches n subjects)" "s \<in> set c" using s concat_batches [of n subjects] by (metis UN_E set_concat)
  let ?sc = "\<lambda>c. chunk_scores env ns lambda c (pw_events w)"
  have "resolved (pw_ids w1) ns (?sc c s) s" using inv z c by (auto simp: chunks_inv_def)
  from subject_build_ok [OF wf1 this] obtain i v where i: "id_of (pw_ids w1) ns ''subject'' s = Some i"
    "sb_vec (subject_build (pw_ids w1) ns (?sc c s) s) = v" "sv_NumericID v = i" by auto
  have "ra_keepSubjects a = map fst (concat (map (\<lambda>c. subject_points env ns (pw_ids w1) (?sc c) c) (batches n subjects)))"
    using inv z by (simp add: chunks_inv_def Let_def)
  moreover have "i \<in> fst ` set (subject_points env ns (pw_ids w1) (?sc c) c)"
    using c(2) i by (force simp: subject_points_def subject_point_def)
  ultimately show ?thesis using i(1) c(1) by auto
qed

lemma gains_other: "gains c new st st' \<Longrightarrow> d \<noteq> c \<Longrightarrow> pt_points st' d = pt_points st d"
  by (simp add: gains_def)

lemma gains_keeps: "gains c new st st' \<Longrightarrow> pt_points st d i \<noteq> None \<Longrightarrow> pt_points st' d i \<noteq> None"
  by (auto simp: gains_def map_add_def split: option.splits)

lemma loses_other: "loses c D st st' \<Longrightarrow> d \<noteq> c \<Longrightarrow> pt_points st' d = pt_points st d"
  by (simp add: loses_def)

text \<open>Whatever happens, identities are only added.\<close>

lemma chunk_ids_extend:
  assumes ctx: "leased ctx ns g" "1 \<le> g" and wf: "idmap_wf (pw_ids w)" and law: "ids_lawful env" and vis: "visits (rc_strings env)"
    and act: "GetActiveSubjects (rc_active env) (rc_now env) (rc_strings env) ns (pw_events w) = Inr subjects"
    and run: "RecomputeNamespace env ctx ns lambda w = (res, w')"
  shows "id_extends (pw_ids w) (pw_ids w')"
proof -
  note lease = leased_incarnation [OF ctx]
  have sweep: "pw_ids (cleanupCollection env ctx ns kind keep v) = pw_ids v" for kind keep v
    by (simp add: cleanupCollection_def split: sum.split)
  from lease wf law vis act run show ?thesis
  proof (cases rule: RecomputeNamespace_cases)
    case (1 a w1 new)
    have "pw_ids w' = pw_ids w1" by (subst 1(2)) simp
    with 1(1) show ?thesis by (simp add: chunks_inv_def)
  next
    case (2 a w1 w2 passOf passes m)
    have "pw_ids w2 = pw_ids w1" by (subst 2(3)) simp
    with 2(1,7) show ?thesis by (simp add: chunks_inv_def sweep)
  qed
qed

section \<open>Properties\<close>


text \<open>The subjects' points, one per subject, under their own identities.\<close>

lemma subject_points_map:
  fixes env :: recompute_env
  assumes wf: "idmap_wf t" and d: "distinct subjects" and res: "\<forall>s\<in>set subjects. resolved t ns (sc s) s"
  defines "points \<equiv> subject_points env ns t sc subjects"
  shows "set (map fst points) = {i. \<exists>s\<in>set subjects. id_of t ns ''subject'' s = Some i}"
    and "\<forall>s\<in>set subjects. \<exists>i v. id_of t ns ''subject'' s = Some i
           \<and> buildSubjectVector s i (sc_scores (sc s)) (id_of t ns ''object'') = Inr v
           \<and> map_of (rev points) i = Some (snd (subject_point env v))"
proof -
  have build: "\<exists>i v. id_of t ns ''subject'' s = Some i \<and> buildSubjectVector s i (sc_scores (sc s)) (id_of t ns ''object'') = Inr v
      \<and> subject_point env (sb_vec (subject_build t ns (sc s) s)) = (i, snd (subject_point env v))" if "s \<in> set subjects" for s
    using subject_build_ok [OF wf, of ns "sc s" s] res that by (fastforce simp: subject_point_def)
  have fsts: "map fst points = map (\<lambda>s. the (id_of t ns ''subject'' s)) subjects"
    unfolding points_def subject_points_def map_map o_def
  proof (rule map_cong [OF refl])
    fix s assume "s \<in> set subjects"
    from build [OF this] show "fst (subject_point env (sb_vec (subject_build t ns (sc s) s))) = the (id_of t ns ''subject'' s)" by auto
  qed
  show "set (map fst points) = {i. \<exists>s\<in>set subjects. id_of t ns ''subject'' s = Some i}"
    unfolding fsts using build by force
  have "distinct (map fst points)" unfolding fsts
  proof (simp add: distinct_map d, rule inj_onI)
    fix x y assume xy: "x \<in> set subjects" "y \<in> set subjects" "the (id_of t ns ''subject'' x) = the (id_of t ns ''subject'' y)"
    from build [OF xy(1)] build [OF xy(2)] xy(3) obtain i where "id_of t ns ''subject'' x = Some i" "id_of t ns ''subject'' y = Some i" by auto
    from id_of_inject [OF wf this] show "x = y" by simp
  qed
  then have rev: "map_of (rev points) = map_of points"
    using map_of_inject_set [of "rev points" points] by (simp add: rev_map [symmetric])
  show "\<forall>s\<in>set subjects. \<exists>i v. id_of t ns ''subject'' s = Some i
      \<and> buildSubjectVector s i (sc_scores (sc s)) (id_of t ns ''object'') = Inr v \<and> map_of (rev points) i = Some (snd (subject_point env v))"
  proof
    fix s assume s: "s \<in> set subjects"
    from build [OF s] obtain i v where v: "id_of t ns ''subject'' s = Some i"
      "buildSubjectVector s i (sc_scores (sc s)) (id_of t ns ''object'') = Inr v"
      "subject_point env (sb_vec (subject_build t ns (sc s) s)) = (i, snd (subject_point env v))" by blast
    then have "(i, snd (subject_point env v)) \<in> set points" using s by (force simp: points_def subject_points_def)
    then have "map_of points i = Some (snd (subject_point env v))" using \<open>distinct (map fst points)\<close> by simp
    with v rev show "\<exists>i v. id_of t ns ''subject'' s = Some i
      \<and> buildSubjectVector s i (sc_scores (sc s)) (id_of t ns ''object'') = Inr v \<and> map_of (rev points) i = Some (snd (subject_point env v))"
      by auto
  qed
qed

text \<open>A collection that gained points and then lost all others holds exactly those.\<close>

lemma gain_then_sweep:
  assumes "m1 = m ++ new" and "m2 = m1 |` (- D)" and "D = dom m1 - dom new"
  shows "m2 = new"
proof
  fix i show "m2 i = new i"
    using assms by (cases "new i") (auto simp: restrict_map_def map_add_def domIff)
qed

lemma swept_exact:
  fixes inc :: Incarnation
  defines "S \<equiv> CollectionName inc CollectionSubjects" and "Ob \<equiv> CollectionName inc CollectionObjects"
  assumes lease: "LeaseIncarnation ctx ns = (inc, True)" and SO: "S \<noteq> Ob" and sweep: "sweep_healthy (rc_sweep env)"
    and colls: "pt_collections (pw_store w) S \<noteq> None" "pt_collections (pw_store w) Ob \<noteq> None"
      "finite (dom (pt_points (pw_store w) S))" "finite (dom (pt_points (pw_store w) Ob))"
    and g1: "gains S (map_of (rev points)) (pw_store w) (pw_store w1)"
    and g2: "gains Ob (map_of (rev rows)) (pw_store w1) (pw_store w2)" "w2 = w1\<lparr>pw_store := pw_store w2\<rparr>"
    and w': "w' = cleanupCollection env ctx ns CollectionObjects (map fst rows) (cleanupCollection env ctx ns CollectionSubjects (map fst points) w2)"
  shows "pt_points (pw_store w') S = map_of (rev points) \<and> pt_points (pw_store w') Ob = map_of (rev rows) \<and> pw_ids w' = pw_ids w1"
proof (intro conjI)
  define w3 where "w3 = cleanupCollection env ctx ns CollectionSubjects (map fst points) w2"
  have st2: "pt_points (pw_store w2) S = pt_points (pw_store w1) S" "pt_collections (pw_store w2) = pt_collections (pw_store w)"
    using gains_other [OF g2(1), of S] SO g1 g2(1) by (simp_all add: gains_def)
  have fin1: "finite (dom (pt_points (pw_store w1) S))" using g1 colls(3) by (auto simp: gains_def finite_dom_map_of)
  obtain D where D: "w3 = w2\<lparr>pw_store := pw_store w3\<rparr>" "loses S D (pw_store w2) (pw_store w3)"
    "D = dom (pt_points (pw_store w2) S) - set (map fst points)"
    using cleanupCollection_loses [OF lease, of "map fst points" env CollectionSubjects w2, folded S_def w3_def] sweep colls(1) st2 fin1
    by auto
  have st3: "pt_points (pw_store w3) Ob = pt_points (pw_store w2) Ob" "pt_collections (pw_store w3) Ob \<noteq> None"
    using loses_other [OF D(2), of Ob] SO D(2) st2(2) colls(2) by (auto simp: loses_def)
  have fin2: "finite (dom (pt_points (pw_store w2) Ob))"
    using g2(1) gains_other [OF g1, of Ob] SO colls(4) by (auto simp: gains_def finite_dom_map_of)
  obtain E where E: "w' = w3\<lparr>pw_store := pw_store w'\<rparr>" "loses Ob E (pw_store w3) (pw_store w')"
    "E = dom (pt_points (pw_store w3) Ob) - set (map fst rows)"
    using cleanupCollection_loses [OF lease, of "map fst rows" env CollectionObjects w3, folded Ob_def] w' sweep st3 fin2
    unfolding w3_def [symmetric] by auto
  show "pw_ids w' = pw_ids w1" by (subst E(1), subst D(1), subst g2(2)) simp
  have "pt_points (pw_store w3) S = map_of (rev points)"
  proof (rule gain_then_sweep)
    show "pt_points (pw_store w1) S = pt_points (pw_store w) S ++ map_of (rev points)" using g1 by (simp add: gains_def)
    show "pt_points (pw_store w3) S = pt_points (pw_store w1) S |` (- D)" using D(2) st2 by (simp add: loses_def)
    show "D = dom (pt_points (pw_store w1) S) - dom (map_of (rev points))"
      unfolding D(3) st2(1) by (simp add: dom_map_of_conv_image_fst)
  qed
  then show "pt_points (pw_store w') S = map_of (rev points)" using loses_other [OF E(2), of S] SO by simp
  show "pt_points (pw_store w') Ob = map_of (rev rows)"
  proof (rule gain_then_sweep)
    show "pt_points (pw_store w2) Ob = pt_points (pw_store w1) Ob ++ map_of (rev rows)" using g2(1) by (simp add: gains_def)
    show "pt_points (pw_store w') Ob = pt_points (pw_store w2) Ob |` (- E)" using E(2) st3 by (simp add: loses_def)
    show "E = dom (pt_points (pw_store w2) Ob) - dom (map_of (rev rows))"
      unfolding E(3) st3(1) by (simp add: dom_map_of_conv_image_fst)
  qed
qed


text \<open>A shop with one subject in the window and one whose last event is older.\<close>

definition batch_now :: time where
  "batch_now = seconds 10000000"

definition calm_recompute :: recompute_env where
  "calm_recompute =
     \<lparr>rc_active = None, rc_events = (\<lambda>_. None), rc_subject_ids = (\<lambda>_. quiet_ids), rc_object_ids = (\<lambda>_. quiet_ids),
      rc_upsert = (\<lambda>_ _. None), rc_sweep = \<lparr>sw_scroll = (\<lambda>_ _. None), sw_delete = (\<lambda>_ _. None)\<rparr>,
      rc_now = batch_now, rc_clock = (\<lambda>_. batch_now), rc_rfc3339 = show_int, rc_strings = id, rc_ids = id\<rparr>"

definition batch_event :: "string \<Rightarrow> string \<Rightarrow> real \<Rightarrow> time \<Rightarrow> Event" where
  "batch_event subject obj weight t =
     \<lparr>ev_ID = 1, ev_Namespace = ''shop'', ev_SubjectID = subject, ev_ObjectID = obj, ev_Action = ''LIKE'', ev_Weight = weight,
      ev_OccurredAt = t, ev_ObjectCreatedAt = None\<rparr>"

definition batch_ids :: id_table where
  "batch_ids = \<lparr>idt_rows =
     [\<lparr>im_string_id = ''u1'', im_namespace = ''shop'', im_entity_type = ''subject'', im_numeric_id = 1\<rparr>,
      \<lparr>im_string_id = ''a'', im_namespace = ''shop'', im_entity_type = ''object'', im_numeric_id = 2\<rparr>,
      \<lparr>im_string_id = ''b'', im_namespace = ''shop'', im_entity_type = ''object'', im_numeric_id = 3\<rparr>,
      \<lparr>im_string_id = ''u9'', im_namespace = ''shop'', im_entity_type = ''subject'', im_numeric_id = 4\<rparr>], idt_seq = 5\<rparr>"

abbreviation shop_collection :: "CollectionKind \<Rightarrow> string" where
  "shop_collection kind \<equiv> CollectionName \<lparr>inc_namespace = ''shop'', inc_generation = 1\<rparr> kind"

definition old_point :: qpoint where
  "old_point = \<lparr>qp_vector = SparseVec [] [], qp_payload = Map.empty\<rparr>"

definition batch_world :: compute_world where
  "batch_world =
     \<lparr>pw_events = [batch_event ''u1'' ''a'' 3 batch_now, batch_event ''u1'' ''b'' 4 batch_now, batch_event ''u9'' ''a'' 1 0],
      pw_ids = batch_ids,
      pw_store = \<lparr>pt_collections = [shop_collection CollectionSubjects \<mapsto> SparseCollection, shop_collection CollectionObjects \<mapsto> SparseCollection],
                  pt_points = (\<lambda>_. Map.empty)(shop_collection CollectionSubjects := [1 \<mapsto> old_point, 4 \<mapsto> old_point])\<rparr>\<rparr>"

abbreviation shop_lease :: lctx where
  "shop_lease \<equiv> with_lease background ''shop'' 1 LockShared"

lemma calm_facts:
  "leased shop_lease ''shop'' 1" "idmap_wf batch_ids" "ids_lawful (calm_recompute\<lparr>rc_events := f\<rparr>)" "ids_lawful calm_recompute"
  "visits id" "sweep_healthy (rc_sweep calm_recompute)"
  by (simp_all add: leased_def with_lease_def idmap_wf_def batch_ids_def keyed_def im_key_def numeric_id_max_def ids_lawful_def
      calm_recompute_def visits_def sweep_healthy_def)

lemma batch_active: "GetActiveSubjects None batch_now id ''shop'' (pw_events batch_world) = Inr [''u1'']"
  by (simp add: GetActiveSubjects_def batch_world_def batch_event_def recent_events_def event_window_def batch_now_def
      minutes_def seconds_def)


text \<open>Without failing requests, sparse points are accepted by a sparse collection.\<close>

lemma upsert_points_sparse:
  assumes "\<And>c ids. rc_upsert env c ids = None" and "pt_collections (pw_store w) coll = Some SparseCollection"
    and "\<forall>(i, p)\<in>set points. vector_fits SparseCollection (qp_vector p)"
  shows "\<exists>w'. upsert_points env coll points w = (None, w') \<and> pt_collections (pw_store w') = pt_collections (pw_store w)"
  using assms by (auto simp: upsert_points_def points_upsert_def list_all_iff)

lemma flush_batches_sparse:
  assumes "\<And>c ids. rc_upsert env c ids = None" and "pt_collections (pw_store w) coll = Some SparseCollection"
    and "\<forall>(i, p)\<in>set (concat bs). vector_fits SparseCollection (qp_vector p)"
  shows "\<exists>w'. flush_batches env coll bs w = (None, w') \<and> pt_collections (pw_store w') = pt_collections (pw_store w)"
  using assms(2,3)
proof (induction bs arbitrary: w)
  case (Cons b bs)
  obtain w1 where w1: "upsert_points env coll b w = (None, w1)" "pt_collections (pw_store w1) = pt_collections (pw_store w)"
    using upsert_points_sparse [OF assms(1) Cons.prems(1), of b] Cons.prems(2) by auto
  with Cons.IH [of w1] Cons.prems show ?case by auto
qed simp

lemma object_passes_sparse:
  assumes lease: "LeaseIncarnation ctx ns = (inc, True)" and up: "\<And>c ids. rc_upsert env c ids = None"
    and "pt_collections (pw_store w) (CollectionName inc CollectionObjects) = Some SparseCollection"
  shows "\<exists>x w'. object_passes env ctx ns co passOf p n keep objects w = (Inr x, w')"
  using assms(3)
proof (induction n arbitrary: p keep objects w)
  case (Suc n)
  let ?points = "pass_points env co (accumulate co passOf p)"
  have "\<forall>(i, q)\<in>set (concat (batches qdrantBatchSize ?points)). vector_fits SparseCollection (qp_vector q)"
    unfolding concat_batches by (auto simp: pass_points_def object_point_def split: prod.split) (metis fst_conv snd_conv sparseVectorFrom_length)
  from flush_batches_sparse [OF up Suc.prems this] obtain w1 where
    w1: "flush_batches env (CollectionName inc CollectionObjects) (batches qdrantBatchSize ?points) w = (None, w1)"
      "pt_collections (pw_store w1) = pt_collections (pw_store w)" by blast
  then have "upsertObjectVectors env ctx ns (accumulate co passOf p) co w = (Inr (rc_ids env (map fst (accumulate co passOf p))), w1)"
    by (simp add: upsertObjectVectors_def collection_leased [OF lease] pass_points_def Let_def)
  with Suc.IH [of w1] w1(2) Suc.prems show ?case by (simp add: Let_def)
qed simp

text \<open>The shop's recompute: every identity is known, so the one active subject is built and written.\<close>

lemma shop_known:
  "keys \<noteq> [] \<Longrightarrow> \<forall>k\<in>set keys. id_of t ''shop'' entity k \<noteq> None \<Longrightarrow>
   GetOrCreateBatch quiet_ids shop_lease keys ''shop'' entity t = (Inr (\<lambda>k. if k \<in> set keys then id_of t ''shop'' entity k else None), t)"
  using set_distinct_ids [of "[]" keys]
  by (auto simp: GetOrCreateBatch_def LookupBatch_def RequireNamespaceLease_def with_lease_def quiet_ids_def missingFrom_def
      filter_empty_conv Let_def)

lemma batch_events:
  "GetSubjectsEvents None batch_now ''shop'' [''u1''] (pw_events batch_world)
   = Inr (\<lambda>s. if s = ''u1'' then map raw_event [batch_event ''u1'' ''a'' 3 batch_now, batch_event ''u1'' ''b'' 4 batch_now] else [])"
  by (auto simp: GetSubjectsEvents_def batch_world_def batch_event_def recent_events_def event_window_def batch_now_def
      minutes_def seconds_def fun_eq_iff)

lemma batch_objects:
  "map fst (sc_scores (scoreEvents (map raw_event [batch_event ''u1'' ''a'' 3 batch_now, batch_event ''u1'' ''b'' 4 batch_now]) lambda now))
   = [''a'', ''b'']"
  by (simp add: scoreEvents_def score_event_def no_scores_def gm_add_def gm_get_def raw_event_def batch_event_def)

lemma batch_chunk: "\<exists>x. buildChunk calm_recompute shop_lease ''shop'' [''u1''] lambda batch_world = (Inr x, batch_world)"
proof -
  have subject: "GetOrCreateSubjectIDs quiet_ids shop_lease [''u1''] ''shop'' batch_ids
      = (Inr (\<lambda>k. if k \<in> set [''u1''] then id_of batch_ids ''shop'' ''subject'' k else None), batch_ids)"
    unfolding GetOrCreateSubjectIDs_def by (rule shop_known) (simp_all add: batch_ids_def id_of_def im_key_def)
  have object: "GetOrCreateObjectIDs quiet_ids shop_lease [''a'', ''b''] ''shop'' batch_ids
      = (Inr (\<lambda>k. if k \<in> set [''a'', ''b''] then id_of batch_ids ''shop'' ''object'' k else None), batch_ids)"
    unfolding GetOrCreateObjectIDs_def by (rule shop_known) (simp_all add: batch_ids_def id_of_def im_key_def)
  define es where "es = map raw_event [batch_event ''u1'' ''a'' 3 batch_now, batch_event ''u1'' ''b'' 4 batch_now]"
  note events = batch_events [folded es_def] and objects = batch_objects [folded es_def]
  have some: "sc_scores (scoreEvents es lambda now) \<noteq> []" for now using objects [of lambda now] by auto
  have ids: "pw_ids batch_world = batch_ids" and same: "batch_world\<lparr>pw_ids := batch_ids\<rparr> = batch_world"
    by (simp_all add: batch_world_def)
  show ?thesis
    by (simp add: buildChunk_def calm_recompute_def events ids same subject [simplified] object [simplified] resolveObjectIDs_def
        objects some Let_def)
qed

lemma shop_collections_differ: "shop_collection CollectionSubjects \<noteq> shop_collection CollectionObjects"
  using CollectionName_inject [of "''shop''" 1 CollectionSubjects CollectionObjects] by auto

lemma batch_world_collections:
  "pt_collections (pw_store batch_world) (shop_collection CollectionSubjects) = Some SparseCollection"
  "pt_collections (pw_store batch_world) (shop_collection CollectionObjects) = Some SparseCollection"
  using shop_collections_differ by (simp_all add: batch_world_def)

lemma batch_recomputed:
  "\<exists>m w'. RecomputeNamespace calm_recompute shop_lease ''shop'' lambda batch_world = (Inr (length [''u1''], m), w')"
proof -
  let ?env = calm_recompute and ?init = "\<lparr>ra_upserted = 0, ra_failedChunks = 0, ra_keepSubjects = [], ra_co = newCooccurrence\<rparr>"
  have act: "GetActiveSubjects (rc_active ?env) (rc_now ?env) (rc_strings ?env) ''shop'' (pw_events batch_world) = Inr [''u1'']"
    using batch_active by (simp add: calm_recompute_def)
  have lease: "LeaseIncarnation shop_lease ''shop'' = (\<lparr>inc_namespace = ''shop'', inc_generation = 1\<rparr>, True)"
    by (rule leased_incarnation [OF calm_facts(1)]) simp
  have up: "rc_upsert ?env c ids = None" for c ids by (simp add: calm_recompute_def)
  have vis: "visits (rc_strings ?env)" using calm_facts(5) by (simp add: calm_recompute_def)
  have wf: "idmap_wf (pw_ids batch_world)" using calm_facts(2) by (simp add: batch_world_def)
  obtain built objectIDs where bc: "buildChunk ?env shop_lease ''shop'' [''u1''] lambda batch_world = (Inr (built, objectIDs), batch_world)"
    using batch_chunk [of lambda] by auto
  note ok = buildChunk_ok [OF calm_facts(4) vis wf bc]
  from ok(3) have "resolved (pw_ids batch_world) ''shop'' (chunk_scores ?env ''shop'' lambda [''u1''] (pw_events batch_world) ''u1'') ''u1''" by simp
  from subject_build_ok [OF wf this] ok(5) obtain b where b: "built = [b]" "length (sv_Indices (sb_vec b)) = length (sv_Values (sb_vec b))"
    by auto
  then have "\<forall>(i, p)\<in>set [subject_point ?env (sb_vec b)]. vector_fits SparseCollection (qp_vector p)" by (simp add: subject_point_def)
  from upsert_points_sparse [OF up batch_world_collections(1) this] obtain w1 where
    w1: "upsertSubjectVectors ?env shop_lease ''shop'' [sb_vec b] batch_world = (None, w1)"
      "pt_collections (pw_store w1) = pt_collections (pw_store batch_world)"
    by (auto simp: upsertSubjectVectors_def collection_leased [OF lease])
  obtain a where a: "recompute_chunk ?env shop_lease ''shop'' lambda [''u1''] (?init, batch_world) = (a, w1)" "ra_upserted a = 1"
    using bc w1(1) by (simp add: recompute_chunk_def b(1) Let_def)
  have "pt_collections (pw_store w1) (shop_collection CollectionObjects) = Some SparseCollection"
    using w1(2) batch_world_collections(2) by simp
  moreover obtain passOf passes where plan: "planPasses (rc_ids ?env) cooccurrenceBudget (ra_co a) = (passOf, passes)"
    by (metis prod.exhaust)
  ultimately obtain keep m w2 where pass: "object_passes ?env shop_lease ''shop'' (ra_co a) passOf 0 passes [] 0 w1 = (Inr (keep, m), w2)"
    using object_passes_sparse [OF lease up, of w1 "ra_co a" passOf 0 passes "[]" 0] by auto
  show ?thesis unfolding RecomputeNamespace_def act by (simp add: a plan pass)
qed


end
