(* ===== verification/Spec2Isabelle.thy ===== *)
theory Spec2Isabelle
  imports Admin_Lifecycle Lifecycle_Fence Stream_Retention Stream_Consumer Event_Ingest Catalog_Ingest Embed_Recovery Compute_Service
begin

text \<open>
  Codohue is a recommendation server: clients send behavioural events and catalog items, workers
  consume them from Redis streams into PostgreSQL and, for catalog items, embed them into Qdrant;
  batch jobs and an HTTP API serve recommendations from the result. Every namespace has a
  \<^emph>\<open>generation\<close>; deleting and re-creating it moves to the next one, and all durable resources carry
  the generation in their names. This development models the lifecycle of generations, the two
  ingest paths down to the stored vector, the operations and periodic jobs around embedding, the log
  of batch runs, and the recompute of the sparse vectors recommendations are searched with.

  \<^bold>\<open>Conventions.\<close> A Go function is one definition of the same name; a returned error is \<open>Inl\<close> of
  \<open>go_error\<close> (\<open>Codohue_Prelude\<close>, one datatype per sentinel group, wrapped errors are the sentinel
  they wrap). A table is a list of rows and a statement a filter or map over it (\<open>Sql_Table\<close>).
  Stores and processes are records that are passed along; every statement or command that can fail
  has a field of type \<open>go_error option\<close> in an environment record, so each theorem covers every
  combination of failures its hypotheses do not exclude. Code outside \<^verbatim>\<open>src/\<close> (PostgreSQL's lock
  manager, Redis, Qdrant, JSON and time codecs, hashes, Unicode tables) is a parameter; what is
  relied on is a named hypothesis, instantiated in the witness of the theorem. 64-bit identifiers
  are unbounded integers, checked with \<open>int64\<close> where text is parsed; \<^verbatim>\<open>float64\<close> is \<open>real\<close>; the
  feature hash is a \<open>64 word\<close>. Metrics and log lines are left out.

  \<^bold>\<open>Generations\<close> (\<^verbatim>\<open>internal/core/nslifecycle\<close>).
  \<open>Lifecycle_Names\<close> has \<^verbatim>\<open>names.go\<close> and \<^verbatim>\<open>incarnation.go\<close>: names of different generations of a
  namespace never meet, and exactly which names of different namespaces do.
  \<open>Lifecycle_Store\<close> has the ledger tables and all methods of \<^verbatim>\<open>repository.go\<close>; they refine a phase
  machine (absent, active, deleting, deleted, at a generation), from which the locale
  \<open>generation_store\<close> derives that a generation left is never active again. The keyset listing of
  cleanup candidates is an instance of the locale \<open>keyset_source\<close> (\<open>Sql_Table\<close>), as is the
  catalog's reconciliation read.
  \<open>Lifecycle_Service\<close> has \<^verbatim>\<open>service.go\<close>: advisory-lock sessions as event lists, leases in the
  context, the writer fence, the exclusive operations and \<^verbatim>\<open>EvaluateEnvelope\<close>. The locale
  \<open>lease_fence\<close> is what every writer relies on.
  \<open>Lifecycle_Fence\<close> runs arbitrarily many such sessions interleaved, as an inductive step relation
  over one ledger and one lock table; its invariants say that a lease held is a lease that is true
  and that cleaning a generation never meets a writer of it.
  \<open>Lifecycle_Cleanup\<close> has the janitor and its store cleaner (\<^verbatim>\<open>janitor.go\<close>,
  \<^verbatim>\<open>cmd/cron/generation_cleaner.go\<close>): passes are bounded, and enough of them reclaim everything.
  \<open>Admin_Lifecycle\<close> has namespace deletion, application reset and demo deletion of
  \<^verbatim>\<open>internal/admin\<close>, with every failure path, and that interrupted operations resume.

  \<^bold>\<open>Streams\<close> (\<^verbatim>\<open>internal/infra/redis\<close>). \<open>Stream_Retention\<close> has the trimming pass against streams
  whose producers and groups go on working. \<open>Stream_Consumer\<close> has the consume and the reclaim loop;
  fuel counts the reads of a loop that in the program ends with its context, and the reclaim theorem
  states how many bounded ticks reach every abandoned entry.

  \<^bold>\<open>Events\<close> (\<^verbatim>\<open>internal/ingest\<close>). \<open>Event_Ingest\<close> has validation, weights, the insert under the fence,
  the live tail, the worker and the HTTP answers. Its locale \<open>gated_worker\<close> is the contract of a
  stream worker (decode, judge the generation, process, acknowledge what is settled); the event,
  catalog and embed workers are its three interpretations.

  \<^bold>\<open>Catalog\<close> (\<^verbatim>\<open>internal/catalog\<close>, \<^verbatim>\<open>internal/objects\<close>, \<^verbatim>\<open>internal/ingest/catalog_worker.go\<close>).
  \<open>Utf8_Text\<close> has Go's byte strings, the UTF-8 decoder and the sanitizer; \<open>Catalog_Items\<close> the table
  \<^verbatim>\<open>catalog_items\<close> with the hash-gated upsert and the listing; \<open>Catalog_Ingest\<close> the service, the
  batch form, the HTTP answers, the stream worker and the reconciliation read with its cursor.

  \<^bold>\<open>Embedding\<close> (\<^verbatim>\<open>internal/embedder\<close>, \<^verbatim>\<open>internal/core/embedstrategy\<close>, \<^verbatim>\<open>internal/core/idmap\<close>,
  \<^verbatim>\<open>internal/infra/qdrant/collections.go\<close>). \<open>Id_Mapping\<close> has the numeric identities with the races of
  concurrent minting; \<open>Embed_Strategy\<close> the registry, the tokenizer and the hashing strategy;
  \<open>Embed_Store\<close> the row transitions and the collections; \<open>Catalog_Embedder\<close> the service and the worker
  and the invariant of embedded rows; \<open>Embed_Pipeline\<close> the path from an accepted request to the
  stored vector, the end of redelivery, and two schedules in which the outcome is wrong.

  \<^bold>\<open>Operations and recovery\<close> (\<^verbatim>\<open>internal/admin\<close>, \<^verbatim>\<open>internal/embedder\<close>, \<^verbatim>\<open>internal/retention\<close>).
  \<open>Batch_Runs\<close> has the table \<^verbatim>\<open>batch_run_logs\<close> with the statements of all packages on it, the views
  of the console and the pruning job; \<open>Catalog_Ops\<close> re-embedding, redriving, deleting and browsing of
  catalog items; \<open>Embed_Recovery\<close> the recovery sweeper, the re-embed watcher, the backlog sampler and
  the registry of consumers. A step relation \<open>ops_step\<close> runs workers, operators and periodic jobs
  interleaved; its invariant is that a row recorded as embedded has the vector of its content, with
  the row delete that fails after the point delete as the proved exception. What a re-embed selects
  is republished, a drained run closes, stranded rows get a new entry, and the orphan sweep of the
  batch job closes re-embeds that still run.

  \<^bold>\<open>Sparse vectors\<close> (\<^verbatim>\<open>internal/compute\<close>). \<open>Sparse_Vectors\<close> has the arithmetic of \<^verbatim>\<open>service.go\<close>: decayed
  scores, 32-bit dimensions, unit vectors and the co-occurrence matrix. A Go map is an association
  list and the order of an iteration over it a parameter that visits each key once. The passes a
  matrix is built in are shown to partition it within the budget, and scores to be cosines.
  \<open>Compute_Service\<close> has \<^verbatim>\<open>RecomputeNamespace\<close>, the queries of \<^verbatim>\<open>repository.go\<close> it reads and the sweep of
  \<^verbatim>\<open>cleanup.go\<close>, whose paged loop terminates because each page starts after the last; no fuel is
  used. A recompute that reports all subjects leaves exactly the right points, and one that fails
  anywhere takes no vector from an active subject. That a vector can always be built rests on the id
  mapping: its sequence ends at the largest sparse dimension.

  \<^bold>\<open>This theory\<close> holds what spans all workers: entries of a superseded generation are dropped.

  \<^bold>\<open>Not modelled.\<close> The batch job that drives the phases, its advisory locks, dense training (item2vec
  draws from a library's random generator, SVD is a library's factorisation), mean pooling and trending
  scores; recommendation serving, which merges and ranks search results; configuration writes; the id
  repair tool; the admin console's other reads, sessions and event streaming; the client SDK and process
  wiring. Floating-point rounding is not modelled. Fairness of schedulers is not assumed: liveness is
  stated as the result of a run of sufficient length.
\<close>

section \<open>Properties across components\<close>

lemma superseded_stale:
  assumes row: "row_of L ns = Some r" and g: "1 \<le> g"
    and old: "g < row_generation r \<or> g = row_generation r \<and> row_state r \<noteq> StateActive"
  shows "EvaluateEnvelope None (fold apply_call cs L) ns (Some g) = Inr EnvelopeStale"
proof -
  let ?M = "fold apply_call cs L"
  have "phase L ns \<noteq> Absent" by (simp add: phase_Absent_iff row)
  then obtain r' where r': "row_of ?M ns = Some r'" using gens.run_present [of L ns cs] by (auto simp: phase_Absent_iff)
  have "3 * g < phase_rank (phase L ns)" using row old by (auto simp: phase_def split: NamespaceState.splits)
  also have "\<dots> \<le> phase_rank (phase ?M ns)" by (rule gens.run_rank_mono)
  finally have "phase ?M ns \<noteq> ActiveAt g" by auto
  with r' g show ?thesis by (auto simp: EvaluateEnvelope_row phase_ActiveAt_iff)
qed

text \<open>C25: Work of a generation that is being deleted or was replaced never reaches its successor: at
  every later moment of the ledger (deleted, created again, reset, any number of times), each of
  the three stream workers acknowledges an entry stamped with that generation and changes nothing
  else, neither events nor catalog rows, streams, ids or vectors.\<close>

theorem superseded_work_is_dropped_everywhere:
  assumes ledger: "row_of L ns = Some r" "1 \<le> g"
      "g < row_generation r \<or> g = row_generation r \<and> row_state r \<noteq> StateActive"
    and event: "ie_lifecycle ienv \<noteq> None" "ie_envelope ienv = None" "iw_ledger iw = fold apply_call cs L"
      "decodeEventMessage unmarshal m = Inr p" "ep_Namespace p = ns" "ep_NamespaceGeneration p = g"
    and item: "ce_lifecycle cenv \<noteq> None" "ce_envelope cenv = None" "cw_ledger cw = fold apply_call cs L"
      "decodeCatalogMessage unmarshal' m' = Inr q" "cs_Namespace q = ns" "cs_NamespaceGeneration q = g"
    and entry: "ev_lifecycle eenv \<noteq> None" "ev_envelope eenv = None" "ew_ledger ew = fold apply_call cs L"
      "DecodeStreamEntry parse_time m'' = Inr e" "se_NamespaceGeneration e = Some g"
  shows "handleMessage ienv unmarshal ctx m iw = ack (ie_ack ienv) (xm_ID m) iw
    \<and> catalog_handleMessage cenv unmarshal' ctx m' cw = catalog_ack (ce_ack cenv) (xm_ID m') cw
    \<and> embed_handleMessage eenv parse_time ctx ns m'' ew = embed_ack (ev_ack eenv) (xm_ID m'') ew"
proof (intro conjI)
  note stale = superseded_stale [OF ledger]
  show "handleMessage ienv unmarshal ctx m iw = ack (ie_ack ienv) (xm_ID m) iw"
    using event ledger(2) stale by (intro events.stale [OF event(4)]) (simp add: event_verdict_def stamped_def)
  show "catalog_handleMessage cenv unmarshal' ctx m' cw = catalog_ack (ce_ack cenv) (xm_ID m') cw"
    using item ledger(2) stale by (intro catalog.stale [OF item(4)]) (simp add: catalog_verdict_def stamped_def)
  show "embed_handleMessage eenv parse_time ctx ns m'' ew = embed_ack (ev_ack eenv) (xm_ID m'') ew"
    using entry stale by (intro embeds.stale [OF entry(4)]) (simp add: embed_verdict_def)
qed

definition recreated :: "store_call list" where
  "recreated = [CallCompleteDelete None 7 ''shop'' 1, CallActivate None 8 ''shop'']"

definition shop_deleting :: ledger where
  "shop_deleting = fold apply_call [CallStartDelete None 6 ''shop''] (migrate_024 0 [(''shop'', 5, 5)])"

theorem superseded_work_is_dropped_everywhere_witness:
  "let M = fold apply_call recreated shop_deleting;
       w = (shop_eworld (shop_stored 9 shop_cworld))\<lparr>ew_cat := (shop_stored 9 shop_cworld)\<lparr>cw_ledger := M\<rparr>\<rparr>
   in handleMessage shop_env (\<lambda>_. Inr (shop_like\<lparr>ep_NamespaceGeneration := 1\<rparr>)) background shop_entry (shop_world\<lparr>iw_ledger := M\<rparr>)
        = (shop_world\<lparr>iw_ledger := M\<rparr>)\<lparr>iw_acked := [''9-0'']\<rparr>
    \<and> catalog_handleMessage (shop_cenv 9) (\<lambda>_. Inr (shop_item\<lparr>cs_NamespaceGeneration := 1\<rparr>)) background shop_entry (shop_cworld\<lparr>cw_ledger := M\<rparr>)
        = (shop_cworld\<lparr>cw_ledger := M\<rparr>)\<lparr>cw_acked := [''9-0'']\<rparr>
    \<and> embed_handleMessage (shop_eenv 12) decimal_time background ''shop'' (entry_message (show_nat \<circ> nat) ''9-0'' shop_embed_entry) w
        = embed_ack None ''9-0'' w"
proof -
  let ?r = "(seed_row (''shop'', 5, 5))\<lparr>row_state := StateDeleting, row_updated_at := 6\<rparr>"
  let ?p = "shop_like\<lparr>ep_NamespaceGeneration := 1\<rparr>" and ?q = "shop_item\<lparr>cs_NamespaceGeneration := 1\<rparr>"
  define M where "M = fold apply_call recreated shop_deleting"
  let ?w = "(shop_eworld (shop_stored 9 shop_cworld))\<lparr>ew_cat := (shop_stored 9 shop_cworld)\<lparr>cw_ledger := M\<rparr>\<rparr>"
  have ledger: "row_of shop_deleting ''shop'' = Some ?r" "1 \<le> (1 :: int)"
    "1 < row_generation ?r \<or> 1 = row_generation ?r \<and> row_state ?r \<noteq> StateActive"
    by (simp_all add: shop_deleting_def StartDelete_def migrate_024_def seed_row_def Let_def)
  have event: "ie_lifecycle shop_env \<noteq> None" "ie_envelope shop_env = None" "iw_ledger (shop_world\<lparr>iw_ledger := M\<rparr>) = fold apply_call recreated shop_deleting"
    "decodeEventMessage (\<lambda>_. Inr ?p) shop_entry = Inr ?p" "ep_Namespace ?p = ''shop''" "ep_NamespaceGeneration ?p = 1"
    by (simp_all add: shop_env_def M_def decodeEventMessage_def shop_entry_def shop_like_def)
  have item: "ce_lifecycle (shop_cenv 9) \<noteq> None" "ce_envelope (shop_cenv 9) = None" "cw_ledger (shop_cworld\<lparr>cw_ledger := M\<rparr>) = fold apply_call recreated shop_deleting"
    "decodeCatalogMessage (\<lambda>_. Inr ?q) shop_entry = Inr ?q" "cs_Namespace ?q = ''shop''" "cs_NamespaceGeneration ?q = 1"
    by (simp_all add: shop_cenv_def M_def decodeCatalogMessage_def shop_entry_def shop_item_def)
  have entry: "ev_lifecycle (shop_eenv 12) \<noteq> None" "ev_envelope (shop_eenv 12) = None" "ew_ledger ?w = fold apply_call recreated shop_deleting"
    by (simp_all add: shop_eenv_def M_def)
  obtain e where dec: "DecodeStreamEntry decimal_time (entry_message (show_nat \<circ> nat) ''9-0'' shop_embed_entry) = Inr e" "se_NamespaceGeneration e = Some 1"
    by (simp add: DecodeStreamEntry_def entry_message_def parse_int64_show_int stringField_def shop_embed_entry_def
        int64_def decimal_time_def parse_digits_show_nat Let_def)
  from superseded_work_is_dropped_everywhere [OF ledger event item entry dec, of background] show ?thesis
    unfolding M_def [symmetric] Let_def
    by (simp add: ack_def catalog_ack_def) (simp add: shop_env_def shop_cenv_def shop_eenv_def shop_entry_def entry_message_def shop_world_def shop_cworld_def)
qed

end
